(* ===== verification/Go_Text.thy ===== *)
theory Go_Text
  imports Relay_Prelude
begin

text \<open>
  The text routines of Go's standard library that the relay calls: \<open>encoding/hex\<close>, the decimal
  conversions of \<open>strconv\<close>, and prefix, cut and split of \<open>strings\<close>.  Errors of the
  library are \<open>None\<close>.  The lemmas are the round trips and length facts of these codecs.
\<close>

section \<open>Hexadecimal\<close>

definition hex_digit :: "nat \<Rightarrow> char" where
  "hex_digit n = (if n < 10 then char_of (48 + n) else char_of (87 + n))"

definition unhex :: "char \<Rightarrow> nat option" where
  "unhex c = (let n = (of_char c :: nat) in
     if 48 \<le> n \<and> n \<le> 57 then Some (n - 48)
     else if 97 \<le> n \<and> n \<le> 102 then Some (n - 87)
     else if 65 \<le> n \<and> n \<le> 70 then Some (n - 55)
     else None)"

definition is_lower_hex :: "char \<Rightarrow> bool" where
  "is_lower_hex c \<longleftrightarrow> char_between CHR ''0'' CHR ''9'' c \<or> char_between CHR ''a'' CHR ''f'' c"

fun hex_encode :: "bytes \<Rightarrow> string" where
  "hex_encode [] = []"
| "hex_encode (b # bs) = hex_digit (unat b div 16) # hex_digit (unat b mod 16) # hex_encode bs"

fun hex_decode :: "string \<Rightarrow> bytes option" where
  "hex_decode [] = Some []"
| "hex_decode [_] = None"
| "hex_decode (x # y # s) =
     (case (unhex x, unhex y, hex_decode s) of
        (Some h, Some l, Some bs) \<Rightarrow> Some (of_nat (16 * h + l) # bs)
      | _ \<Rightarrow> None)"

lemma of_char_hex_digit: "n < 16 \<Longrightarrow> of_char (hex_digit n) = (if n < 10 then 48 + n else 87 + n)"
  by (simp add: hex_digit_def)

lemma hex_digit_props:
  assumes "n < 16"
  shows "unhex (hex_digit n) = Some n" and "is_lower_hex (hex_digit n)"
    and "hex_digit n \<noteq> CHR ''.''" and "hex_digit n \<noteq> CHR ''-''"
  using assms
  by (auto simp: unhex_def is_lower_hex_def char_between_def of_char_hex_digit Let_def intro!: char_neqI split: if_splits)

lemma unat_byte_div: "unat (b :: byte) div 16 < 16"
proof -
  have "unat b < 256" using unsigned_less [of b] by simp
  then show ?thesis by (simp add: div_less_iff_less_mult)
qed

lemmas hex_digit_nibbles [simp] =
  hex_digit_props [OF unat_byte_div] hex_digit_props [OF mod_less_divisor [of 16], simplified]

lemma length_hex_encode [simp]: "length (hex_encode bs) = 2 * length bs"
  by (induction bs) auto

lemma unat_of_nat_byte: "of_nat (unat b) = (b :: byte)"
  by simp

lemma hex_decode_encode [simp]: "hex_decode (hex_encode bs) = Some bs"
proof (induction bs)
  case (Cons b bs)
  have "16 * (unat b div 16) + unat b mod 16 = unat b" by simp
  then have "of_nat (16 * (unat b div 16) + unat b mod 16) = b" by (simp only: unat_of_nat_byte)
  with Cons show ?case by (simp del: of_nat_add of_nat_mult)
qed simp

lemma hex_decode_length: "hex_decode s = Some bs \<Longrightarrow> length s = 2 * length bs"
  by (induction s arbitrary: bs rule: hex_decode.induct) (auto split: option.splits)

lemma hex_encode_lower: "list_all is_lower_hex (hex_encode bs)"
  by (induction bs) auto

lemma hex_encode_eq_iff [simp]: "hex_encode a = hex_encode b \<longleftrightarrow> a = b"
  by (metis hex_decode_encode option.inject)

lemma hex_encode_append: "hex_encode (a @ b) = hex_encode a @ hex_encode b"
  by (induction a) auto

lemma dot_notin_hex_encode [simp]: "CHR ''.'' \<notin> set (hex_encode bs)"
  by (induction bs) (auto simp: hex_digit_nibbles(3,7) [symmetric])

section \<open>Decimal numbers\<close>

definition decimal_digit :: "nat \<Rightarrow> char" where
  "decimal_digit n = char_of (48 + n)"

fun format_nat :: "nat \<Rightarrow> string" where
  "format_nat n = (if n < 10 then [decimal_digit n]
     else format_nat (n div 10) @ [decimal_digit (n mod 10)])"

declare format_nat.simps [simp del]

text \<open>\<open>strconv.FormatInt(i, 10)\<close>.\<close>

definition format_int :: "int \<Rightarrow> string" where
  "format_int i = (if i < 0 then CHR ''-'' # format_nat (nat (- i)) else format_nat (nat i))"

definition digit_value :: "char \<Rightarrow> nat option" where
  "digit_value c = (let n = (of_char c :: nat) in if 48 \<le> n \<and> n \<le> 57 then Some (n - 48) else None)"

fun parse_digits :: "nat \<Rightarrow> string \<Rightarrow> nat option" where
  "parse_digits acc [] = Some acc"
| "parse_digits acc (c # s) =
     (case digit_value c of None \<Rightarrow> None | Some d \<Rightarrow> parse_digits (10 * acc + d) s)"

text \<open>\<open>strconv.ParseUint(s, 10, bits)\<close> and \<open>strconv.ParseInt(s, 10, 64)\<close>.\<close>

definition parse_uint :: "nat \<Rightarrow> string \<Rightarrow> nat option" where
  "parse_uint bits s =
     (if s = [] then None
      else case parse_digits 0 s of
             None \<Rightarrow> None
           | Some n \<Rightarrow> if n < 2 ^ bits then Some n else None)"

definition parse_int64 :: "string \<Rightarrow> int option" where
  "parse_int64 s =
     (case s of
        [] \<Rightarrow> None
      | c # r \<Rightarrow>
          let neg = (c = CHR ''-''); digits = (if neg \<or> c = CHR ''+'' then r else s) in
          (case parse_uint 64 digits of
             None \<Rightarrow> None
           | Some n \<Rightarrow>
               if neg then (if n \<le> 2 ^ 63 then Some (- int n) else None)
               else (if n < 2 ^ 63 then Some (int n) else None)))"

lemma digit_value_dot [simp]: "digit_value CHR ''.'' = None"
  by code_simp

lemma digit_props:
  assumes "d < 10"
  shows "digit_value (decimal_digit d) = Some d"
    and "decimal_digit d \<noteq> CHR ''-''" and "decimal_digit d \<noteq> CHR ''+''"
    and "decimal_digit d \<noteq> CHR ''.''"
  using assms
  by (auto simp: digit_value_def decimal_digit_def Let_def intro!: char_neqI)

lemma parse_digits_append:
  "parse_digits acc (s @ t) = (case parse_digits acc s of None \<Rightarrow> None | Some n \<Rightarrow> parse_digits n t)"
  by (induction acc s rule: parse_digits.induct) (auto split: option.splits)

lemma parse_digits_format [simp]: "parse_digits 0 (format_nat n) = Some n"
proof (induction n rule: format_nat.induct)
  case (1 n)
  then show ?case
    by (subst format_nat.simps) (auto simp: parse_digits_append digit_props)
qed

lemma format_nat_not_Nil [simp]: "format_nat n \<noteq> []"
  by (subst format_nat.simps) simp

lemma format_nat_digits: "c \<in> set (format_nat n) \<Longrightarrow> \<exists>d < 10. c = decimal_digit d"
proof (induction n rule: format_nat.induct)
  case (1 n)
  show ?case
  proof (cases "n < 10")
    case True
    with 1 show ?thesis by (auto simp: format_nat.simps [of n])
  next
    case False
    with 1 have "c \<in> set (format_nat (n div 10)) \<or> c = decimal_digit (n mod 10)"
      by (auto simp: format_nat.simps [of n])
    with 1 False show ?thesis by (metis mod_less_divisor zero_less_numeral)
  qed
qed

lemma dot_notin_format_nat [simp]: "CHR ''.'' \<notin> set (format_nat n)"
  using format_nat_digits digit_props(4) by metis

lemma format_nat_hd: "format_nat n = c # s \<Longrightarrow> c \<noteq> CHR ''-'' \<and> c \<noteq> CHR ''+''"
  by (metis digit_props(2,3) format_nat_digits list.set_intros(1))

lemma parse_uint_format: "n < 2 ^ bits \<Longrightarrow> parse_uint bits (format_nat n) = Some n"
  by (simp add: parse_uint_def)

lemma parse_int64_format_nat:
  assumes "n < 2 ^ 63"
  shows "parse_int64 (format_nat n) = Some (int n)"
proof -
  obtain c s where cs: "format_nat n = c # s" by (cases "format_nat n") auto
  have "n < 2 ^ 64" using assms by simp
  then have "parse_uint 64 (c # s) = Some n" by (metis cs parse_uint_format)
  with format_nat_hd [OF cs] assms show ?thesis
    by (simp add: parse_int64_def cs)
qed

theorem parse_int64_format_int:
  assumes "- (2 ^ 63) \<le> i" and "i < 2 ^ 63"
  shows "parse_int64 (format_int i) = Some i"
proof (cases "i < 0")
  case True
  with assms(1) have "nat (- i) \<le> 2 ^ 63" by simp
  moreover from this have "parse_uint 64 (format_nat (nat (- i))) = Some (nat (- i))"
    by (intro parse_uint_format) simp
  ultimately show ?thesis using True by (simp add: format_int_def parse_int64_def)
next
  case False
  with assms(2) show ?thesis by (simp add: format_int_def parse_int64_format_nat)
qed

lemma length_format_nat:
  "10 ^ k \<le> n \<Longrightarrow> n < 10 ^ Suc k \<Longrightarrow> length (format_nat n) = Suc k"
proof (induction k arbitrary: n)
  case 0
  then show ?case by (simp add: format_nat.simps [of n])
next
  case (Suc k)
  have "(10::nat) * 1 \<le> 10 * 10 ^ k" by simp
  with Suc.prems(1) have "10 \<le> n" by (metis le_trans mult.right_neutral power_Suc)
  moreover have "10 ^ k \<le> n div 10" "n div 10 < 10 ^ Suc k"
    using Suc.prems by (simp_all add: less_mult_imp_div_less div_le_mono [of "10 ^ Suc k" n 10, simplified])
  then have "length (format_nat (n div 10)) = Suc k" by (rule Suc.IH)
  ultimately show ?case by (simp add: format_nat.simps [of n])
qed

section \<open>Prefixes and separators\<close>

definition has_prefix :: "string \<Rightarrow> string \<Rightarrow> bool" where
  "has_prefix s p = (take (length p) s = p)"

definition trim_prefix :: "string \<Rightarrow> string \<Rightarrow> string" where
  "trim_prefix s p = (if has_prefix s p then drop (length p) s else s)"

lemma has_prefix_Nil [simp]: "has_prefix s []"
  by (simp add: has_prefix_def)

lemma has_prefix_Cons [simp]:
  "has_prefix [] (y # p) = False"
  "has_prefix (x # s) (y # p) \<longleftrightarrow> x = y \<and> has_prefix s p"
  by (auto simp: has_prefix_def)

lemma has_prefix_append [simp]: "has_prefix (p @ s) p"
  by (simp add: has_prefix_def)

lemma has_prefixE: "has_prefix s p \<Longrightarrow> (\<And>t. s = p @ t \<Longrightarrow> P) \<Longrightarrow> P"
  by (metis append_take_drop_id has_prefix_def)

lemma trim_prefix_append [simp]: "trim_prefix (p @ s) p = s"
  by (simp add: trim_prefix_def)

text \<open>\<open>strings.Cut\<close> at a one-byte separator: the text before and after its first occurrence.\<close>

fun cut :: "char \<Rightarrow> string \<Rightarrow> (string \<times> string) option" where
  "cut sep [] = None"
| "cut sep (c # s) =
     (if c = sep then Some ([], s)
      else case cut sep s of None \<Rightarrow> None | Some (a, b) \<Rightarrow> Some (c # a, b))"

lemma cut_append: "sep \<notin> set a \<Longrightarrow> cut sep (a @ sep # b) = Some (a, b)"
  by (induction a) auto

lemma cut_SomeD: "cut sep s = Some (a, b) \<Longrightarrow> s = a @ sep # b \<and> sep \<notin> set a"
  by (induction sep s arbitrary: a rule: cut.induct) (auto split: if_splits option.splits)

text \<open>\<open>strings.SplitN(s, sep, n)\<close> for \<open>n > 0\<close>: at most \<open>n\<close> parts, the last unsplit.\<close>

fun split_n :: "nat \<Rightarrow> char \<Rightarrow> string \<Rightarrow> string list" where
  "split_n 0 sep s = []"
| "split_n (Suc 0) sep s = [s]"
| "split_n (Suc (Suc n)) sep s =
     (case cut sep s of None \<Rightarrow> [s] | Some (a, b) \<Rightarrow> a # split_n (Suc n) sep b)"

lemma split_n_three:
  assumes "split_n 3 sep s = [a, b, c]"
  shows "s = a @ sep # b @ sep # c"
  using assms by (auto simp: numeral_3_eq_3 split: option.splits dest!: cut_SomeD)

lemma split_n_joined:
  "sep \<notin> set a \<Longrightarrow> sep \<notin> set b \<Longrightarrow> split_n 3 sep (a @ sep # b @ sep # c) = [a, b, c]"
  by (simp add: numeral_3_eq_3 cut_append)

end
