(* ===== verification/Identifier.thy ===== *)
theory Identifier
  imports Go_Text
begin

unbundle bit_operations_syntax

text \<open>
  \<open>internal/identifier\<close>: version 4 UUIDs and the syntax check that every boundary applies to
  an identifier.  The random source is an argument: \<open>Some\<close> of the bytes that
  \<open>rand.Read\<close> delivered, or \<open>None\<close> where it failed.
\<close>

definition NewUUID :: "bytes option \<Rightarrow> string option" where
  "NewUUID random =
     (case random of
        None \<Rightarrow> None
      | Some value0 \<Rightarrow>
          let value6 = value0[6 := ((value0 ! 6) AND 0x0f) OR 0x40];
              value = value6[8 := ((value6 ! 8) AND 0x3f) OR 0x80]
          in Some (hex_encode (take 4 value) @ ''-'' @
                   hex_encode (take 2 (drop 4 value)) @ ''-'' @
                   hex_encode (take 2 (drop 6 value)) @ ''-'' @
                   hex_encode (take 2 (drop 8 value)) @ ''-'' @
                   hex_encode (take 6 (drop 10 value))))"

definition uuid_char_ok :: "nat \<Rightarrow> char \<Rightarrow> bool" where
  "uuid_char_ok index character =
     (if index = 8 \<or> index = 13 \<or> index = 18 \<or> index = 23 then character = CHR ''-''
      else
        let is_digit = char_between CHR ''0'' CHR ''9'' character;
            is_lower_hex = char_between CHR ''a'' CHR ''f'' character
        in is_digit \<or> is_lower_hex)"

fun uuid_chars_ok :: "nat \<Rightarrow> string \<Rightarrow> bool" where
  "uuid_chars_ok index [] = True"
| "uuid_chars_ok index (c # s) = (if uuid_char_ok index c then uuid_chars_ok (Suc index) s else False)"

definition ValidUUID :: "string \<Rightarrow> bool" where
  "ValidUUID value = (if length value \<noteq> 36 then False else uuid_chars_ok 0 value)"

lemma uuid_chars_ok_append:
  "uuid_chars_ok i (s @ t) \<longleftrightarrow> uuid_chars_ok i s \<and> uuid_chars_ok (i + length s) t"
  by (induction i s rule: uuid_chars_ok.induct) auto

lemma uuid_chars_ok_hex:
  assumes "list_all is_lower_hex s"
    and "\<forall>k < length s. i + k \<notin> {8, 13, 18, 23}"
  shows "uuid_chars_ok i s"
  using assms
proof (induction i s rule: uuid_chars_ok.induct)
  case (2 i c s)
  from "2.prems"(2) have "i \<notin> {8, 13, 18, 23}" by fastforce
  with "2.prems"(1) have "uuid_char_ok i c" by (simp add: uuid_char_ok_def is_lower_hex_def Let_def)
  moreover from "2.prems"(2) have "\<forall>k < length s. Suc i + k \<notin> {8, 13, 18, 23}"
    by (metis Suc_less_eq add_Suc_shift length_Cons)
  ultimately show ?case using 2 by simp
qed simp

lemma uuid_chars_ok_nth:
  "uuid_chars_ok i s \<Longrightarrow> k < length s \<Longrightarrow> uuid_char_ok (i + k) (s ! k)"
proof (induction i s arbitrary: k rule: uuid_chars_ok.induct)
  case (2 i c s)
  then show ?case by (cases k) (auto split: if_splits)
qed simp

definition uuid_groups :: "bytes \<Rightarrow> string" where
  "uuid_groups value =
     hex_encode (take 4 value) @ ''-'' @ hex_encode (take 2 (drop 4 value)) @ ''-'' @
     hex_encode (take 2 (drop 6 value)) @ ''-'' @ hex_encode (take 2 (drop 8 value)) @ ''-'' @
     hex_encode (take 6 (drop 10 value))"

lemma valid_uuid_groups:
  assumes "length value = 16"
  shows "ValidUUID (uuid_groups value)"
  using assms
  by (simp add: ValidUUID_def uuid_groups_def uuid_chars_ok_append uuid_chars_ok_hex
      hex_encode_lower uuid_char_ok_def min_def)

lemma unat_high_nibble: "unat (w :: byte) div 16 = unat (drop_bit 4 w)"
  by (simp add: drop_bit_eq_div unat_div)

lemma hex_digit_values:
  "hex_digit 4 = CHR ''4''" "hex_digit 8 = CHR ''8''" "hex_digit 9 = CHR ''9''"
  "hex_digit 10 = CHR ''a''" "hex_digit 11 = CHR ''b''"
  by code_simp+

lemma version_digit: "hex_digit (unat (((b :: byte) AND 0x0f) OR 0x40) div 16) = CHR ''4''"
  by (simp add: unat_high_nibble hex_digit_values)

lemma variant_digit: "hex_digit (unat (((b :: byte) AND 0x3f) OR 0x80) div 16) \<in> set ''89ab''"
proof -
  define y where "y = drop_bit 4 b AND (3 :: byte)"
  have high: "drop_bit 4 ((b AND 0x3f) OR 0x80) = (y OR 8)"
    by (simp add: y_def)
  have "y \<le> 3" by (simp add: y_def word_and_le1)
  then have "unat y \<le> 3" by (simp add: word_le_nat_alt)
  then have "unat y = 0 \<or> unat y = 1 \<or> unat y = 2 \<or> unat y = 3" by arith
  then have "y = 0 \<or> y = 1 \<or> y = 2 \<or> y = 3" by (simp add: word_unat_eq_iff)
  then have "unat (y OR 8) \<in> {8, 9, 10, 11}" by (elim disjE) simp_all
  then show ?thesis
    unfolding unat_high_nibble high
    by (elim insertE emptyE) (simp_all only: hex_digit_values list.set insert_iff simp_thms)
qed

lemma NewUUID_groups:
  assumes "length random = 16"
  obtains v where "NewUUID (Some random) = Some (uuid_groups v)" and "length v = 16"
    and "\<exists>b. v ! 6 = (b AND 0x0f) OR 0x40" and "\<exists>b. v ! 8 = (b AND 0x3f) OR 0x80"
proof
  let ?v6 = "random[6 := ((random ! 6) AND 0x0f) OR 0x40]"
  let ?v = "?v6[8 := ((?v6 ! 8) AND 0x3f) OR 0x80]"
  show "NewUUID (Some random) = Some (uuid_groups ?v)"
    by (simp only: NewUUID_def uuid_groups_def option.case Let_def)
  show "length ?v = 16" using assms by simp
  show "\<exists>b. ?v ! 6 = (b AND 0x0f) OR 0x40" using assms by auto
  show "\<exists>b. ?v ! 8 = (b AND 0x3f) OR 0x80" using assms by auto
qed

lemma NewUUID_Some:
  obtains uuid where "NewUUID (Some random) = Some uuid"
  by (simp add: NewUUID_def Let_def)

lemma hex_encode_hd: "bs \<noteq> [] \<Longrightarrow> hex_encode bs ! 0 = hex_digit (unat (bs ! 0) div 16)"
  by (cases bs) auto

lemma uuid_groups_nth:
  assumes "length value = 16"
  shows "uuid_groups value ! 14 = hex_digit (unat (value ! 6) div 16)"
    and "uuid_groups value ! 19 = hex_digit (unat (value ! 8) div 16)"
  using assms
  by (simp_all add: uuid_groups_def nth_append min_def hex_encode_hd)

text \<open>
  Every identifier the relay generates passes the check that its own boundaries apply, and
  carries the version digit 4 and one of the four variant digits of RFC 4122.
\<close>

theorem NewUUID_valid:
  assumes "NewUUID (Some random) = Some uuid" and "length random = 16"
  shows "ValidUUID uuid \<and> uuid ! 14 = CHR ''4'' \<and> uuid ! 19 \<in> set ''89ab''"
proof -
  from assms(2) obtain w where v: "NewUUID (Some random) = Some (uuid_groups w)"
    "length w = 16" "\<exists>b. w ! 6 = (b AND 0x0f) OR 0x40" "\<exists>b. w ! 8 = (b AND 0x3f) OR 0x80"
    by (rule NewUUID_groups)
  with assms(1) have "uuid = uuid_groups w" by simp
  moreover obtain b c where "w ! 6 = (b AND 0x0f) OR 0x40" and "w ! 8 = (c AND 0x3f) OR 0x80"
    using v by blast
  ultimately show ?thesis
    using v(2) by (simp only: valid_uuid_groups uuid_groups_nth version_digit variant_digit simp_thms)
qed

theorem NewUUID_valid_witness:
  "ValidUUID ''00010203-0405-4607-8809-0a0b0c0d0e0f''"
proof -
  have "NewUUID (Some [0, 1, 2, 3, 4, 5, 6, 7, 8, 9, 10, 11, 12, 13, 14, 15])
      = Some ''00010203-0405-4607-8809-0a0b0c0d0e0f''"
    by code_simp
  from NewUUID_valid [OF this] show ?thesis by simp
qed

end
