(* ===== verification/Sha256.thy ===== *)
theory Sha256
  imports Relay_Prelude
begin

unbundle bit_operations_syntax

text \<open>
  The hash functions of Go's \<open>crypto/sha256\<close> and \<open>crypto/hmac\<close>, as FIPS 180-4 and FIPS 198-1
  define them.  The relay relies on the digest being a function of its input with 32 bytes,
  which is proved here; nothing in the development assumes collision resistance.
\<close>

type_synonym w32 = "32 word"

definition rotr :: "nat \<Rightarrow> w32 \<Rightarrow> w32" where
  "rotr n x = (drop_bit n x OR push_bit (32 - n) x)"

definition ch :: "w32 \<Rightarrow> w32 \<Rightarrow> w32 \<Rightarrow> w32" where
  "ch x y z = ((x AND y) XOR (NOT x AND z))"

definition maj :: "w32 \<Rightarrow> w32 \<Rightarrow> w32 \<Rightarrow> w32" where
  "maj x y z = ((x AND y) XOR (x AND z) XOR (y AND z))"

definition big_sigma0 :: "w32 \<Rightarrow> w32" where
  "big_sigma0 x = (rotr 2 x XOR rotr 13 x XOR rotr 22 x)"

definition big_sigma1 :: "w32 \<Rightarrow> w32" where
  "big_sigma1 x = (rotr 6 x XOR rotr 11 x XOR rotr 25 x)"

definition small_sigma0 :: "w32 \<Rightarrow> w32" where
  "small_sigma0 x = (rotr 7 x XOR rotr 18 x XOR drop_bit 3 x)"

definition small_sigma1 :: "w32 \<Rightarrow> w32" where
  "small_sigma1 x = (rotr 17 x XOR rotr 19 x XOR drop_bit 10 x)"

definition round_constants :: "w32 list" where
  "round_constants =
    [1116352408, 1899447441, 3049323471, 3921009573, 961987163, 1508970993, 2453635748, 2870763221,
     3624381080, 310598401, 607225278, 1426881987, 1925078388, 2162078206, 2614888103, 3248222580,
     3835390401, 4022224774, 264347078, 604807628, 770255983, 1249150122, 1555081692, 1996064986,
     2554220882, 2821834349, 2952996808, 3210313671, 3336571891, 3584528711, 113926993, 338241895,
     666307205, 773529912, 1294757372, 1396182291, 1695183700, 1986661051, 2177026350, 2456956037,
     2730485921, 2820302411, 3259730800, 3345764771, 3516065817, 3600352804, 4094571909, 275423344,
     430227734, 506948616, 659060556, 883997877, 958139571, 1322822218, 1537002063, 1747873779,
     1955562222, 2024104815, 2227730452, 2361852424, 2428436474, 2756734187, 3204031479, 3329325298]"

record digest_state =
  ha :: w32  hb :: w32  hc :: w32  hd' :: w32
  he :: w32  hf :: w32  hg :: w32  hh :: w32

definition initial_hash :: digest_state where
  "initial_hash = \<lparr> ha = 1779033703, hb = 3144134277, hc = 1013904242, hd' = 2773480762,
     he = 1359893119, hf = 2600822924, hg = 528734635, hh = 1541459225 \<rparr>"

definition hash_round :: "w32 \<Rightarrow> w32 \<Rightarrow> digest_state \<Rightarrow> digest_state" where
  "hash_round k w s =
    (let t1 = hh s + big_sigma1 (he s) + ch (he s) (hf s) (hg s) + k + w;
         t2 = big_sigma0 (ha s) + maj (ha s) (hb s) (hc s)
     in \<lparr> ha = t1 + t2, hb = ha s, hc = hb s, hd' = hc s,
          he = hd' s + t1, hf = he s, hg = hf s, hh = hg s \<rparr>)"

text \<open>
  The message schedule is kept as a window of its next sixteen words; each round consumes the
  first and appends the word sixteen places later.
\<close>

definition next_schedule :: "w32 list \<Rightarrow> w32" where
  "next_schedule ws = small_sigma1 (ws ! 14) + ws ! 9 + small_sigma0 (ws ! 1) + ws ! 0"

fun hash_rounds :: "w32 list \<Rightarrow> w32 list \<Rightarrow> digest_state \<Rightarrow> digest_state" where
  "hash_rounds [] ws s = s"
| "hash_rounds (k # ks) ws s =
     hash_rounds ks (tl ws @ [next_schedule ws]) (hash_round k (ws ! 0) s)"

definition add_state :: "digest_state \<Rightarrow> digest_state \<Rightarrow> digest_state" where
  "add_state s t = \<lparr> ha = ha s + ha t, hb = hb s + hb t, hc = hc s + hc t, hd' = hd' s + hd' t,
     he = he s + he t, hf = hf s + hf t, hg = hg s + hg t, hh = hh s + hh t \<rparr>"

definition word_of_bytes :: "byte \<Rightarrow> byte \<Rightarrow> byte \<Rightarrow> byte \<Rightarrow> w32" where
  "word_of_bytes a b c d =
     (push_bit 24 (ucast a) OR push_bit 16 (ucast b) OR push_bit 8 (ucast c) OR ucast d)"

definition bytes_of_word :: "w32 \<Rightarrow> bytes" where
  "bytes_of_word w = [ucast (drop_bit 24 w), ucast (drop_bit 16 w), ucast (drop_bit 8 w), ucast w]"

fun words_of_bytes :: "bytes \<Rightarrow> w32 list" where
  "words_of_bytes (a # b # c # d # rest) = word_of_bytes a b c d # words_of_bytes rest"
| "words_of_bytes _ = []"

definition hash_block :: "bytes \<Rightarrow> digest_state \<Rightarrow> digest_state" where
  "hash_block block s = add_state s (hash_rounds round_constants (words_of_bytes block) s)"

fun hash_blocks :: "bytes \<Rightarrow> digest_state \<Rightarrow> digest_state" where
  "hash_blocks data s =
     (if length data < 64 then s
      else hash_blocks (drop 64 data) (hash_block (take 64 data) s))"

declare hash_blocks.simps [simp del]

definition length_bytes :: "nat \<Rightarrow> bytes" where
  "length_bytes n = (let w = (of_nat (8 * n) :: 64 word) in map (\<lambda>k. ucast (drop_bit (8 * k) w)) [7, 6, 5, 4, 3, 2, 1, 0])"

definition pad_message :: "bytes \<Rightarrow> bytes" where
  "pad_message m =
     m @ [0x80] @ replicate ((119 - length m mod 64) mod 64) 0 @ length_bytes (length m)"

definition digest_bytes :: "digest_state \<Rightarrow> bytes" where
  "digest_bytes s = concat (map bytes_of_word [ha s, hb s, hc s, hd' s, he s, hf s, hg s, hh s])"

definition sha256 :: "bytes \<Rightarrow> bytes" where
  "sha256 m = digest_bytes (hash_blocks (pad_message m) initial_hash)"

lemma length_sha256 [simp]: "length (sha256 m) = 32"
  by (simp add: sha256_def digest_bytes_def bytes_of_word_def)

text \<open>Padding fills whole blocks, so no tail of the message is dropped.\<close>

lemma length_length_bytes [simp]: "length (length_bytes n) = 8"
  by (simp add: length_bytes_def Let_def)

lemma length_pad_message: "length (pad_message m) mod 64 = 0"
proof -
  let ?n = "length m mod 64"
  have "length (pad_message m) = length m + (9 + (119 - ?n) mod 64)"
    by (simp add: pad_message_def)
  then have "length (pad_message m) mod 64 = (?n + (9 + (119 - ?n))) mod 64"
    by (metis mod_add_left_eq mod_add_right_eq)
  moreover have "?n < 64" by simp
  then have "?n + (9 + (119 - ?n)) = 128" by simp
  ultimately show ?thesis by simp
qed

section \<open>HMAC\<close>

definition hmac_key :: "bytes \<Rightarrow> bytes" where
  "hmac_key key =
     (let k = (if length key > 64 then sha256 key else key) in k @ replicate (64 - length k) 0)"

definition hmac_sha256 :: "bytes \<Rightarrow> bytes \<Rightarrow> bytes" where
  "hmac_sha256 key message =
     (let k = hmac_key key
      in sha256 (map (\<lambda>b. b XOR 0x5c) k @ sha256 (map (\<lambda>b. b XOR 0x36) k @ message)))"

lemma length_hmac_sha256 [simp]: "length (hmac_sha256 key message) = 32"
  by (simp add: hmac_sha256_def Let_def)

end
