(* ===== verification/Signature.thy ===== *)
theory Signature
  imports Sha256 Go_Text
begin

text \<open>
  \<open>internal/signature\<close>: the HMAC signature that authenticates receipts at ingress and the
  relay's own requests at a receiver.  \<open>Valid\<close> returns \<open>None\<close> where the code panics.
\<close>

definition encoded_size :: nat where
  "encoded_size = 32 * 2"

definition signed_message :: "string \<Rightarrow> bytes \<Rightarrow> bytes" where
  "signed_message timestamp body = bytes_of timestamp @ bytes_of ''.'' @ body"

definition Create :: "bytes \<Rightarrow> string \<Rightarrow> bytes \<Rightarrow> string" where
  "Create secret timestamp body =
     ''v1='' @ hex_encode (hmac_sha256 secret (signed_message timestamp body))"

definition Valid :: "bytes \<Rightarrow> string \<Rightarrow> bytes \<Rightarrow> string \<Rightarrow> bool option" where
  "Valid secret timestamp body supplied =
     (let prefix = ''v1='' in
      if length supplied \<noteq> length prefix + encoded_size then Some False
      else if take (length prefix) supplied \<noteq> prefix then Some False
      else case hex_decode (drop (length prefix) supplied) of
        None \<Rightarrow> Some False
      | Some supplied_digest \<Rightarrow>
          let expected = Create secret timestamp body in
          (case hex_decode (drop (length prefix) expected) of
             None \<Rightarrow> None
           | Some expected_digest \<Rightarrow> Some (expected_digest = supplied_digest)))"

lemma length_Create [simp]: "length (Create secret timestamp body) = 67"
  by (simp add: Create_def)

lemma Valid_prefixed:
  "Valid secret timestamp body (''v1='' @ encoded) =
     Some (hex_decode encoded = Some (hmac_sha256 secret (signed_message timestamp body)))"
proof (cases "length encoded = 64")
  case True
  then show ?thesis
    by (auto simp: Valid_def Let_def encoded_size_def Create_def split: option.splits)
next
  case False
  then have "hex_decode encoded \<noteq> Some (hmac_sha256 secret (signed_message timestamp body))"
    by (auto dest: hex_decode_length)
  with False show ?thesis by (simp add: Valid_def Let_def encoded_size_def)
qed

lemma Valid_not_prefixed:
  "\<not> has_prefix supplied ''v1='' \<Longrightarrow> Valid secret timestamp body supplied = Some False"
  by (simp add: Valid_def Let_def has_prefix_def)

text \<open>
  Signature checking never panics, and it accepts a supplied value exactly when this is the
  prefix \<open>v1=\<close> followed by a hexadecimal encoding of the HMAC-SHA256 of
  \<open>timestamp.body\<close> under the secret; every other value is rejected.
\<close>

theorem Valid_spec:
  "Valid secret timestamp body supplied =
     Some (\<exists>encoded. supplied = ''v1='' @ encoded \<and>
       hex_decode encoded = Some (hmac_sha256 secret (signed_message timestamp body)))"
proof (cases "has_prefix supplied ''v1=''")
  case True
  then obtain encoded where "supplied = ''v1='' @ encoded" by (rule has_prefixE)
  then show ?thesis by (simp only: Valid_prefixed) simp
next
  case False
  then have "\<nexists>encoded. supplied = ''v1='' @ encoded" by auto
  with False show ?thesis using Valid_not_prefixed by auto
qed

text \<open>
  What \<open>Create\<close> signs, \<open>Valid\<close> accepts under the same secret, timestamp and body, for every
  secret, timestamp and body; and among lower-case encodings it is the only accepted value.
\<close>

theorem Create_Valid:
  "Valid secret timestamp body (Create secret timestamp body) = Some True \<and>
   (Valid secret timestamp body (''v1='' @ hex_encode digest) = Some True \<longleftrightarrow>
      ''v1='' @ hex_encode digest = Create secret timestamp body)"
  unfolding Create_def Valid_prefixed by simp

text \<open>
  A receiver splits the signed message at its first dot.  A timestamp that parses as a decimal
  integer has no dot in it, so the boundary between timestamp and body cannot be moved.
\<close>

lemma parse_digits_no_dot: "parse_digits acc s = Some n \<Longrightarrow> CHR ''.'' \<notin> set s"
proof (induction acc s arbitrary: n rule: parse_digits.induct)
  case (2 acc c s)
  then show ?case by (auto split: option.splits)
qed simp

lemma parse_int64_no_dot: "parse_int64 s = Some n \<Longrightarrow> CHR ''.'' \<notin> set s"
  by (auto simp: parse_int64_def parse_uint_def Let_def
      split: list.splits option.splits if_splits dest!: parse_digits_no_dot)

lemma signed_message_cong:
  assumes "CHR ''.'' \<notin> set t" and "CHR ''.'' \<notin> set u"
    and eq: "signed_message t b = signed_message u c"
  shows "t = u \<and> b = c"
proof -
  have "bytes_of ''.'' = [46]" by (simp add: bytes_of_def)
  then have msg: "signed_message x y = bytes_of x @ 46 # y" for x y by (simp add: signed_message_def)
  have dot: "46 \<notin> set (bytes_of x)" if "CHR ''.'' \<notin> set x" for x
  proof
    assume "46 \<in> set (bytes_of x)"
    then obtain c where "c \<in> set x" and "(of_char c :: byte) = of_char CHR ''.''"
      by (auto simp: bytes_of_def)
    with that show False by (simp only: of_char_byte_eq_iff)
  qed
  from eq have "bytes_of t @ 46 # b = bytes_of u @ 46 # c" by (simp only: msg)
  with dot [OF assms(1)] dot [OF assms(2)] have "bytes_of t = bytes_of u \<and> b = c"
    by (rule append_separator_eq)
  then show ?thesis by simp
qed

text \<open>
  For timestamps that the receiving side accepts as integers, the signed message determines
  both the timestamp and the body, so one signature never covers two different requests by
  shifting bytes across the separator.
\<close>

theorem signed_message_inj:
  assumes "parse_int64 t = Some m" and "parse_int64 u = Some n"
    and "signed_message t b = signed_message u c"
  shows "t = u \<and> b = c"
  using parse_int64_no_dot [OF assms(1)] parse_int64_no_dot [OF assms(2)] assms(3)
  by (rule signed_message_cong)

theorem signed_message_inj_witness:
  "signed_message ''1757023200'' [1, 2] = signed_message ''1757023200'' [1, 2] \<and>
   (''1757023200'' :: string) = ''1757023200'' \<and> [1, 2 :: byte] = [1, 2]"
proof -
  have "parse_int64 ''1757023200'' = Some 1757023200"
    by (simp add: parse_int64_def parse_uint_def digit_value_def)
  from signed_message_inj [OF this this refl, of "[1, 2]"] show ?thesis by simp
qed

text \<open>The upper-case hexadecimal encoding, which the delivery contract does not use.\<close>

definition upper_hex_digit :: "nat \<Rightarrow> char" where
  "upper_hex_digit n = (if n < 10 then char_of (48 + n) else char_of (55 + n))"

fun upper_hex_encode :: "bytes \<Rightarrow> string" where
  "upper_hex_encode [] = []"
| "upper_hex_encode (b # bs) =
     upper_hex_digit (unat b div 16) # upper_hex_digit (unat b mod 16) # upper_hex_encode bs"

lemma unhex_upper: "n < 16 \<Longrightarrow> unhex (upper_hex_digit n) = Some n"
  by (auto simp: unhex_def upper_hex_digit_def Let_def)

lemma hex_decode_upper: "hex_decode (upper_hex_encode bs) = Some bs"
proof (induction bs)
  case (Cons b bs)
  have "16 * (unat b div 16) + unat b mod 16 = unat b" by simp
  then have "of_nat (16 * (unat b div 16) + unat b mod 16) = b" by (simp only: unat_of_nat_byte)
  with Cons show ?case by (simp add: unhex_upper unat_byte_div del: of_nat_add of_nat_mult)
qed simp

text \<open>
  The check also accepts an upper-case encoding of the digest, although the delivery contract
  asks for lower-case hexadecimal.
\<close>

theorem Valid_accepts_upper_case:
  "Valid secret timestamp body
     (''v1='' @ upper_hex_encode (hmac_sha256 secret (signed_message timestamp body))) = Some True"
  unfolding Valid_prefixed by (simp add: hex_decode_upper)

end
