(* ===== verification/Relay_Schema.thy ===== *)
theory Relay_Schema
  imports Go_Text
begin

text \<open>
  The PostgreSQL schema \<open>p3_relay\<close> of \<open>migrations/\<close> as records of rows, its constraints as the
  executable predicate \<open>schema_ok\<close>, and the way the program talks to the database: a statement
  that succeeds, fails, or takes effect although its answer is lost on the way back.

  A table is the list of its rows in physical order, which is arbitrary; every theorem holds for
  every order.  The columns constrained to a fixed set of texts are datatypes.  Unique, primary
  and foreign keys are checked with the column constraints after each statement: a statement
  whose result violates one of them is an error and has no effect.
\<close>

section \<open>Rows and tables\<close>

datatype event_state = Pending | Delivering | Delivered | Retry_Scheduled | Dead_Lettered

definition state_text :: "event_state \<Rightarrow> string" where
  "state_text s = (case s of Pending \<Rightarrow> ''pending'' | Delivering \<Rightarrow> ''delivering''
     | Delivered \<Rightarrow> ''delivered'' | Retry_Scheduled \<Rightarrow> ''retry_scheduled''
     | Dead_Lettered \<Rightarrow> ''dead_lettered'')"

datatype outcome = Outcome_Delivered | Retryable_HTTP | Terminal_HTTP | Network_Error

record event_row =
  ev_id :: string
  ev_source :: string
  ev_external :: string
  ev_body :: bytes
  ev_sha :: bytes
  ev_dest :: string
  ev_state :: event_state
  ev_attempts :: int
  ev_replays :: int
  ev_next :: time
  ev_lease :: "time option"
  ev_claim :: "string option"
  ev_created :: time
  ev_delivered :: "time option"
  ev_sandbox :: "string option"

record attempt_row =
  at_id :: string
  at_event :: string
  at_replay :: int
  at_number :: int
  at_started :: time
  at_finished :: time
  at_outcome :: outcome
  at_status :: "int option"
  at_excerpt :: bytes
  at_error :: "string option"

record session_row =
  ss_id :: string
  ss_expires :: time
  ss_events :: int

record budget_row =
  bg_window :: time
  bg_sessions :: int
  bg_admissions :: int

record db =
  events :: "event_row list"
  attempts :: "attempt_row list"
  sessions :: "session_row list"
  budget :: "budget_row option"

section \<open>Constraints\<close>

text \<open>\<open>length\<close> of a \<open>text\<close> counts characters: the bytes that do not continue a UTF-8 sequence.\<close>

definition text_length :: "string \<Rightarrow> nat" where
  "text_length s = length (filter (\<lambda>c. \<not> (128 \<le> (of_char c :: nat) \<and> (of_char c :: nat) < 192)) s)"

lemma text_length_le: "text_length s \<le> length s"
  by (simp add: text_length_def)

definition event_check :: "event_row \<Rightarrow> bool" where
  "event_check e \<longleftrightarrow>
     1 \<le> text_length (ev_source e) \<and> text_length (ev_source e) \<le> 128 \<and>
     1 \<le> text_length (ev_external e) \<and> text_length (ev_external e) \<le> 128 \<and>
     1 \<le> length (ev_body e) \<and> length (ev_body e) \<le> 262144 \<and>
     length (ev_sha e) = 32 \<and>
     1 \<le> text_length (ev_dest e) \<and> text_length (ev_dest e) \<le> 2048 \<and>
     0 \<le> ev_attempts e \<and> ev_attempts e \<le> 8 \<and>
     0 \<le> ev_replays e \<and> ev_replays e \<le> 16 \<and>
     (ev_state e \<noteq> Delivered \<or> ev_delivered e \<noteq> None) \<and>
     (ev_state e = Delivering) = (ev_claim e \<noteq> None) \<and>
     (ev_state e = Delivering) = (ev_lease e \<noteq> None)"

definition attempt_check :: "attempt_row \<Rightarrow> bool" where
  "attempt_check a \<longleftrightarrow>
     0 \<le> at_replay a \<and> at_replay a \<le> 16 \<and>
     1 \<le> at_number a \<and> at_number a \<le> 8 \<and>
     at_started a \<le> at_finished a \<and>
     (case at_status a of None \<Rightarrow> True | Some c \<Rightarrow> 100 \<le> c \<and> c \<le> 599) \<and>
     length (at_excerpt a) \<le> 4096 \<and>
     (case at_error a of None \<Rightarrow> True | Some m \<Rightarrow> 1 \<le> text_length m \<and> text_length m \<le> 64) \<and>
     ((at_status a \<noteq> None \<and> at_error a = None) \<or> (at_status a = None \<and> at_error a \<noteq> None))"

definition session_check :: "session_row \<Rightarrow> bool" where
  "session_check s \<longleftrightarrow> length (ss_id s) = 32 \<and> list_all is_lower_hex (ss_id s) \<and>
     0 \<le> ss_events s \<and> ss_events s \<le> 20"

definition budget_check :: "budget_row \<Rightarrow> bool" where
  "budget_check b \<longleftrightarrow> 0 \<le> bg_sessions b \<and> bg_sessions b \<le> 100 \<and>
     0 \<le> bg_admissions b \<and> bg_admissions b \<le> 1000"

definition event_key :: "event_row \<Rightarrow> string \<times> string" where
  "event_key e = (ev_source e, ev_external e)"

definition attempt_key :: "attempt_row \<Rightarrow> string \<times> int \<times> int" where
  "attempt_key a = (at_event a, at_replay a, at_number a)"

definition events_ok :: "db \<Rightarrow> bool" where
  "events_ok d \<longleftrightarrow> list_all event_check (events d) \<and> distinct (map ev_id (events d)) \<and>
     distinct (map event_key (events d))"

definition attempts_ok :: "db \<Rightarrow> bool" where
  "attempts_ok d \<longleftrightarrow> list_all attempt_check (attempts d) \<and> distinct (map at_id (attempts d)) \<and>
     distinct (map attempt_key (attempts d)) \<and>
     list_all (\<lambda>a. at_event a \<in> ev_id ` set (events d)) (attempts d)"

definition sessions_ok :: "db \<Rightarrow> bool" where
  "sessions_ok d \<longleftrightarrow> list_all session_check (sessions d) \<and> distinct (map ss_id (sessions d)) \<and>
     list_all (\<lambda>e. case ev_sandbox e of None \<Rightarrow> True | Some s \<Rightarrow> s \<in> ss_id ` set (sessions d)) (events d) \<and>
     (case budget d of None \<Rightarrow> True | Some b \<Rightarrow> budget_check b)"

definition schema_ok :: "db \<Rightarrow> bool" where
  "schema_ok d \<longleftrightarrow> events_ok d \<and> attempts_ok d \<and> sessions_ok d"

lemmas schema_defs = schema_ok_def events_ok_def attempts_ok_def sessions_ok_def

definition empty_db :: "time \<Rightarrow> db" where
  "empty_db t = \<lparr> events = [], attempts = [], sessions = [],
     budget = Some \<lparr> bg_window = t - t mod hour, bg_sessions = 0, bg_admissions = 0 \<rparr> \<rparr>"

lemma schema_ok_empty [simp]: "schema_ok (empty_db t)"
  by (simp add: schema_defs empty_db_def budget_check_def)

section \<open>Statements, transactions and their failures\<close>

text \<open>
  \<open>Failed\<close>: the statement did not run.  \<open>Lost\<close>: it ran (and, outside a transaction or as a
  commit, took effect), but the client saw an error.  Inside a transaction both end in a
  rollback.
\<close>

datatype net = Done | Failed | Lost

datatype db_error = Unavailable | Constraint_Violation

definition query :: "net \<Rightarrow> (db \<Rightarrow> 'r) \<Rightarrow> db \<Rightarrow> db_error + 'r" where
  "query n f d = (if n = Done then Inr (f d) else Inl Unavailable)"

definition statement :: "net \<Rightarrow> (db \<Rightarrow> 'r \<times> db) \<Rightarrow> db \<Rightarrow> db_error + 'r \<times> db" where
  "statement n f d =
     (if n \<noteq> Done then Inl Unavailable
      else let (r, d') = f d in if schema_ok d' then Inr (r, d') else Inl Constraint_Violation)"

definition autocommit :: "net \<Rightarrow> (db \<Rightarrow> 'r \<times> db) \<Rightarrow> db \<Rightarrow> (db_error + 'r) \<times> db" where
  "autocommit n f d =
     (if n = Failed then (Inl Unavailable, d)
      else let (r, d') = f d in
        if schema_ok d' then ((if n = Lost then Inl Unavailable else Inr r), d')
        else (Inl Constraint_Violation, d))"

definition commit :: "net \<Rightarrow> db \<Rightarrow> db \<Rightarrow> (db_error + unit) \<times> db" where
  "commit n before tx =
     (case n of Done \<Rightarrow> (Inr (), tx) | Failed \<Rightarrow> (Inl Unavailable, before) | Lost \<Rightarrow> (Inl Unavailable, tx))"

lemma statement_alt:
  "statement n f d = (if n \<noteq> Done then Inl Unavailable
     else if schema_ok (snd (f d)) then Inr (fst (f d), snd (f d)) else Inl Constraint_Violation)"
  by (simp add: statement_def case_prod_beta)

lemma autocommit_alt:
  "autocommit n f d = (if n = Failed then (Inl Unavailable, d)
     else if schema_ok (snd (f d)) then ((if n = Lost then Inl Unavailable else Inr (fst (f d))), snd (f d))
     else (Inl Constraint_Violation, d))"
  by (simp add: autocommit_def case_prod_beta)

lemma statement_Inr:
  "statement n f d = Inr (r, d') \<longleftrightarrow> n = Done \<and> f d = (r, d') \<and> schema_ok d'"
  by (auto simp: statement_def Let_def split: if_splits prod.splits)

lemma statement_schema: "statement n f d = Inr (r, d') \<Longrightarrow> schema_ok d'"
  by (simp add: statement_Inr)

lemma autocommit_schema: "schema_ok d \<Longrightarrow> autocommit n f d = (r, d') \<Longrightarrow> schema_ok d'"
  by (auto simp: autocommit_def Let_def split: if_splits prod.splits)

lemma autocommit_Inr:
  "autocommit n f d = (Inr r, d') \<longleftrightarrow> n = Done \<and> f d = (r, d') \<and> schema_ok d'"
  by (cases n) (auto simp: autocommit_def Let_def split: if_splits prod.splits)

lemma autocommit_cases:
  assumes "autocommit n f d = (r, d')"
  obtains (unchanged) "d' = d" "\<exists>e. r = Inl e" | (applied) "d' = snd (f d)" "schema_ok d'"
  using assms by (cases n) (auto simp: autocommit_def Let_def split: if_splits prod.splits)

text \<open>\<open>UPDATE ... WHERE\<close>: the rows updated in place, and how many there were.\<close>

definition update_rows :: "('a \<Rightarrow> bool) \<Rightarrow> ('a \<Rightarrow> 'a) \<Rightarrow> 'a list \<Rightarrow> nat \<times> 'a list" where
  "update_rows p f rows = (length (filter p rows), map (\<lambda>r. if p r then f r else r) rows)"

definition find_event :: "string \<Rightarrow> db \<Rightarrow> event_row option" where
  "find_event i d = List.find (\<lambda>e. ev_id e = i) (events d)"

definition event_attempts :: "db \<Rightarrow> string \<Rightarrow> attempt_row list" where
  "event_attempts d i = filter (\<lambda>a. at_event a = i) (attempts d)"

lemma distinct_map_inj: "distinct (map f xs) \<Longrightarrow> x \<in> set xs \<Longrightarrow> y \<in> set xs \<Longrightarrow> f x = f y \<Longrightarrow> x = y"
  by (auto simp: distinct_map inj_on_def)

lemma find_event_Some: "find_event i d = Some e \<Longrightarrow> e \<in> set (events d) \<and> ev_id e = i"
  by (auto simp: find_event_def find_Some_iff)

lemma find_event_iff:
  assumes "distinct (map ev_id (events d))"
  shows "find_event i d = Some e \<longleftrightarrow> e \<in> set (events d) \<and> ev_id e = i"
proof
  assume "e \<in> set (events d) \<and> ev_id e = i"
  then obtain e' where "find_event i d = Some e'"
    by (cases "find_event i d") (auto simp: find_event_def find_None_iff)
  with \<open>e \<in> set (events d) \<and> ev_id e = i\<close> find_event_Some show "find_event i d = Some e"
    using distinct_map_inj [OF assms] by metis
qed (rule find_event_Some)

lemma map_update_same:
  "(\<And>r. p r \<Longrightarrow> g (f r) = g r) \<Longrightarrow> map g (snd (update_rows p f rows)) = map g rows"
  by (simp add: update_rows_def)

lemma set_update_rows: "set (snd (update_rows p f rows)) = (\<lambda>r. if p r then f r else r) ` set rows"
  by (simp add: update_rows_def)

section \<open>Preservation of the constraints\<close>

text \<open>Updating rows in place keeps every key, so only the column checks of the new rows matter.\<close>

lemma schema_ok_map_events:
  assumes "schema_ok d"
    and "\<And>e. e \<in> set (events d) \<Longrightarrow> event_check (f e)"
    and "\<And>e. ev_id (f e) = ev_id e" and "\<And>e. event_key (f e) = event_key e"
    and "\<And>e. ev_sandbox (f e) = ev_sandbox e"
  shows "schema_ok (d\<lparr>events := map f (events d)\<rparr>)"
proof -
  have [simp]: "ev_id \<circ> f = ev_id" "event_key \<circ> f = event_key"
    using assms(3,4) by (auto simp: fun_eq_iff)
  have [simp]: "ev_id ` f ` set (events d) = ev_id ` set (events d)"
    by (simp add: image_comp)
  show ?thesis
    using assms by (auto simp: schema_defs list_all_iff split: option.splits)
qed

text \<open>Appending a row needs its column checks, fresh keys, and the rows it refers to.\<close>

lemma schema_ok_append_attempt:
  assumes "schema_ok d" and "attempt_check a" and "at_id a \<notin> at_id ` set (attempts d)"
    and "attempt_key a \<notin> attempt_key ` set (attempts d)" and "at_event a \<in> ev_id ` set (events d)"
  shows "schema_ok (d\<lparr>attempts := attempts d @ [a]\<rparr>)"
  using assms by (auto simp: schema_defs split: option.splits)

lemma schema_ok_append_event:
  assumes "schema_ok d" and "event_check e" and "ev_id e \<notin> ev_id ` set (events d)"
    and "event_key e \<notin> event_key ` set (events d)"
    and "\<And>s. ev_sandbox e = Some s \<Longrightarrow> s \<in> ss_id ` set (sessions d)"
  shows "schema_ok (d\<lparr>events := events d @ [e]\<rparr>)"
  using assms by (auto simp: schema_defs list_all_iff split: option.splits)

lemma schema_ok_append_session:
  assumes "schema_ok d" and "session_check s" and "ss_id s \<notin> ss_id ` set (sessions d)"
  shows "schema_ok (d\<lparr>sessions := sessions d @ [s]\<rparr>)"
  using assms by (auto simp: schema_defs list_all_iff split: option.splits)

lemma schema_ok_budget:
  assumes "schema_ok d" and "budget_check b"
  shows "schema_ok (d\<lparr>budget := Some b\<rparr>)"
  using assms by (auto simp: schema_defs list_all_iff split: option.splits)

lemma schema_ok_event_check: "schema_ok d \<Longrightarrow> e \<in> set (events d) \<Longrightarrow> event_check e"
  by (simp add: schema_defs list_all_iff)

lemma schema_ok_distinct_ids: "schema_ok d \<Longrightarrow> distinct (map ev_id (events d))"
  by (simp add: schema_defs)

lemma schema_ok_sandbox_session:
  assumes "schema_ok d" and "e \<in> set (events d)" and "ev_sandbox e = Some sid"
  shows "\<exists>s \<in> set (sessions d). ss_id s = sid"
proof -
  have "\<forall>e \<in> set (events d). case ev_sandbox e of None \<Rightarrow> True | Some s \<Rightarrow> s \<in> ss_id ` set (sessions d)"
    using assms(1) by (simp add: schema_defs list_all_iff)
  with assms(2,3) show ?thesis by fastforce
qed

lemma schema_ok_same_id:
  "schema_ok d \<Longrightarrow> e \<in> set (events d) \<Longrightarrow> f \<in> set (events d) \<Longrightarrow> ev_id e = ev_id f \<Longrightarrow> e = f"
  by (blast intro: distinct_map_inj schema_ok_distinct_ids)

lemma filter_unique:
  assumes "distinct (map f xs)" and "\<And>x. p x \<Longrightarrow> f x = k"
  shows "length (filter p xs) = (if \<exists>x \<in> set xs. p x then 1 else 0)"
  using assms by (induction xs) (force simp: filter_empty_conv)+

section \<open>The lifecycle of an event\<close>

text \<open>
  What the operations keep between the columns of a row, beyond the constraints of the table: a
  pending event has used no attempt of its current generation, a scheduled retry has used some
  but not all of them, and only delivered events carry a delivery time.
\<close>

definition lifecycle_row :: "event_row \<Rightarrow> bool" where
  "lifecycle_row e \<longleftrightarrow>
     (ev_state e = Pending \<longrightarrow> ev_attempts e = 0) \<and>
     (ev_state e = Retry_Scheduled \<longrightarrow> 1 \<le> ev_attempts e \<and> ev_attempts e \<le> 7) \<and>
     (ev_state e = Delivering \<or> ev_state e = Delivered \<longrightarrow> 1 \<le> ev_attempts e) \<and>
     (ev_delivered e \<noteq> None \<longrightarrow> ev_state e = Delivered)"

definition lifecycle_ok :: "db \<Rightarrow> bool" where
  "lifecycle_ok d \<longleftrightarrow> (\<forall>e \<in> set (events d). lifecycle_row e)"

lemma lifecycle_okD: "lifecycle_ok d \<Longrightarrow> e \<in> set (events d) \<Longrightarrow> lifecycle_row e"
  by (simp add: lifecycle_ok_def)

text \<open>
  The attempts recorded for an event lie behind its counters: those of earlier generations, and in
  the current one those up to the attempt count, the running attempt excluded.
\<close>

definition attempt_behind :: "event_row \<Rightarrow> attempt_row \<Rightarrow> bool" where
  "attempt_behind e a \<longleftrightarrow> at_replay a < ev_replays e \<or>
     (at_replay a = ev_replays e \<and>
      (if ev_state e = Delivering then at_number a < ev_attempts e else at_number a \<le> ev_attempts e))"

definition history_ok :: "db \<Rightarrow> bool" where
  "history_ok d \<longleftrightarrow>
     (\<forall>e \<in> set (events d). \<forall>a \<in> set (attempts d). at_event a = ev_id e \<longrightarrow> attempt_behind e a)"

lemma history_okD:
  "history_ok d \<Longrightarrow> e \<in> set (events d) \<Longrightarrow> a \<in> set (attempts d) \<Longrightarrow> at_event a = ev_id e \<Longrightarrow> attempt_behind e a"
  by (simp add: history_ok_def)

text \<open>The whole invariant of a database state.\<close>

definition store_ok :: "db \<Rightarrow> bool" where
  "store_ok d \<longleftrightarrow> schema_ok d \<and> lifecycle_ok d \<and> history_ok d"

lemma store_ok_empty [simp]: "store_ok (empty_db t)"
  using schema_ok_empty [of t] by (simp add: store_ok_def lifecycle_ok_def history_ok_def empty_db_def)

lemma history_ok_map_events:
  assumes "history_ok d" and "\<And>e. ev_id (f e) = ev_id e"
    and "\<And>e a. e \<in> set (events d) \<Longrightarrow> attempt_behind e a \<Longrightarrow> attempt_behind (f e) a"
  shows "history_ok (d\<lparr>events := map f (events d)\<rparr>)"
  using assms by (auto simp: history_ok_def)

lemma store_ok_map_events:
  assumes "store_ok d"
    and "\<And>e. e \<in> set (events d) \<Longrightarrow> event_check (f e) \<and> lifecycle_row (f e)"
    and "\<And>e a. e \<in> set (events d) \<Longrightarrow> attempt_behind e a \<Longrightarrow> attempt_behind (f e) a"
    and "\<And>e. ev_id (f e) = ev_id e" and "\<And>e. event_key (f e) = event_key e"
    and "\<And>e. ev_sandbox (f e) = ev_sandbox e"
  shows "store_ok (d\<lparr>events := map f (events d)\<rparr>)"
  using assms schema_ok_map_events [of d f] history_ok_map_events [of d f]
  by (auto simp: store_ok_def lifecycle_ok_def)

end
