(* ===== verification/Delivery.thy ===== *)
theory Delivery
  imports Identifier Signature Relay_Schema
begin

text \<open>
  \<open>internal/delivery\<close>: the classification of HTTP responses, the bounded retry schedule, the
  in-process simulator for visitor events and the HTTP sender.
\<close>

section \<open>Policy\<close>

definition maximum_attempts :: byte where
  "maximum_attempts = 8"

definition HTTPOutcome :: "16 word \<Rightarrow> outcome" where
  "HTTPOutcome status_code =
     (if status_code \<ge> 200 \<and> status_code \<le> 299 then Outcome_Delivered
      else if status_code = 408 then Retryable_HTTP
      else if status_code = 429 then Retryable_HTTP
      else if status_code \<ge> 500 \<and> status_code \<le> 599 then Retryable_HTTP
      else Terminal_HTTP)"

definition CanRetry :: "byte \<Rightarrow> bool" where
  "CanRetry attempt_count \<longleftrightarrow> attempt_count < maximum_attempts"

lemma CanRetry_iff: "CanRetry n \<longleftrightarrow> uint n < 8"
  by (simp add: CanRetry_def maximum_attempts_def word_less_def)

section \<open>Claims and attempts\<close>

record claimed_event =
  ce_sandbox :: bool
  ce_id :: string
  ce_claim :: string
  ce_body :: bytes
  ce_dest :: string
  ce_replay :: byte
  ce_attempt :: byte
  ce_created :: time

record attempt =
  an_id :: string
  an_started :: time
  an_finished :: time
  an_outcome :: outcome
  an_status :: "16 word option"
  an_excerpt :: bytes
  an_error :: "string option"
  an_next :: time

section \<open>Retry schedule\<close>

text \<open>Go's integer division truncates towards zero; \<open>int64\<close> products wrap around.\<close>

definition go_div :: "int \<Rightarrow> int \<Rightarrow> int" where
  "go_div a b = sgn a * sgn b * (\<bar>a\<bar> div \<bar>b\<bar>)"

definition wrap64 :: "int \<Rightarrow> int" where
  "wrap64 x = (x + 2 ^ 63) mod 2 ^ 64 - 2 ^ 63"

lemma wrap64_id: "- (2 ^ 63) \<le> x \<Longrightarrow> x < 2 ^ 63 \<Longrightarrow> wrap64 x = x"
  by (simp add: wrap64_def)

definition retry_delays :: "duration list" where
  "retry_delays = [0, 5 * second, 30 * second, 2 * minute,
     10 * minute, 30 * minute, 2 * hour, 6 * hour]"

definition big_endian16 :: "bytes \<Rightarrow> int" where
  "big_endian16 bs = 256 * uint (bs ! 0) + uint (bs ! 1)"

definition delay_index :: "claimed_event \<Rightarrow> nat" where
  "delay_index claimed =
     (let index = unat (ce_attempt claimed)
      in if index \<ge> length retry_delays then length retry_delays - 1 else index)"

definition jitter_per_mille :: "claimed_event \<Rightarrow> int" where
  "jitter_per_mille claimed =
     (let digest = sha256 (bytes_of (ce_id claimed @ '':'' @ format_nat (delay_index claimed)))
      in big_endian16 (take 2 digest) mod 401 - 200)"

definition next_attempt_at :: "claimed_event \<Rightarrow> time \<Rightarrow> outcome \<Rightarrow> time" where
  "next_attempt_at claimed now oc =
     (if oc = Outcome_Delivered \<or> oc = Terminal_HTTP then now
      else
        let delay = retry_delays ! delay_index claimed;
            per_mille = jitter_per_mille claimed;
            offset = go_div (wrap64 (delay * per_mille)) 1000
        in now + (delay + offset))"

section \<open>Simulated deliveries\<close>

definition sandbox_excerpt :: bytes where
  "sandbox_excerpt = bytes_of ''Simulated receiver response; no network request.''"

definition sandbox_status :: "claimed_event \<Rightarrow> 16 word" where
  "sandbox_status claimed =
     (if ce_dest claimed = ''relay-simulator://success'' then 204
      else if ce_dest claimed = ''relay-simulator://temporary_failure''
        then (if ce_attempt claimed < 3 then 503 else 204)
      else if ce_dest claimed = ''relay-simulator://permanent_failure'' then 422
      else 422)"

definition sandbox_attempt :: "claimed_event \<Rightarrow> time \<Rightarrow> attempt" where
  "sandbox_attempt claimed now =
     (let status = sandbox_status claimed; oc = HTTPOutcome status
      in \<lparr> an_id = ce_claim claimed, an_started = now, an_finished = now, an_outcome = oc,
           an_status = Some status, an_excerpt = sandbox_excerpt, an_error = None,
           an_next = next_attempt_at claimed now oc \<rparr>)"

section \<open>The HTTP sender\<close>

definition maximum_response_bytes :: nat where
  "maximum_response_bytes = 4096"

record http_request =
  rq_url :: string
  rq_body :: bytes
  rq_headers :: "(string \<times> string) list"

text \<open>
  A response is its status code and its body stream: the bytes that arrive, and whether reading
  then fails instead of reaching the end.
\<close>

record http_response =
  rs_status :: int
  rs_body :: bytes
  rs_broken :: bool

record http_sender =
  sn_secret :: bytes
  sn_allow_insecure :: bool

text \<open>
  What one call of \<open>Send\<close> meets: the successive readings of the clock and of the random source,
  the URL scheme that \<open>http.NewRequestWithContext\<close> parses from a destination (\<open>None\<close> where it
  refuses it), and the network as \<open>client.Do\<close> shows it (\<open>None\<close> for a transport error).
\<close>

record send_env =
  sv_now :: "nat \<Rightarrow> time"
  sv_random :: "nat \<Rightarrow> bytes option"
  sv_scheme :: "string \<Rightarrow> string option"
  sv_do :: "http_request \<Rightarrow> http_response option"

definition NewHTTPSender :: "bytes \<Rightarrow> bool \<Rightarrow> http_sender option" where
  "NewHTTPSender secret allow_insecure_http =
     (if length secret < 16 then None
      else Some \<lparr> sn_secret = secret, sn_allow_insecure = allow_insecure_http \<rparr>)"

text \<open>\<open>io.ReadAll(io.LimitReader(body, n))\<close>.\<close>

definition read_limited :: "nat \<Rightarrow> bytes \<Rightarrow> bool \<Rightarrow> bytes option" where
  "read_limited n data broken =
     (if n \<le> length data then Some (take n data) else if broken then None else Some data)"

definition network_attempt :: "bytes option \<Rightarrow> string \<Rightarrow> time \<Rightarrow> time \<Rightarrow> claimed_event \<Rightarrow> attempt" where
  "network_attempt random code started_at finished_at claimed =
     \<lparr> an_id = (case NewUUID random of None \<Rightarrow> ce_claim claimed | Some attempt_id \<Rightarrow> attempt_id),
       an_started = started_at, an_finished = finished_at, an_outcome = Network_Error,
       an_status = None, an_excerpt = [], an_error = Some code,
       an_next = next_attempt_at claimed finished_at Network_Error \<rparr>"

definition delivery_request :: "http_sender \<Rightarrow> claimed_event \<Rightarrow> time \<Rightarrow> http_request" where
  "delivery_request sender claimed started_at =
     (let timestamp = format_int (unix started_at)
      in \<lparr> rq_url = ce_dest claimed, rq_body = ce_body claimed,
           rq_headers =
             [(''Content-Type'', ''application/json''),
              (''User-Agent'', ''Relay/1''),
              (''X-Relay-Event-Id'', ce_id claimed),
              (''X-Relay-Attempt'', format_nat (unat (ce_attempt claimed))),
              (''X-Relay-Timestamp'', timestamp),
              (''X-Relay-Signature'', Create (sn_secret sender) timestamp (ce_body claimed))] \<rparr>)"

text \<open>The attempt to record, and the requests handed to the network.\<close>

definition Send :: "http_sender \<Rightarrow> send_env \<Rightarrow> claimed_event \<Rightarrow> attempt \<times> http_request list" where
  "Send sender env claimed =
     (if ce_sandbox claimed then (sandbox_attempt claimed (sv_now env 0), [])
      else
        let started_at = sv_now env 0;
            failed = (\<lambda>code. network_attempt (sv_random env 1) code started_at (sv_now env 1) claimed)
        in case NewUUID (sv_random env 0) of
             None \<Rightarrow> (failed ''identifier_unavailable'', [])
           | Some attempt_id \<Rightarrow>
               (case sv_scheme env (ce_dest claimed) of
                  None \<Rightarrow> (failed ''invalid_destination'', [])
                | Some scheme \<Rightarrow>
                    if scheme \<noteq> ''https'' \<and> \<not> sn_allow_insecure sender
                    then (failed ''insecure_destination'', [])
                    else
                      let request = delivery_request sender claimed started_at
                      in case sv_do env request of
                           None \<Rightarrow> (failed ''request_failed'', [request])
                         | Some response \<Rightarrow>
                             (case read_limited maximum_response_bytes (rs_body response) (rs_broken response) of
                                None \<Rightarrow> (failed ''response_read_failed'', [request])
                              | Some excerpt \<Rightarrow>
                                  let status_code = word_of_int (rs_status response);
                                      oc = HTTPOutcome status_code
                                  in (\<lparr> an_id = attempt_id, an_started = started_at,
                                        an_finished = sv_now env 1, an_outcome = oc,
                                        an_status = Some status_code, an_excerpt = excerpt,
                                        an_error = None,
                                        an_next = next_attempt_at claimed (sv_now env 2) oc \<rparr>,
                                      [request]))))"

section \<open>Properties of the schedule\<close>

lemma retry_delays_bounds: "d \<in> set retry_delays \<Longrightarrow> 0 \<le> d \<and> d \<le> 6 * hour"
  by (auto simp: retry_delays_def duration_defs)

lemma delay_index_less: "delay_index claimed < length retry_delays"
  by (simp add: delay_index_def Let_def retry_delays_def)

lemma delay_bounds: "0 \<le> retry_delays ! delay_index claimed \<and> retry_delays ! delay_index claimed \<le> 6 * hour"
  using retry_delays_bounds nth_mem [OF delay_index_less] by blast

lemma jitter_bounds: "- 200 \<le> jitter_per_mille claimed \<and> jitter_per_mille claimed \<le> 200"
proof -
  have "0 \<le> x mod 401 \<and> x mod 401 \<le> 400" for x :: int
    using pos_mod_bound [of 401 x] by simp
  then show ?thesis by (simp add: jitter_per_mille_def Let_def)
qed

lemma jitter_product_bounds:
  assumes "0 \<le> (d::int)" and "- 200 \<le> j" and "j \<le> (200::int)"
  shows "- (200 * d) \<le> d * j \<and> d * j \<le> 200 * d"
proof -
  have "d * j \<le> d * 200" and "d * (- 200) \<le> d * j"
    using assms by (simp_all only: mult_left_mono)
  then show ?thesis by simp
qed

lemma go_div_bounds:
  assumes "- b \<le> a" and "a \<le> b"
  shows "- b \<le> 1000 * go_div a 1000 \<and> 1000 * go_div a 1000 \<le> b"
proof (cases "0 \<le> a")
  case True
  then have "go_div a 1000 = a div 1000" by (cases "a = 0") (simp_all add: go_div_def)
  moreover have "0 \<le> a div 1000" "1000 * (a div 1000) \<le> a"
    using True by (simp_all add: pos_imp_zdiv_nonneg_iff)
  ultimately show ?thesis using assms by linarith
next
  case False
  then have "go_div a 1000 = - (- a div 1000)" by (simp add: go_div_def)
  moreover have "0 \<le> - a div 1000" "1000 * (- a div 1000) \<le> - a"
    using False by (simp_all add: pos_imp_zdiv_nonneg_iff)
  ultimately show ?thesis using assms by linarith
qed

lemma jitter_product_fits:
  "wrap64 (retry_delays ! delay_index claimed * jitter_per_mille claimed) = retry_delays ! delay_index claimed * jitter_per_mille claimed"
  "\<bar>retry_delays ! delay_index claimed * jitter_per_mille claimed\<bar> < 2 ^ 63"
proof -
  let ?d = "retry_delays ! delay_index claimed"
  have "0 \<le> ?d" "?d \<le> 6 * hour" using delay_bounds by auto
  moreover have "- (200 * ?d) \<le> ?d * jitter_per_mille claimed" "?d * jitter_per_mille claimed \<le> 200 * ?d"
    using jitter_product_bounds calculation(1) jitter_bounds by auto
  ultimately have "- (200 * (6 * hour)) \<le> ?d * jitter_per_mille claimed" "?d * jitter_per_mille claimed \<le> 200 * (6 * hour)"
    by linarith+
  then show "wrap64 (?d * jitter_per_mille claimed) = ?d * jitter_per_mille claimed" "\<bar>?d * jitter_per_mille claimed\<bar> < 2 ^ 63"
    by (auto intro!: wrap64_id simp: duration_defs)
qed

lemma jitter_offset_bounds:
  fixes claimed
  defines "d \<equiv> retry_delays ! delay_index claimed"
  defines "offset \<equiv> go_div (wrap64 (d * jitter_per_mille claimed)) 1000"
  shows "- (200 * d) \<le> 1000 * offset \<and> 1000 * offset \<le> 200 * d"
proof -
  have "0 \<le> d" unfolding d_def using delay_bounds by auto
  then have "- (200 * d) \<le> d * jitter_per_mille claimed" "d * jitter_per_mille claimed \<le> 200 * d"
    using jitter_product_bounds jitter_bounds by auto
  then show ?thesis unfolding offset_def d_def jitter_product_fits(1) by (metis go_div_bounds)
qed

text \<open>The delays that the delivery contract lists before attempts 2 to 8.\<close>

definition contract_delay :: "nat \<Rightarrow> duration" where
  "contract_delay completed =
     [5 * second, 30 * second, 2 * minute, 10 * minute, 30 * minute, 2 * hour, 6 * hour] ! (completed - 1)"

lemma upto_seven: "n \<in> {1..7} \<Longrightarrow> n = 1 \<or> n = 2 \<or> n = 3 \<or> n = 4 \<or> n = 5 \<or> n = 6 \<or> n = (7::nat)"
  by auto

lemma contract_delay_ge: "n \<in> {1..7} \<Longrightarrow> 5 * second \<le> contract_delay n"
  by (drule upto_seven) (elim disjE; simp add: contract_delay_def duration_defs)

lemma delay_contract:
  assumes "unat (ce_attempt claimed) \<in> {1..7}"
  shows "retry_delays ! delay_index claimed = contract_delay (unat (ce_attempt claimed))"
proof -
  have "delay_index claimed = Suc (unat (ce_attempt claimed) - 1)"
    using assms by (auto simp: delay_index_def Let_def retry_delays_def)
  then show ?thesis by (simp add: retry_delays_def contract_delay_def)
qed

text \<open>
  C22: after a recoverable outcome of attempt 1 to 7 the next attempt is due within 20 percent of the
  delay that the contract lists for it, at least four seconds later; the product behind the jitter
  fits into 64 bits, so that the code's arithmetic is that of the integers.
\<close>

theorem next_attempt_at_bounds:
  assumes "oc = Retryable_HTTP \<or> oc = Network_Error" and "unat (ce_attempt claimed) \<in> {1..7}"
  shows "let d = contract_delay (unat (ce_attempt claimed)); p = d * jitter_per_mille claimed;
             w = next_attempt_at claimed now oc - now
         in wrap64 p = p \<and> \<bar>p\<bar> < 2 ^ 63 \<and> w = d + go_div p 1000 \<and>
            80 * d \<le> 100 * w \<and> 100 * w \<le> 120 * d \<and> 4 * second \<le> w"
proof -
  let ?d = "contract_delay (unat (ce_attempt claimed))"
  let ?p = "?d * jitter_per_mille claimed"
  have p: "wrap64 ?p = ?p" "\<bar>?p\<bar> < 2 ^ 63"
    using jitter_product_fits [of claimed] by (simp_all add: delay_contract [OF assms(2)])
  then have w: "next_attempt_at claimed now oc - now = ?d + go_div ?p 1000"
    using assms by (auto simp: next_attempt_at_def Let_def delay_contract)
  have "- (200 * ?d) \<le> 1000 * go_div ?p 1000" "1000 * go_div ?p 1000 \<le> 200 * ?d"
    using jitter_offset_bounds [of claimed] by (simp_all add: delay_contract [OF assms(2)] p(1))
  moreover have "5 * second \<le> ?d" using assms(2) by (rule contract_delay_ge)
  ultimately show ?thesis using p w by (simp add: Let_def)
qed

theorem next_attempt_at_bounds_witness:
  "let w = next_attempt_at \<lparr> ce_sandbox = False, ce_id = ''e'', ce_claim = ''c'', ce_body = [],
      ce_dest = [], ce_replay = 0, ce_attempt = 1, ce_created = 0 \<rparr> 100 Network_Error - 100
   in 4 * second \<le> w \<and> w \<le> 6 * second"
  using next_attempt_at_bounds [where now = 100 and oc = Network_Error and
      claimed = "\<lparr> ce_sandbox = False, ce_id = ''e'', ce_claim = ''c'', ce_body = [],
        ce_dest = [], ce_replay = 0, ce_attempt = 1, ce_created = 0 \<rparr>"]
  by (simp add: Let_def contract_delay_def)

lemma next_attempt_at_ge: "now \<le> next_attempt_at claimed now oc"
proof -
  let ?d = "retry_delays ! delay_index claimed"
  let ?o = "go_div (wrap64 (?d * jitter_per_mille claimed)) 1000"
  have "- (200 * ?d) \<le> 1000 * ?o" "0 \<le> ?d"
    using jitter_offset_bounds [of claimed] delay_bounds [of claimed] by simp_all
  then have "0 \<le> ?d + ?o" by simp
  then show ?thesis by (simp add: next_attempt_at_def Let_def)
qed

section \<open>Properties of the sender\<close>

text \<open>
  A visitor event is never delivered over the network.  Whatever its destination, clock and
  randomness, no request is made, and the recorded result is the scenario's: delivered for
  success, two retryable failures and then delivery for a temporary failure, and a terminal
  failure for anything else.
\<close>

theorem Send_sandbox_isolated:
  assumes "ce_sandbox claimed"
  shows "snd (Send sender env claimed) = [] \<and>
    an_outcome (fst (Send sender env claimed)) =
      (if ce_dest claimed = ''relay-simulator://success'' then Outcome_Delivered
       else if ce_dest claimed = ''relay-simulator://temporary_failure''
         then (if uint (ce_attempt claimed) < 3 then Retryable_HTTP else Outcome_Delivered)
       else Terminal_HTTP)"
  using assms
  by (auto simp: Send_def sandbox_attempt_def sandbox_status_def HTTPOutcome_def Let_def word_less_def)

definition idle_env :: send_env where
  "idle_env = \<lparr> sv_now = (\<lambda>_. 0), sv_random = (\<lambda>_. None), sv_scheme = (\<lambda>_. None), sv_do = (\<lambda>_. None) \<rparr>"

theorem Send_sandbox_isolated_witness:
  "snd (Send \<lparr> sn_secret = [], sn_allow_insecure = True \<rparr> idle_env
     \<lparr> ce_sandbox = True, ce_id = ''e'', ce_claim = ''c'', ce_body = [],
       ce_dest = ''http://169.254.169.254/'', ce_replay = 0, ce_attempt = 1, ce_created = 0 \<rparr>) = []"
  using Send_sandbox_isolated [of "\<lparr> ce_sandbox = True, ce_id = ''e'', ce_claim = ''c'', ce_body = [],
       ce_dest = ''http://169.254.169.254/'', ce_replay = 0, ce_attempt = 1, ce_created = 0 \<rparr>"
     "\<lparr> sn_secret = [], sn_allow_insecure = True \<rparr>" idle_env]
  by simp

definition header :: "string \<Rightarrow> http_request \<Rightarrow> string option" where
  "header name request = map_of (rq_headers request) name"

text \<open>
  C23: an operator event is sent at most once per attempt, to the destination stored with it and
  with its stored body, only over HTTPS unless insecure transport was switched on, and with a
  timestamp and a signature that the receiver's check accepts under the delivery secret.
\<close>

theorem Send_request_signed:
  assumes "request \<in> set (snd (Send sender env claimed))"
  shows "snd (Send sender env claimed) = [request] \<and> \<not> ce_sandbox claimed \<and>
    rq_url request = ce_dest claimed \<and> rq_body request = ce_body claimed \<and>
    (sv_scheme env (ce_dest claimed) = Some ''https'' \<or> sn_allow_insecure sender) \<and>
    (\<exists>timestamp signature. header ''X-Relay-Timestamp'' request = Some timestamp \<and>
       header ''X-Relay-Signature'' request = Some signature \<and>
       timestamp = format_int (unix (sv_now env 0)) \<and>
       Valid (sn_secret sender) timestamp (rq_body request) signature = Some True)"
proof -
  have sent: "\<not> ce_sandbox claimed" "snd (Send sender env claimed) = [request]"
    "request = delivery_request sender claimed (sv_now env 0)"
    "sv_scheme env (ce_dest claimed) = Some ''https'' \<or> sn_allow_insecure sender"
    using assms by (auto simp: Send_def Let_def split: if_splits option.splits)
  moreover have "Valid (sn_secret sender) timestamp body (Create (sn_secret sender) timestamp body) = Some True"
    for timestamp body
    unfolding Create_def Valid_prefixed by simp
  ultimately show ?thesis
    by (simp add: delivery_request_def Let_def header_def)
qed

definition sample_sender :: http_sender where
  "sample_sender = \<lparr> sn_secret = replicate 16 7, sn_allow_insecure = False \<rparr>"

definition sample_env :: send_env where
  "sample_env = \<lparr> sv_now = (\<lambda>_. from_unix 17), sv_random = (\<lambda>_. Some (replicate 16 0)),
     sv_scheme = (\<lambda>_. Some ''https''), sv_do = (\<lambda>_. None) \<rparr>"

definition sample_claim :: claimed_event where
  "sample_claim = \<lparr> ce_sandbox = False, ce_id = ''e'', ce_claim = ''c'', ce_body = [1, 2, 3],
     ce_dest = ''https://receiver.example/'', ce_replay = 0, ce_attempt = 1, ce_created = 0 \<rparr>"

theorem Send_request_signed_witness:
  "\<exists>request timestamp signature.
     snd (Send sample_sender sample_env sample_claim) = [request] \<and>
     rq_body request = [1, 2, 3] \<and> header ''X-Relay-Signature'' request = Some signature \<and>
     Valid (replicate 16 7) timestamp [1, 2, 3] signature = Some True"
proof -
  have "snd (Send sample_sender sample_env sample_claim)
      = [delivery_request sample_sender sample_claim (from_unix 17)]"
    by (simp add: Send_def sample_sender_def sample_env_def sample_claim_def NewUUID_def Let_def)
  then have "delivery_request sample_sender sample_claim (from_unix 17)
      \<in> set (snd (Send sample_sender sample_env sample_claim))" by simp
  from Send_request_signed [OF this] show ?thesis
    by (auto simp: sample_sender_def sample_claim_def)
qed

text \<open>The shape of every attempt that the sender reports, used by the store's constraints.\<close>

lemma HTTPOutcome_not_network [simp]: "HTTPOutcome w \<noteq> Network_Error"
  by (simp add: HTTPOutcome_def)

lemma read_limited_length: "read_limited n data broken = Some excerpt \<Longrightarrow> length excerpt \<le> n"
  by (auto simp: read_limited_def split: if_splits)

lemma text_length_ascii [simp]: "\<forall>c \<in> set s. (of_char c :: nat) < 128 \<Longrightarrow> text_length s = length s"
  by (auto simp: text_length_def intro!: arg_cong [where f = length] filter_True)

definition http_shape :: "attempt \<Rightarrow> bool" where
  "http_shape a \<longleftrightarrow> (\<exists>w. an_status a = Some w \<and> an_outcome a = HTTPOutcome w) \<and> an_error a = None"

definition failure_shape :: "attempt \<Rightarrow> bool" where
  "failure_shape a \<longleftrightarrow> an_status a = None \<and> an_outcome a = Network_Error \<and>
     (\<exists>code. an_error a = Some code \<and> 1 \<le> text_length code \<and> text_length code \<le> 64)"

lemma network_attempt_shape:
  "1 \<le> text_length code \<Longrightarrow> text_length code \<le> 64 \<Longrightarrow> failure_shape (network_attempt r code s f c)"
  by (simp add: failure_shape_def network_attempt_def)

lemma Send_shape: "http_shape (fst (Send sender env claimed)) \<or> failure_shape (fst (Send sender env claimed))"
proof -
  have codes: "1 \<le> text_length code \<and> text_length code \<le> 64"
    if "code \<in> {''identifier_unavailable'', ''invalid_destination'', ''insecure_destination'',
      ''request_failed'', ''response_read_failed''}" for code
    using that by (auto simp: text_length_def)
  show ?thesis
    by (auto simp: Send_def Let_def sandbox_attempt_def http_shape_def network_attempt_shape codes
        split: option.splits)
qed

lemma Send_excerpt: "length (an_excerpt (fst (Send sender env claimed))) \<le> 4096"
proof -
  have "length sandbox_excerpt \<le> 4096" by (simp add: sandbox_excerpt_def)
  then show ?thesis
    by (auto simp: Send_def Let_def sandbox_attempt_def network_attempt_def maximum_response_bytes_def
        split: option.splits dest: read_limited_length)
qed

lemma Send_next: "an_outcome a \<in> {Retryable_HTTP, Network_Error} \<Longrightarrow> a = fst (Send sender env claimed) \<Longrightarrow>
    sv_now env 1 \<le> sv_now env 2 \<Longrightarrow> an_finished a \<le> an_next a"
  by (auto simp: Send_def Let_def sandbox_attempt_def network_attempt_def next_attempt_at_ge
      split: option.splits if_splits intro: order_trans [OF _ next_attempt_at_ge])

end
