(* ===== verification/Worker.thy ===== *)
theory Worker
  imports Delivery
begin

text \<open>
  The delivery worker of \<open>internal/delivery/worker.go\<close> over the two interfaces it is written
  against, \<open>QueueStore\<close> and \<open>Sender\<close>.  \<open>RunOnce\<close> takes their methods as arguments; the locale
  \<open>queue_store\<close> states what the worker relies on, and its lemmas hold for every store that
  keeps that contract.  The PostgreSQL store interprets it in \<open>Pg_Queue\<close>.
\<close>

datatype 'e worker_error = Claim_Error 'e | Record_Error 'e | Nil_Attempt_Panic

record worker =
  wk_lease :: duration

text \<open>\<open>None\<close> where the constructor panics.\<close>

definition NewWorker :: "bool \<Rightarrow> bool \<Rightarrow> duration \<Rightarrow> worker option" where
  "NewWorker store_present sender_present lease_length =
     (if \<not> store_present then None
      else if \<not> sender_present then None
      else if lease_length \<le> 0 then None
      else Some \<lparr> wk_lease = lease_length \<rparr>)"

definition RunOnce ::
  "(time \<Rightarrow> duration \<Rightarrow> 's \<Rightarrow> ('e + claimed_event option) \<times> 's) \<Rightarrow>
   (claimed_event \<Rightarrow> attempt option \<times> http_request list) \<Rightarrow>
   (claimed_event \<Rightarrow> attempt \<Rightarrow> 's \<Rightarrow> ('e + unit) \<times> 's) \<Rightarrow>
   worker \<Rightarrow> time \<Rightarrow> 's \<Rightarrow> ('e worker_error + bool) \<times> 's \<times> http_request list" where
  "RunOnce Claim send Record worker now s =
     (case Claim now (wk_lease worker) s of
        (Inl e, s1) \<Rightarrow> (Inl (Claim_Error e), s1, [])
      | (Inr None, s1) \<Rightarrow> (Inr False, s1, [])
      | (Inr (Some claimed), s1) \<Rightarrow>
          (case send claimed of
             (None, requests) \<Rightarrow> (Inl Nil_Attempt_Panic, s1, requests)
           | (Some attempt, requests) \<Rightarrow>
               (case Record claimed attempt s1 of
                  (Inl e, s2) \<Rightarrow> (Inl (Record_Error e), s2, requests)
                | (Inr _, s2) \<Rightarrow> (Inr True, s2, requests))))"

lemma RunOnce_cases:
  assumes run: "RunOnce Claim send Record worker now s = (r, s', requests)"
  obtains
    (claim_failed) e where "Claim now (wk_lease worker) s = (Inl e, s')"
      and "r = Inl (Claim_Error e)" and "requests = []"
  | (idle) "Claim now (wk_lease worker) s = (Inr None, s')" and "r = Inr False" and "requests = []"
  | (no_attempt) claimed where "Claim now (wk_lease worker) s = (Inr (Some claimed), s')"
      and "send claimed = (None, requests)" and "r = Inl Nil_Attempt_Panic"
  | (record_failed) claimed att s1 e where "Claim now (wk_lease worker) s = (Inr (Some claimed), s1)"
      and "send claimed = (Some att, requests)" and "Record claimed att s1 = (Inl e, s')"
      and "r = Inl (Record_Error e)"
  | (recorded) claimed att s1 where "Claim now (wk_lease worker) s = (Inr (Some claimed), s1)"
      and "send claimed = (Some att, requests)" and "Record claimed att s1 = (Inr (), s')"
      and "r = Inr True"
proof -
  obtain r1 s1 where c: "Claim now (wk_lease worker) s = (r1, s1)" by fastforce
  consider e where "r1 = Inl e" | "r1 = Inr None" | claimed where "r1 = Inr (Some claimed)"
    by (metis not_None_eq sum.exhaust)
  then show ?thesis
  proof cases
    case 1
    with run c show ?thesis by (auto simp: RunOnce_def intro: claim_failed)
  next
    case 2
    with run c show ?thesis by (auto simp: RunOnce_def intro: idle)
  next
    case (3 claimed)
    obtain oa rq where a: "send claimed = (oa, rq)" by fastforce
    show ?thesis
    proof (cases oa)
      case None
      with run c 3 a show ?thesis by (auto simp: RunOnce_def intro: no_attempt)
    next
      case (Some att)
      obtain r2 s2 where r2: "Record claimed att s1 = (r2, s2)" by fastforce
      show ?thesis
      proof (cases r2)
        case (Inl e)
        with run c 3 a Some r2 have "s' = s2" "requests = rq" "r = Inl (Record_Error e)"
          by (simp_all add: RunOnce_def)
        with c 3 a Some r2 Inl show ?thesis by (intro record_failed) simp_all
      next
        case (Inr u)
        with run c 3 a Some r2 have "s' = s2" "requests = rq" "r = Inr True"
          by (simp_all add: RunOnce_def)
        with c 3 a Some r2 Inr show ?thesis by (intro recorded) simp_all
      qed
    qed
  qed
qed

locale queue_store =
  fixes Claim :: "time \<Rightarrow> duration \<Rightarrow> 's \<Rightarrow> ('e + claimed_event option) \<times> 's"
    and Record :: "claimed_event \<Rightarrow> attempt \<Rightarrow> 's \<Rightarrow> ('e + unit) \<times> 's"
    and inv :: "'s \<Rightarrow> bool"
    and leased :: "'s \<Rightarrow> claimed_event \<Rightarrow> bool"
    and history :: "'s \<Rightarrow> string \<Rightarrow> 'h list"
    and entry :: "claimed_event \<Rightarrow> attempt \<Rightarrow> 'h"
  assumes claim_inv: "inv s \<Longrightarrow> Claim now lease s = (r, s') \<Longrightarrow> inv s'"
    and claim_history: "inv s \<Longrightarrow> Claim now lease s = (r, s') \<Longrightarrow> history s' = history s"
    and claim_leased: "inv s \<Longrightarrow> Claim now lease s = (Inr (Some claimed), s') \<Longrightarrow> leased s' claimed"
    and record_inv: "inv s \<Longrightarrow> Record claimed att s = (res, s') \<Longrightarrow> inv s'"
    and record_effect: "inv s \<Longrightarrow> Record claimed att s = (res, s') \<Longrightarrow> s' \<noteq> s \<or> res = Inr () \<Longrightarrow>
      leased s claimed \<and> \<not> leased s' claimed \<and>
      history s' = (history s)(ce_id claimed := history s (ce_id claimed) @ [entry claimed att])"
begin

lemma run_once_inv:
  assumes "inv s" and "RunOnce Claim send Record worker now s = (r, s', requests)"
  shows "inv s'"
  using assms(2) by (cases rule: RunOnce_cases) (blast intro: assms(1) claim_inv record_inv)+

lemma run_once_idle:
  assumes "inv s" and "RunOnce Claim send Record worker now s = (Inr False, s', requests)"
  shows "requests = [] \<and> history s' = history s"
  using assms(2) by (cases rule: RunOnce_cases) (auto dest: claim_history [OF assms(1)])

text \<open>Each entry of the history is one claim's attempt, appended to the history of its event.\<close>

lemma recorded_entry:
  assumes "inv s" and "Claim now l s = (Inr (Some claimed), s1)"
    and "Record claimed att s1 = (res, s')" and "s' \<noteq> s1 \<or> res = Inr ()"
  shows "\<not> leased s' claimed \<and>
    history s' = (history s)(ce_id claimed := history s (ce_id claimed) @ [entry claimed att])"
  using record_effect [OF claim_inv [OF assms(1,2)] assms(3,4)] claim_history [OF assms(1,2)] by simp

lemma run_once_recorded:
  assumes "inv s" and "RunOnce Claim send Record worker now s = (Inr True, s', requests)"
  shows "\<exists>claimed att. send claimed = (Some att, requests) \<and> \<not> leased s' claimed \<and>
    history s' = (history s)(ce_id claimed := history s (ce_id claimed) @ [entry claimed att])"
  using assms(2)
proof (cases rule: RunOnce_cases)
  case (recorded claimed att s1)
  with recorded_entry [OF assms(1) recorded(1,3)] show ?thesis by blast
qed auto

text \<open>Whatever goes wrong, one run makes the requests of at most one claim and records at most once.\<close>

lemma run_once_bounded:
  assumes "inv s" and "RunOnce Claim send Record worker now s = (r, s', requests)"
  shows "(requests = [] \<and> history s' = history s) \<or>
    (\<exists>claimed oa. send claimed = (oa, requests) \<and>
       (history s' = history s \<or>
        (\<exists>att. oa = Some att \<and> history s' =
           (history s)(ce_id claimed := history s (ce_id claimed) @ [entry claimed att]))))"
  using assms(2)
proof (cases rule: RunOnce_cases)
  case (record_failed claimed att s1 e)
  show ?thesis
  proof (cases "s' = s1")
    case True
    with record_failed claim_history [OF assms(1) record_failed(1)] show ?thesis by blast
  next
    case False
    with record_failed recorded_entry [OF assms(1) record_failed(1,3)] show ?thesis by blast
  qed
next
  case (recorded claimed att s1)
  with recorded_entry [OF assms(1) recorded(1,3)] show ?thesis by blast
next
  case (no_attempt claimed)
  with claim_history [OF assms(1) no_attempt(1)] show ?thesis by blast
qed (auto dest: claim_history [OF assms(1)])

end

end
