(* ===== verification/Pg_Queue.thy ===== *)
theory Pg_Queue
  imports Worker "HOL-Library.Product_Lexorder"
begin

text \<open>
  The delivery queue of \<open>internal/postgres/queue.go\<close>: \<open>Claim\<close> retires events past the delivery
  window and leases the next due one in a single statement; \<open>Record\<close> writes the outcome of an
  attempt under compare-and-set on the claim.

  Both are atomic here.  \<open>FOR UPDATE SKIP LOCKED\<close> makes rows that a concurrent transaction holds
  invisible to the selection: they are the predicate \<open>locked\<close>.  Ties of \<open>ORDER BY\<close> follow the
  physical order of the table, which is arbitrary.
\<close>

datatype store_error =
    Identifier_Unavailable
  | Db_Failed db_error
  | No_Rows
  | Scan_Error
  | Claim_Replaced
  | Conflict_Error
  | Not_Found_Error
  | Invalid_State_Error

section \<open>Claim\<close>

definition delivery_window :: duration where
  "delivery_window = 24 * hour"

definition lease_expired :: "time \<Rightarrow> event_row \<Rightarrow> bool" where
  "lease_expired now e = (case ev_lease e of None \<Rightarrow> False | Some l \<Rightarrow> l \<le> now)"

definition waiting :: "event_row \<Rightarrow> bool" where
  "waiting e \<longleftrightarrow> ev_state e = Pending \<or> ev_state e = Retry_Scheduled"

definition expired_where :: "time \<Rightarrow> event_row \<Rightarrow> bool" where
  "expired_where now e \<longleftrightarrow> ev_created e \<le> now - delivery_window \<and>
     (waiting e \<or> (ev_state e = Delivering \<and> lease_expired now e))"

definition session_live :: "db \<Rightarrow> time \<Rightarrow> string \<Rightarrow> bool" where
  "session_live d now sid = list_ex (\<lambda>s. ss_id s = sid \<and> ss_expires s > now) (sessions d)"

definition candidate_where :: "db \<Rightarrow> time \<Rightarrow> event_row \<Rightarrow> bool" where
  "candidate_where d now e \<longleftrightarrow>
     ((waiting e \<and> ev_next e \<le> now) \<or> (ev_state e = Delivering \<and> lease_expired now e)) \<and>
     ev_created e > now - delivery_window \<and>
     (case ev_sandbox e of None \<Rightarrow> True | Some sid \<Rightarrow> session_live d now sid)"

text \<open>
  When an event may be sent, in the words of the delivery contract: it is waiting and its time has
  come, or the lease of a worker that did not report back has run out; it was received less than
  24 hours ago; and if it belongs to a visitor, the visitor's session is still alive.
\<close>

definition due_event :: "db \<Rightarrow> time \<Rightarrow> event_row \<Rightarrow> bool" where
  "due_event d now e \<longleftrightarrow>
     (ev_state e \<in> {Pending, Retry_Scheduled} \<and> ev_next e \<le> now \<or>
      ev_state e = Delivering \<and> (\<exists>l. ev_lease e = Some l \<and> l \<le> now)) \<and>
     now < ev_created e + 24 * hour \<and>
     (\<forall>sid. ev_sandbox e = Some sid \<longrightarrow> (\<exists>s \<in> set (sessions d). ss_id s = sid \<and> now < ss_expires s))"

lemma due_event_iff: "due_event d now e \<longleftrightarrow> candidate_where d now e"
  by (auto simp: due_event_def candidate_where_def waiting_def lease_expired_def delivery_window_def
      session_live_def list_ex_iff split: option.splits)

definition expired_rows :: "(string \<Rightarrow> bool) \<Rightarrow> time \<Rightarrow> db \<Rightarrow> event_row list" where
  "expired_rows locked now d =
     take 10 (sort_key ev_created (filter (\<lambda>e. expired_where now e \<and> \<not> locked (ev_id e)) (events d)))"

definition candidate :: "(string \<Rightarrow> bool) \<Rightarrow> time \<Rightarrow> db \<Rightarrow> event_row option" where
  "candidate locked now d =
     (case sort_key (\<lambda>e. (ev_next e, ev_created e))
             (filter (\<lambda>e. candidate_where d now e \<and> \<not> locked (ev_id e)) (events d)) of
        [] \<Rightarrow> None | e # _ \<Rightarrow> Some e)"

definition retire :: "event_row \<Rightarrow> event_row" where
  "retire e = e\<lparr>ev_state := Dead_Lettered, ev_lease := None, ev_claim := None\<rparr>"

definition take_lease :: "time \<Rightarrow> string \<Rightarrow> event_row \<Rightarrow> event_row" where
  "take_lease lease_until claim_id e =
     e\<lparr>ev_state := Delivering,
       ev_attempts := (if ev_state e = Delivering then ev_attempts e else ev_attempts e + 1),
       ev_lease := Some lease_until, ev_claim := Some claim_id\<rparr>"

definition claimed_of :: "string \<Rightarrow> event_row \<Rightarrow> claimed_event" where
  "claimed_of claim_id e =
     \<lparr> ce_sandbox = (ev_sandbox e \<noteq> None), ce_id = ev_id e, ce_claim = claim_id, ce_body = ev_body e,
       ce_dest = ev_dest e, ce_replay = word_of_int (ev_replays e),
       ce_attempt = word_of_int (ev_attempts e), ce_created = ev_created e \<rparr>"

definition claim_statement ::
  "(string \<Rightarrow> bool) \<Rightarrow> time \<Rightarrow> time \<Rightarrow> string \<Rightarrow> db \<Rightarrow> claimed_event option \<times> db" where
  "claim_statement locked now lease_until claim_id d =
     (let expired = map ev_id (expired_rows locked now d);
          retired = map (\<lambda>e. if ev_id e \<in> set expired then retire e else e) (events d)
      in case candidate locked now d of
           None \<Rightarrow> (None, d\<lparr>events := retired\<rparr>)
         | Some c \<Rightarrow>
             (Some (claimed_of claim_id (take_lease lease_until claim_id c)),
              d\<lparr>events := map (\<lambda>e. if ev_id e = ev_id c then take_lease lease_until claim_id e else e) retired\<rparr>))"

definition Claim ::
  "bytes option \<Rightarrow> net \<Rightarrow> (string \<Rightarrow> bool) \<Rightarrow> time \<Rightarrow> duration \<Rightarrow> db \<Rightarrow>
   (store_error + claimed_event option) \<times> db" where
  "Claim random n locked now lease d =
     (case NewUUID random of
        None \<Rightarrow> (Inl Identifier_Unavailable, d)
      | Some claim_id \<Rightarrow>
          (case autocommit n (claim_statement locked (pg_time now) (pg_time (now + lease)) claim_id) d of
             (Inl e, d') \<Rightarrow> (Inl (Db_Failed e), d')
           | (Inr claimed, d') \<Rightarrow> (Inr claimed, d')))"

section \<open>Record\<close>

definition CanRetryAt :: "byte \<Rightarrow> time \<Rightarrow> time \<Rightarrow> bool" where
  "CanRetryAt att created_at now \<longleftrightarrow> CanRetry att \<and> time_sub now created_at < 24 * hour"

definition record_state :: "claimed_event \<Rightarrow> attempt \<Rightarrow> event_state" where
  "record_state claimed att =
     (if an_outcome att = Outcome_Delivered then Delivered
      else if an_outcome att = Terminal_HTTP then Dead_Lettered
      else if \<not> CanRetryAt (ce_attempt claimed) (ce_created claimed) (an_finished att) then Dead_Lettered
      else Retry_Scheduled)"

definition attempt_row_of :: "claimed_event \<Rightarrow> attempt \<Rightarrow> attempt_row" where
  "attempt_row_of claimed att =
     \<lparr> at_id = an_id att, at_event = ce_id claimed, at_replay = uint (ce_replay claimed),
       at_number = uint (ce_attempt claimed), at_started = pg_time (an_started att),
       at_finished = pg_time (an_finished att), at_outcome = an_outcome att,
       at_status = map_option uint (an_status att), at_excerpt = an_excerpt att,
       at_error = an_error att \<rparr>"

definition holds_claim :: "claimed_event \<Rightarrow> event_row \<Rightarrow> bool" where
  "holds_claim claimed e \<longleftrightarrow>
     ev_id e = ce_id claimed \<and> ev_state e = Delivering \<and> ev_claim e = Some (ce_claim claimed)"

definition finish_event :: "claimed_event \<Rightarrow> attempt \<Rightarrow> event_row \<Rightarrow> event_row" where
  "finish_event claimed att e =
     e\<lparr>ev_state := record_state claimed att, ev_next := pg_time (an_next att),
       ev_lease := None, ev_claim := None,
       ev_delivered := (if record_state claimed att = Delivered
                        then Some (pg_time (an_finished att)) else ev_delivered e)\<rparr>"

definition complete_statement :: "claimed_event \<Rightarrow> attempt \<Rightarrow> db \<Rightarrow> nat \<times> db" where
  "complete_statement claimed att d =
     (let (n, rows) = update_rows (holds_claim claimed) (finish_event claimed att) (events d)
      in (n, d\<lparr>events := rows\<rparr>))"

definition insert_attempt :: "claimed_event \<Rightarrow> attempt \<Rightarrow> db \<Rightarrow> unit \<times> db" where
  "insert_attempt claimed att d = ((), d\<lparr>attempts := attempts d @ [attempt_row_of claimed att]\<rparr>)"

text \<open>
  The four database calls of \<open>Record\<close> are begin, update, insert and commit; \<open>nets k\<close> says how
  the \<open>k\<close>-th of them ends.  Every early return rolls the transaction back.
\<close>

definition Record ::
  "(nat \<Rightarrow> net) \<Rightarrow> claimed_event \<Rightarrow> attempt \<Rightarrow> db \<Rightarrow> (store_error + unit) \<times> db" where
  "Record nets claimed att d =
     (if nets 0 \<noteq> Done then (Inl (Db_Failed Unavailable), d)
      else case statement (nets 1) (complete_statement claimed att) d of
        Inl e \<Rightarrow> (Inl (Db_Failed e), d)
      | Inr (affected, d1) \<Rightarrow>
          if affected \<noteq> 1 then (Inl Claim_Replaced, d)
          else
            (case statement (nets 2) (insert_attempt claimed att) d1 of
               Inl e \<Rightarrow> (Inl (Db_Failed e), d)
             | Inr (_, d2) \<Rightarrow>
                 (case commit (nets 3) d d2 of
                    (Inl e, d3) \<Rightarrow> (Inl (Db_Failed e), d3)
                  | (Inr _, d3) \<Rightarrow> (Inr (), d3))))"

section \<open>What a claim selects\<close>

lemma expired_rowsD:
  "e \<in> set (expired_rows locked now d) \<Longrightarrow>
     e \<in> set (events d) \<and> expired_where now e \<and> \<not> locked (ev_id e)"
  unfolding expired_rows_def by (auto dest: in_set_takeD)

lemma length_expired_rows: "length (expired_rows locked now d) \<le> 10"
  by (simp add: expired_rows_def)

lemma candidate_SomeD:
  assumes "candidate locked now d = Some c"
  shows "c \<in> set (events d)" and "candidate_where d now c" and "\<not> locked (ev_id c)"
    and "\<And>e. e \<in> set (events d) \<Longrightarrow> candidate_where d now e \<Longrightarrow> \<not> locked (ev_id e) \<Longrightarrow>
           (ev_next c, ev_created c) \<le> (ev_next e, ev_created e)"
proof -
  let ?k = "\<lambda>e. (ev_next e, ev_created e)"
  let ?due = "filter (\<lambda>e. candidate_where d now e \<and> \<not> locked (ev_id e)) (events d)"
  obtain rest where sorted: "sort_key ?k ?due = c # rest"
    using assms by (auto simp: candidate_def split: list.splits)
  then have mem: "set ?due = insert c (set rest)"
    by (metis list.simps(15) set_sort)
  then show "c \<in> set (events d)" "candidate_where d now c" "\<not> locked (ev_id c)"
    by auto
  have "sorted (map ?k (c # rest))" by (metis sorted sorted_sort_key)
  then have "\<forall>e \<in> insert c (set rest). ?k c \<le> ?k e" by simp
  then have "\<forall>e \<in> set ?due. ?k c \<le> ?k e" by (simp only: mem)
  then show "?k c \<le> ?k e" if "e \<in> set (events d)" "candidate_where d now e" "\<not> locked (ev_id e)" for e
    using that by simp
qed

lemma candidate_None_iff:
  "candidate locked now d = None \<longleftrightarrow>
     (\<forall>e \<in> set (events d). candidate_where d now e \<longrightarrow> locked (ev_id e))"
proof -
  have "candidate locked now d = None \<longleftrightarrow>
      filter (\<lambda>e. candidate_where d now e \<and> \<not> locked (ev_id e)) (events d) = []"
    unfolding candidate_def
    by (metis (no_types, lifting) list.exhaust list.simps(4,5) not_Some_eq option.distinct(1) sort_key_simps(1)
        set_empty set_sort)
  then show ?thesis by (auto simp: filter_empty_conv)
qed

text \<open>The two selections are disjoint: what is past the delivery window is never a candidate.\<close>

lemma candidate_not_expired: "candidate_where d now e \<Longrightarrow> \<not> expired_where now e"
  by (simp add: candidate_where_def expired_where_def)

definition claim_row :: "(string \<Rightarrow> bool) \<Rightarrow> time \<Rightarrow> time \<Rightarrow> string \<Rightarrow> db \<Rightarrow> event_row \<Rightarrow> event_row" where
  "claim_row locked now lease_until claim_id d e =
     (if map_option ev_id (candidate locked now d) = Some (ev_id e) then take_lease lease_until claim_id e
      else if ev_id e \<in> ev_id ` set (expired_rows locked now d) then retire e
      else e)"

lemma retire_simps [simp]:
  "ev_id (retire e) = ev_id e" "event_key (retire e) = event_key e" "ev_sandbox (retire e) = ev_sandbox e"
  "ev_created (retire e) = ev_created e" "ev_state (retire e) = Dead_Lettered"
  "ev_attempts (retire e) = ev_attempts e" "ev_replays (retire e) = ev_replays e"
  "ev_claim (retire e) = None"
  by (simp_all add: retire_def event_key_def)

lemma take_lease_simps [simp]:
  "ev_id (take_lease l c e) = ev_id e" "event_key (take_lease l c e) = event_key e"
  "ev_sandbox (take_lease l c e) = ev_sandbox e" "ev_created (take_lease l c e) = ev_created e"
  "ev_state (take_lease l c e) = Delivering" "ev_replays (take_lease l c e) = ev_replays e"
  "ev_claim (take_lease l c e) = Some c" "ev_lease (take_lease l c e) = Some l"
  "ev_body (take_lease l c e) = ev_body e" "ev_dest (take_lease l c e) = ev_dest e"
  by (simp_all add: take_lease_def event_key_def)

lemma claim_row_simps [simp]:
  "ev_id (claim_row locked now l c d e) = ev_id e"
  "event_key (claim_row locked now l c d e) = event_key e"
  "ev_sandbox (claim_row locked now l c d e) = ev_sandbox e"
  "ev_created (claim_row locked now l c d e) = ev_created e"
  by (simp_all add: claim_row_def)

lemma claim_statement_eq:
  assumes "schema_ok d"
  shows "claim_statement locked now l cid d =
    (map_option (\<lambda>c. claimed_of cid (take_lease l cid c)) (candidate locked now d),
     d\<lparr>events := map (claim_row locked now l cid d) (events d)\<rparr>)"
proof (cases "candidate locked now d")
  case None
  then show ?thesis
    by (auto simp: claim_statement_def Let_def claim_row_def)
next
  case (Some c)
  have "ev_id c \<notin> ev_id ` set (expired_rows locked now d)"
    using candidate_SomeD [OF Some] candidate_not_expired expired_rowsD schema_ok_same_id [OF assms]
    by (metis (no_types, lifting) imageE)
  then have "map (\<lambda>e. if ev_id e = ev_id c then take_lease l cid e else e)
      (map (\<lambda>e. if ev_id e \<in> ev_id ` set (expired_rows locked now d) then retire e else e) (events d))
    = map (claim_row locked now l cid d) (events d)"
    by (auto simp: claim_row_def Some)
  then show ?thesis
    by (simp only: claim_statement_def Let_def Some option.case option.map set_map)
qed

text \<open>How one statement changes one row.\<close>

lemma claim_row_cases:
  assumes "schema_ok d" and "e \<in> set (events d)"
  obtains
    (leased) "candidate locked now d = Some e" and "claim_row locked now l cid d e = take_lease l cid e"
      and "candidate_where d now e" and "\<not> locked (ev_id e)"
  | (retired) "expired_where now e" and "claim_row locked now l cid d e = retire e" and "\<not> locked (ev_id e)"
  | (unchanged) "claim_row locked now l cid d e = e"
proof -
  consider (a) c where "candidate locked now d = Some c" "ev_id c = ev_id e"
    | (b) x where "map_option ev_id (candidate locked now d) \<noteq> Some (ev_id e)"
        "x \<in> set (expired_rows locked now d)" "ev_id x = ev_id e"
    | (c) "map_option ev_id (candidate locked now d) \<noteq> Some (ev_id e)"
        "ev_id e \<notin> ev_id ` set (expired_rows locked now d)"
    by (cases "candidate locked now d") fastforce+
  then show ?thesis
  proof cases
    case a
    then have "c = e" using candidate_SomeD(1) [OF a(1)] schema_ok_same_id [OF assms(1)] assms(2) by blast
    with a candidate_SomeD [OF a(1)] show ?thesis by (intro leased) (simp_all add: claim_row_def)
  next
    case b
    then have "x = e" using expired_rowsD [OF b(2)] schema_ok_same_id [OF assms(1)] assms(2) by blast
    with b expired_rowsD [OF b(2)] show ?thesis
      by (intro retired) (auto simp: claim_row_def)
  next
    case c
    then show ?thesis by (intro unchanged) (auto simp: claim_row_def)
  qed
qed

lemma take_lease_ok:
  assumes "event_check e" and "lifecycle_row e" and "candidate_where d now e"
  shows "event_check (take_lease l c e)" and "lifecycle_row (take_lease l c e)"
  using assms
  by (auto simp: event_check_def lifecycle_row_def candidate_where_def waiting_def take_lease_def)

lemma retire_ok:
  assumes "event_check e" and "lifecycle_row e" and "expired_where now e"
  shows "event_check (retire e)" and "lifecycle_row (retire e)"
  using assms
  by (auto simp: event_check_def lifecycle_row_def expired_where_def waiting_def retire_def)

lemma claim_row_ok:
  assumes "schema_ok d" and "lifecycle_ok d" and "e \<in> set (events d)"
  shows "event_check (claim_row locked now l c d e) \<and> lifecycle_row (claim_row locked now l c d e)"
  using assms(1,3)
proof (cases rule: claim_row_cases [where locked = locked and now = now and l = l and cid = c])
  case leased
  with assms take_lease_ok schema_ok_event_check lifecycle_okD show ?thesis by metis
next
  case retired
  with assms retire_ok schema_ok_event_check lifecycle_okD show ?thesis by metis
next
  case unchanged
  with assms schema_ok_event_check lifecycle_okD show ?thesis by metis
qed

lemma claim_statement_ok:
  assumes "schema_ok d" and "lifecycle_ok d"
  shows "schema_ok (snd (claim_statement locked now l c d))"
    and "lifecycle_ok (snd (claim_statement locked now l c d))"
  using claim_row_ok [OF assms] assms(1)
  by (auto simp: claim_statement_eq lifecycle_ok_def intro!: schema_ok_map_events)

text \<open>Every run of \<open>Claim\<close> either leaves the database alone or applies its statement.\<close>

lemma Claim_cases:
  assumes "schema_ok d" and "Claim random n locked now lease d = (r, d')"
  obtains
    (failed) e where "r = Inl e" and "d' = d"
  | (applied) cid where "NewUUID random = Some cid"
      and "d' = d\<lparr>events := map (claim_row locked (pg_time now) (pg_time (now + lease)) cid d) (events d)\<rparr>"
      and "schema_ok d'"
      and "r = Inl (Db_Failed Unavailable) \<or>
           n = Done \<and> r = Inr (map_option (\<lambda>c. claimed_of cid (take_lease (pg_time (now + lease)) cid c))
                    (candidate locked (pg_time now) d))"
proof (cases "NewUUID random")
  case None
  with assms(2) show ?thesis by (intro failed) (auto simp: Claim_def)
next
  case (Some cid)
  let ?f = "claim_statement locked (pg_time now) (pg_time (now + lease)) cid"
  obtain r0 d0 where ac: "autocommit n ?f d = (r0, d0)" by fastforce
  then have d': "d' = d0" and r: "r = (case r0 of Inl e \<Rightarrow> Inl (Db_Failed e) | Inr c \<Rightarrow> Inr c)"
    using assms(2) Some by (auto simp: Claim_def split: sum.splits)
  show ?thesis
  proof (cases "n = Failed \<or> \<not> schema_ok (snd (?f d))")
    case True
    with ac obtain e where "d0 = d" and "r0 = Inl e" by (auto simp: autocommit_alt split: if_splits)
    with d' r show ?thesis by (intro failed [of "Db_Failed e"]) auto
  next
    case False
    then have "d0 = snd (?f d)" and "r0 = (if n = Lost then Inl Unavailable else Inr (fst (?f d)))"
      and "schema_ok d0"
      using ac by (auto simp: autocommit_alt split: if_splits)
    with Some d' r False show ?thesis
      by (intro applied [of cid]) (cases n; auto simp: claim_statement_eq [OF assms(1)])+
  qed
qed

lemma claim_row_behind:
  assumes "schema_ok d" and "e \<in> set (events d)" and "attempt_behind e a"
  shows "attempt_behind (claim_row locked now l c d e) a"
  using assms(1,2)
proof (cases rule: claim_row_cases [where locked = locked and now = now and l = l and cid = c])
  case leased
  with assms(3) show ?thesis
    by (auto simp: attempt_behind_def candidate_where_def waiting_def take_lease_def split: if_splits)
next
  case retired
  with assms(3) show ?thesis by (auto simp: attempt_behind_def split: if_splits)
next
  case unchanged
  with assms(3) show ?thesis by simp
qed

lemma Claim_inv:
  assumes "store_ok d" and "Claim random n locked now lease d = (r, d')"
  shows "store_ok d'"
proof -
  have ok: "schema_ok d" "lifecycle_ok d" using assms(1) by (simp_all add: store_ok_def)
  from ok(1) assms(2) show ?thesis
  proof (cases rule: Claim_cases)
    case (applied cid)
    then show ?thesis
      using assms(1) claim_row_ok [OF ok] claim_row_behind [OF ok(1)]
      by (simp only:) (intro store_ok_map_events; simp)
  qed (use assms in simp)
qed

lemma uint_byte_of_int: "0 \<le> k \<Longrightarrow> k \<le> 255 \<Longrightarrow> uint (word_of_int k :: byte) = k"
  by (simp add: uint_word_of_int)

lemma claimed_of_simps [simp]:
  "ce_id (claimed_of c e) = ev_id e" "ce_claim (claimed_of c e) = c" "ce_body (claimed_of c e) = ev_body e"
  "ce_dest (claimed_of c e) = ev_dest e" "ce_created (claimed_of c e) = ev_created e"
  "ce_sandbox (claimed_of c e) = (ev_sandbox e \<noteq> None)"
  by (simp_all add: claimed_of_def)

lemma claimed_of_numbers:
  assumes "event_check e"
  shows "uint (ce_replay (claimed_of c e)) = ev_replays e"
    and "uint (ce_attempt (claimed_of c e)) = ev_attempts e"
  using assms by (auto simp: claimed_of_def event_check_def intro!: uint_byte_of_int)

text \<open>
  C4: a successful claim hands out one row that was unlocked and due (waiting with its time
  reached, or leased with the lease run out), inside the 24-hour window and, for a visitor
  event, with a live session; no other unlocked due row was earlier.  The row is then leased to
  exactly this claim, its attempt number grows by one unless an expired lease is taken over, and
  the claim carries the row's body, destination, generation and attempt number, the latter
  between 1 and 8.
\<close>

theorem Claim_selects_due:
  assumes "schema_ok d" and "lifecycle_ok d"
    and "Claim random n locked now lease d = (Inr (Some claimed), d')"
  shows "\<exists>e e'. e \<in> set (events d) \<and> e' \<in> set (events d') \<and> ev_id e = ce_id claimed \<and> ev_id e' = ce_id claimed \<and>
    \<not> locked (ev_id e) \<and> due_event d (pg_time now) e \<and>
    (\<forall>f \<in> set (events d). due_event d (pg_time now) f \<and> \<not> locked (ev_id f) \<longrightarrow>
       (ev_next e, ev_created e) \<le> (ev_next f, ev_created f)) \<and>
    ev_state e' = Delivering \<and> ev_claim e' = Some (ce_claim claimed) \<and> ev_lease e' = Some (pg_time (now + lease)) \<and>
    ev_attempts e' = (if ev_state e = Delivering then ev_attempts e else ev_attempts e + 1) \<and>
    uint (ce_attempt claimed) = ev_attempts e' \<and> 1 \<le> ev_attempts e' \<and> ev_attempts e' \<le> 8 \<and>
    uint (ce_replay claimed) = ev_replays e \<and> ce_body claimed = ev_body e \<and> ce_dest claimed = ev_dest e \<and>
    ce_created claimed = ev_created e \<and> ce_sandbox claimed = (ev_sandbox e \<noteq> None)"
  using assms(1,3)
proof (cases rule: Claim_cases)
  case (applied cid)
  let ?l = "pg_time (now + lease)"
  from applied obtain e where e: "candidate locked (pg_time now) d = Some e"
    and claimed: "claimed = claimed_of cid (take_lease ?l cid e)"
    by (auto simp: eq_commute [of "Some claimed"])
  note sel = candidate_SomeD [OF e]
  let ?e' = "take_lease ?l cid e"
  have "claim_row locked (pg_time now) ?l cid d e = ?e'" by (simp add: claim_row_def e)
  then have mem: "?e' \<in> set (events d')" using sel(1) applied(2) by force
  have ok: "event_check ?e'" "lifecycle_row ?e'"
    using take_lease_ok [OF schema_ok_event_check [OF assms(1) sel(1)] lifecycle_okD [OF assms(2) sel(1)] sel(2)]
    by auto
  then have "1 \<le> ev_attempts ?e'" "ev_attempts ?e' \<le> 8"
    by (auto simp: lifecycle_row_def event_check_def)
  moreover have "ev_state ?e' = Delivering \<and> ev_claim ?e' = Some (ce_claim claimed)" by (simp add: claimed)
  moreover have "ev_attempts ?e' = (if ev_state e = Delivering then ev_attempts e else ev_attempts e + 1)"
    by (simp add: take_lease_def)
  ultimately show ?thesis
    using mem sel claimed_of_numbers [OF ok(1), of cid]
    unfolding due_event_iff by (intro exI [of _ e] exI [of _ ?e']) (simp add: claimed)
qed auto

text \<open>
  With a working database and random source, a claim comes back empty only when no unlocked row
  is due; otherwise it returns one.  No reachable row can make the claim fail on a constraint.
\<close>

theorem Claim_progress:
  assumes "schema_ok d" and "lifecycle_ok d"
  shows "\<exists>claimed. fst (Claim (Some random) Done locked now lease d) = Inr claimed \<and>
    (claimed = None \<longleftrightarrow> (\<forall>e \<in> set (events d). due_event d (pg_time now) e \<longrightarrow> locked (ev_id e)))"
proof -
  obtain cid where "NewUUID (Some random) = Some cid" by (rule NewUUID_Some)
  moreover have "schema_ok (snd (claim_statement locked (pg_time now) (pg_time (now + lease)) cid d))"
    using assms by (intro claim_statement_ok)
  ultimately show ?thesis
    by (simp add: Claim_def autocommit_alt claim_statement_eq [OF assms(1)] candidate_None_iff due_event_iff)
qed

text \<open>
  An event whose automatic-delivery window has closed is never leased again by a claim, whatever
  its state, and every such row that the claim changes is retired as dead-lettered without a
  new attempt; at most ten rows are retired per claim.
\<close>

theorem Claim_retires_expired:
  assumes "schema_ok d" and "Claim random n locked now lease d = (r, d')"
  shows "(\<exists>f. map ev_id (map f (events d)) = map ev_id (events d) \<and> events d' = map f (events d) \<and>
      (\<forall>e \<in> set (events d). ev_created e \<le> pg_time now - 24 * hour \<longrightarrow>
         f e = e \<or> f e = e\<lparr>ev_state := Dead_Lettered, ev_lease := None, ev_claim := None\<rparr> \<and> ev_state e \<noteq> Delivered) \<and>
      card {e \<in> set (events d). ev_created e \<le> pg_time now - 24 * hour \<and> f e \<noteq> e} \<le> 10) \<and>
    attempts d' = attempts d"
  using assms
proof (cases rule: Claim_cases)
  case (failed e)
  then show ?thesis by (auto intro!: exI [of _ "\<lambda>e. e"])
next
  case (applied cid)
  let ?f = "claim_row locked (pg_time now) (pg_time (now + lease)) cid d"
  let ?old = "\<lambda>e. ev_created e \<le> pg_time now - 24 * hour"
  have step: "?f e = e \<or> ?f e = retire e \<and> ev_state e \<noteq> Delivered \<and> e \<in> set (expired_rows locked (pg_time now) d)"
    if e: "e \<in> set (events d)" "?old e" for e
  proof -
    have "\<not> candidate_where d (pg_time now) e" using e(2) by (simp add: candidate_where_def delivery_window_def)
    then have "map_option ev_id (candidate locked (pg_time now) d) \<noteq> Some (ev_id e)"
      using candidate_SomeD(1,2) schema_ok_same_id [OF assms(1)] e(1) by fastforce
    then have "?f e = e \<or> (?f e = retire e \<and> ev_id e \<in> ev_id ` set (expired_rows locked (pg_time now) d))"
      by (simp only: claim_row_def if_False) auto
    moreover have "e \<in> set (expired_rows locked (pg_time now) d) \<and> ev_state e \<noteq> Delivered"
      if "ev_id e \<in> ev_id ` set (expired_rows locked (pg_time now) d)"
    proof -
      from that obtain x where x: "x \<in> set (expired_rows locked (pg_time now) d)" "ev_id x = ev_id e" by auto
      then have "x = e" using expired_rowsD schema_ok_same_id [OF assms(1)] e(1) by blast
      with x expired_rowsD [OF x(1)] show ?thesis by (auto simp: expired_where_def waiting_def)
    qed
    ultimately show ?thesis by blast
  qed
  have "{e \<in> set (events d). ?old e \<and> ?f e \<noteq> e} \<subseteq> set (expired_rows locked (pg_time now) d)"
    using step by blast
  then have "card {e \<in> set (events d). ?old e \<and> ?f e \<noteq> e} \<le> length (expired_rows locked (pg_time now) d)"
    by (meson List.finite_set card_length card_mono order_trans)
  also have "\<dots> \<le> 10" by (rule length_expired_rows)
  finally have "card {e \<in> set (events d). ?old e \<and> ?f e \<noteq> e} \<le> 10" .
  with applied step show ?thesis
    by (intro conjI exI [of _ ?f]) (auto simp: retire_def)
qed

section \<open>What a record writes\<close>

definition record_row :: "claimed_event \<Rightarrow> attempt \<Rightarrow> event_row \<Rightarrow> event_row" where
  "record_row claimed att e = (if holds_claim claimed e then finish_event claimed att e else e)"

definition recorded :: "claimed_event \<Rightarrow> attempt \<Rightarrow> db \<Rightarrow> db" where
  "recorded claimed att d =
     d\<lparr>events := map (record_row claimed att) (events d),
       attempts := attempts d @ [attempt_row_of claimed att]\<rparr>"

definition claim_current :: "db \<Rightarrow> claimed_event \<Rightarrow> bool" where
  "claim_current d claimed \<longleftrightarrow> (\<exists>e \<in> set (events d). holds_claim claimed e)"

lemma finish_event_simps [simp]:
  "ev_id (finish_event c a e) = ev_id e" "event_key (finish_event c a e) = event_key e"
  "ev_sandbox (finish_event c a e) = ev_sandbox e" "ev_created (finish_event c a e) = ev_created e"
  "ev_state (finish_event c a e) = record_state c a" "ev_claim (finish_event c a e) = None"
  "ev_attempts (finish_event c a e) = ev_attempts e" "ev_replays (finish_event c a e) = ev_replays e"
  by (simp_all add: finish_event_def event_key_def)

lemma record_row_simps [simp]:
  "ev_id (record_row c a e) = ev_id e" "event_key (record_row c a e) = event_key e"
  "ev_sandbox (record_row c a e) = ev_sandbox e" "ev_created (record_row c a e) = ev_created e"
  "ev_attempts (record_row c a e) = ev_attempts e" "ev_replays (record_row c a e) = ev_replays e"
  by (simp_all add: record_row_def)

lemma record_state_simps [simp]: "record_state c a \<noteq> Delivering" "record_state c a \<noteq> Pending"
  by (simp_all add: record_state_def)

lemma not_holds_finish [simp]: "\<not> holds_claim c (finish_event c' a e)"
  by (simp add: holds_claim_def)

lemma holds_count:
  assumes "schema_ok d"
  shows "length (filter (holds_claim claimed) (events d)) = (if claim_current d claimed then 1 else 0)"
  using filter_unique [OF schema_ok_distinct_ids [OF assms], of "holds_claim claimed" "ce_id claimed"]
  by (simp add: claim_current_def holds_claim_def)

text \<open>
  The transaction is all or nothing: either nothing changed and an error was reported, or the
  claim was still current, both writes are there and the constraints hold; success is reported
  exactly when the commit was acknowledged.
\<close>

lemma Record_cases:
  assumes "schema_ok d" and "Record nets claimed att d = (r, d')"
  obtains
    (rolled_back) e where "r = Inl e" and "d' = d"
  | (committed) "d' = recorded claimed att d" and "claim_current d claimed" and "schema_ok d'"
      and "r = Inr () \<and> nets 3 = Done \<or> r = Inl (Db_Failed Unavailable) \<and> nets 3 = Lost"
proof -
  let ?d1 = "snd (complete_statement claimed att d)"
  have d1: "?d1 = d\<lparr>events := map (record_row claimed att) (events d)\<rparr>"
    and n1: "fst (complete_statement claimed att d) = (if claim_current d claimed then 1 else 0)"
    using holds_count [OF assms(1)]
    by (simp_all add: complete_statement_def update_rows_def record_row_def [abs_def])
  have d2: "snd (insert_attempt claimed att ?d1) = recorded claimed att d"
    by (simp add: insert_attempt_def d1 recorded_def)
  show ?thesis
  proof (cases "nets 0 = Done \<and> nets 1 = Done \<and> schema_ok ?d1 \<and> claim_current d claimed \<and>
      nets 2 = Done \<and> schema_ok (recorded claimed att d) \<and> nets 3 \<noteq> Failed")
    case True
    then have "d' = recorded claimed att d" and
      "r = (if nets 3 = Done then Inr () else Inl (Db_Failed Unavailable))"
      using assms(2) n1 d2
      by (auto simp: Record_def statement_alt commit_def split: net.splits if_splits)
    with True show ?thesis by (intro committed) (cases "nets 3"; simp)+
  next
    case False
    then have "d' = d \<and> (\<exists>e. r = Inl e)"
      using assms(2) n1 d2
      by (auto simp: Record_def statement_alt commit_def split: net.splits if_splits)
    then show ?thesis using rolled_back by blast
  qed
qed

lemma Record_schema:
  assumes "schema_ok d" and "Record nets claimed att d = (r, d')"
  shows "schema_ok d'"
  by (rule Record_cases [OF assms]) (simp_all add: assms(1))

text \<open>
  C15: a worker whose claim was replaced, taken over after its lease ran out, finished or retired
  cannot change anything: the database is exactly as before, and with a working database the
  reported error is that the claim expired or was replaced.
\<close>

theorem Record_stale_claim:
  assumes "schema_ok d"
    and "\<not> (\<exists>e \<in> set (events d). ev_id e = ce_id claimed \<and> ev_state e = Delivering \<and> ev_claim e = Some (ce_claim claimed))"
  shows "snd (Record nets claimed att d) = d \<and>
    (nets 0 = Done \<and> nets 1 = Done \<longrightarrow> fst (Record nets claimed att d) = Inl Claim_Replaced)"
proof -
  obtain r d' where rec: "Record nets claimed att d = (r, d')" by fastforce
  have no: "\<not> claim_current d claimed" using assms(2) by (simp add: claim_current_def holds_claim_def)
  have "fst (complete_statement claimed att d) = 0"
    using holds_count [OF assms(1), of claimed] no by (simp add: complete_statement_def update_rows_def)
  moreover have "snd (complete_statement claimed att d) = d"
    using no by (simp add: claim_current_def complete_statement_def update_rows_def map_idI)
  ultimately show ?thesis
    using assms(1) by (auto simp: Record_def statement_alt)
qed

text \<open>What a claim knows about its row stays true as long as the row carries it.\<close>

definition claim_consistent :: "db \<Rightarrow> claimed_event \<Rightarrow> bool" where
  "claim_consistent d claimed \<longleftrightarrow> (\<forall>e \<in> set (events d). holds_claim claimed e \<longrightarrow>
     uint (ce_attempt claimed) = ev_attempts e \<and> uint (ce_replay claimed) = ev_replays e \<and>
     ce_created claimed = ev_created e \<and> ce_sandbox claimed = (ev_sandbox e \<noteq> None))"

lemma finish_event_ok:
  assumes "event_check e" and "lifecycle_row e" and "holds_claim claimed e"
    and "uint (ce_attempt claimed) = ev_attempts e"
  shows "event_check (finish_event claimed att e)" and "lifecycle_row (finish_event claimed att e)"
proof -
  have "record_state claimed att = Retry_Scheduled \<Longrightarrow> ev_attempts e \<le> 7"
    using assms(4) by (auto simp: record_state_def CanRetryAt_def CanRetry_iff split: if_splits)
  with assms show "event_check (finish_event claimed att e)" "lifecycle_row (finish_event claimed att e)"
    by (auto simp: event_check_def lifecycle_row_def holds_claim_def finish_event_def)
qed

lemma recorded_ok:
  assumes ok: "store_ok d" and "schema_ok (recorded claimed att d)"
    and consistent: "claim_consistent d claimed" and current: "claim_current d claimed"
  shows "store_ok (recorded claimed att d)"
proof -
  let ?f = "record_row claimed att"
  have d: "schema_ok d" "lifecycle_ok d" "history_ok d" using ok by (simp_all add: store_ok_def)
  have row: "lifecycle_row (?f e)" if "e \<in> set (events d)" for e
    using that consistent finish_event_ok(2) schema_ok_event_check [OF d(1)] lifecycle_okD [OF d(2)]
    by (auto simp: claim_consistent_def record_row_def)
  have "lifecycle_ok (recorded claimed att d)"
    using row by (simp add: lifecycle_ok_def recorded_def)
  moreover have old: "attempt_behind (?f e) a"
    if "e \<in> set (events d)" "a \<in> set (attempts d)" "at_event a = ev_id e" for e a
    using history_okD [OF d(3) that]
    by (auto simp: attempt_behind_def record_row_def holds_claim_def split: if_splits)
  have new: "attempt_behind (?f e) (attempt_row_of claimed att)"
    if "e \<in> set (events d)" "ce_id claimed = ev_id e" for e
  proof -
    have "holds_claim claimed e"
      using that current schema_ok_same_id [OF d(1)] by (auto simp: claim_current_def holds_claim_def)
    with consistent that show ?thesis
      by (simp add: attempt_behind_def claim_consistent_def attempt_row_of_def record_row_def)
  qed
  have "history_ok (recorded claimed att d)"
  proof -
    have "attempt_behind (?f e) a"
      if "e \<in> set (events d)" "a \<in> set (attempts d) \<or> a = attempt_row_of claimed att" "at_event a = ev_id (?f e)" for e a
      using that old new by (auto simp: attempt_row_of_def split: if_splits)
    then show ?thesis
      by (auto simp: history_ok_def recorded_def)
  qed
  ultimately show ?thesis using assms(2) by (simp add: store_ok_def)
qed

lemma Record_inv:
  assumes "store_ok d" and "claim_consistent d claimed" and "Record nets claimed att d = (r, d')"
  shows "store_ok d'"
proof -
  have "schema_ok d" using assms(1) by (simp add: store_ok_def)
  then show ?thesis using assms(3)
  proof (cases rule: Record_cases)
    case committed
    with assms recorded_ok show ?thesis by simp
  qed (use assms in simp)
qed

text \<open>
  The constraints cannot stand in the way of a current claim: the new attempt row satisfies its
  checks for every response the schema can represent, and its key is new because the recorded
  history lies behind the running attempt.
\<close>

lemma attempt_row_check:
  assumes "http_shape att \<or> failure_shape att" and "length (an_excerpt att) \<le> 4096"
    and "\<And>w. an_status att = Some w \<Longrightarrow> 100 \<le> uint w \<and> uint w \<le> 599"
    and "an_started att \<le> an_finished att"
    and "uint (ce_replay claimed) \<le> 16" and "1 \<le> uint (ce_attempt claimed)" and "uint (ce_attempt claimed) \<le> 8"
  shows "attempt_check (attempt_row_of claimed att)"
  using assms pg_time_mono [OF assms(4)]
  by (auto simp: attempt_check_def attempt_row_of_def http_shape_def failure_shape_def)

lemma recorded_schema_ok:
  assumes ok: "store_ok d" and consistent: "claim_consistent d claimed" and current: "claim_current d claimed"
    and check: "attempt_check (attempt_row_of claimed att)" and fresh: "an_id att \<notin> at_id ` set (attempts d)"
  shows "schema_ok (recorded claimed att d)"
    and "schema_ok (snd (complete_statement claimed att d))"
proof -
  let ?f = "record_row claimed att"
  have d: "schema_ok d" "lifecycle_ok d" "history_ok d" using ok by (simp_all add: store_ok_def)
  have "event_check (?f e)" if "e \<in> set (events d)" for e
    using that consistent finish_event_ok(1) schema_ok_event_check [OF d(1)] lifecycle_okD [OF d(2)]
    by (auto simp: claim_consistent_def record_row_def)
  then have upd: "schema_ok (d\<lparr>events := map ?f (events d)\<rparr>)"
    by (intro schema_ok_map_events [OF d(1)]) simp_all
  then show "schema_ok (snd (complete_statement claimed att d))"
    by (simp add: complete_statement_def update_rows_def record_row_def [abs_def])
  from current obtain e where e: "e \<in> set (events d)" "holds_claim claimed e"
    by (auto simp: claim_current_def)
  have num: "uint (ce_attempt claimed) = ev_attempts e" "uint (ce_replay claimed) = ev_replays e"
    using consistent e by (auto simp: claim_consistent_def)
  have "attempt_key (attempt_row_of claimed att) \<notin> attempt_key ` set (attempts d)"
  proof
    assume "attempt_key (attempt_row_of claimed att) \<in> attempt_key ` set (attempts d)"
    then obtain a where a: "a \<in> set (attempts d)" "at_event a = ev_id e" "at_replay a = ev_replays e"
      "at_number a = ev_attempts e"
      using e(2) num by (auto simp: attempt_key_def attempt_row_of_def holds_claim_def)
    with history_okD [OF d(3) e(1) a(1,2)] e(2) show False
      by (simp add: attempt_behind_def holds_claim_def)
  qed
  moreover have "ce_id claimed \<in> ev_id ` set (events d)" using e by (metis holds_claim_def imageI)
  moreover have "ev_id ` ?f ` set (events d) = ev_id ` set (events d)"
    by (simp add: image_comp comp_def)
  ultimately have "schema_ok ((d\<lparr>events := map ?f (events d)\<rparr>)\<lparr>attempts := attempts d @ [attempt_row_of claimed att]\<rparr>)"
    using schema_ok_append_attempt [OF upd check] fresh by (simp add: attempt_row_of_def)
  then show "schema_ok (recorded claimed att d)" by (simp add: recorded_def)
qed

text \<open>
  The write of a current claim's result succeeds whenever the database answers: the row takes
  the outcome's state, loses its lease and gets the attempt's next time, the delivery time is
  set exactly on delivery, no other row changes and one attempt row is appended.
\<close>

lemma Record_done:
  assumes "store_ok d" and "claim_current d claimed" and "claim_consistent d claimed"
    and "attempt_check (attempt_row_of claimed att)" and "an_id att \<notin> at_id ` set (attempts d)"
    and "\<forall>k. nets k = Done"
  shows "Record nets claimed att d = (Inr (), recorded claimed att d)"
proof -
  have d: "schema_ok d" using assms(1) by (simp add: store_ok_def)
  note ok = recorded_schema_ok [OF assms(1,3,2,4,5)]
  have n1: "fst (complete_statement claimed att d) = 1"
    using holds_count [OF d, of claimed] assms(2) by (simp add: complete_statement_def update_rows_def)
  have d2: "snd (insert_attempt claimed att (snd (complete_statement claimed att d))) = recorded claimed att d"
    by (simp add: insert_attempt_def complete_statement_def update_rows_def recorded_def record_row_def [abs_def])
  show ?thesis using ok n1 d2 assms(6) by (simp add: Record_def statement_alt commit_def)
qed

text \<open>
  C39: A response whose status code lies outside 100 to 599, which the HTTP client accepts, can never
  be recorded: the constraint of the attempts table refuses the row, the transaction rolls
  back, and the event keeps its state, its lease and its attempt number.
\<close>

theorem Record_rejects_status:
  assumes "schema_ok d" and "an_status att = Some w" and "uint w < 100 \<or> 599 < uint w"
  shows "snd (Record nets claimed att d) = d \<and> fst (Record nets claimed att d) \<noteq> Inr ()"
proof -
  obtain r d' where rec: "Record nets claimed att d = (r, d')" by fastforce
  have "\<not> schema_ok (recorded claimed att d)"
    using assms(2,3)
    by (auto simp: schema_defs recorded_def attempt_check_def attempt_row_of_def)
  then show ?thesis
    by (cases rule: Record_cases [OF assms(1) rec]) (auto simp: rec)
qed

section \<open>The worker on this store\<close>

lemma claim_row_current:
  assumes "schema_ok d" and "candidate locked now d = Some e"
  shows "holds_claim (claimed_of cid (take_lease l cid e)) (claim_row locked now l cid d e)"
  using assms by (simp add: claim_row_def holds_claim_def)

lemma Claim_current:
  assumes "schema_ok d" and "Claim random n locked now lease d = (Inr (Some claimed), d')"
  shows "claim_current d' claimed"
  using assms
proof (cases rule: Claim_cases)
  case (applied cid)
  then obtain e where e: "candidate locked (pg_time now) d = Some e"
    and "claimed = claimed_of cid (take_lease (pg_time (now + lease)) cid e)"
    by (auto simp: eq_commute [of "Some claimed"])
  then have "holds_claim claimed (claim_row locked (pg_time now) (pg_time (now + lease)) cid d e)"
    using claim_row_current [OF assms(1)] by simp
  moreover have "claim_row locked (pg_time now) (pg_time (now + lease)) cid d e \<in> set (events d')"
    using applied(2) candidate_SomeD(1) [OF e] by simp
  ultimately show ?thesis unfolding claim_current_def by (rule bexI)
qed auto

lemma Claim_consistent:
  assumes "schema_ok d" and "Claim random n locked now lease d = (Inr (Some claimed), d')"
  shows "claim_consistent d' claimed"
  using assms
proof (cases rule: Claim_cases)
  case (applied cid)
  let ?f = "claim_row locked (pg_time now) (pg_time (now + lease)) cid d"
  from applied obtain e where e: "candidate locked (pg_time now) d = Some e"
    and claimed: "claimed = claimed_of cid (take_lease (pg_time (now + lease)) cid e)"
    by (auto simp: eq_commute [of "Some claimed"])
  have fe: "?f e = take_lease (pg_time (now + lease)) cid e" by (simp add: claim_row_def e)
  have mem: "?f e \<in> set (events d')" using applied(2) candidate_SomeD(1) [OF e] by simp
  then have check: "event_check (take_lease (pg_time (now + lease)) cid e)"
    using schema_ok_event_check [OF applied(3)] fe by simp
  show ?thesis
    unfolding claim_consistent_def
  proof (intro ballI impI)
    fix x assume "x \<in> set (events d')" and "holds_claim claimed x"
    then have "x = ?f e"
      using schema_ok_same_id [OF applied(3) _ mem] by (simp add: holds_claim_def claimed)
    with fe claimed_of_numbers [OF check, of cid]
    show "uint (ce_attempt claimed) = ev_attempts x \<and> uint (ce_replay claimed) = ev_replays x \<and>
      ce_created claimed = ev_created x \<and> ce_sandbox claimed = (ev_sandbox x \<noteq> None)"
      by (simp add: claimed)
  qed
qed auto

lemma Claim_attempts: "schema_ok d \<Longrightarrow> Claim random n locked now lease d = (r, d') \<Longrightarrow> attempts d' = attempts d"
  by (erule Claim_cases) auto

lemma recorded_not_current: "\<not> claim_current (recorded claimed att d) claimed"
  by (auto simp: claim_current_def recorded_def record_row_def)

lemma recorded_attempts:
  "event_attempts (recorded claimed att d) =
     (event_attempts d)(ce_id claimed := event_attempts d (ce_id claimed) @ [attempt_row_of claimed att])"
  by (auto simp: event_attempts_def recorded_def attempt_row_of_def)

lemma Record_effect:
  assumes "schema_ok d" and "Record nets claimed att d = (r, d')" and "d' \<noteq> d \<or> r = Inr ()"
  shows "claim_current d claimed \<and> \<not> claim_current d' claimed \<and>
    event_attempts d' =
      (event_attempts d)(ce_id claimed := event_attempts d (ce_id claimed) @ [attempt_row_of claimed att])"
  using assms(1,2)
proof (cases rule: Record_cases)
  case committed
  with recorded_not_current recorded_attempts show ?thesis by simp
qed (use assms(3) in auto)

interpretation pg_queue: queue_store "Claim random n locked" "Record nets" schema_ok claim_current
    event_attempts attempt_row_of
  for random n locked nets
proof unfold_locales
  fix d now lease r d'
  assume d: "schema_ok d" "Claim random n locked now lease d = (r, d')"
  show "schema_ok d'" by (rule Claim_cases [OF d]) (simp_all add: d(1))
  show "event_attempts d' = event_attempts d"
    using Claim_attempts [OF d] by (simp add: event_attempts_def fun_eq_iff)
next
  fix d now lease claimed d'
  assume "schema_ok d" "Claim random n locked now lease d = (Inr (Some claimed), d')"
  then show "claim_current d' claimed" by (rule Claim_current)
qed (use Record_schema Record_effect in blast)+

section \<open>A concrete queue\<close>

definition sample_event :: event_row where
  "sample_event = \<lparr> ev_id = ''e'', ev_source = ''s'', ev_external = ''x'', ev_body = [1, 2, 3],
     ev_sha = replicate 32 0, ev_dest = ''https://receiver.example/'', ev_state = Pending,
     ev_attempts = 0, ev_replays = 0, ev_next = 0, ev_lease = None, ev_claim = None,
     ev_created = 0, ev_delivered = None, ev_sandbox = None \<rparr>"

definition sample_db :: db where
  "sample_db = (empty_db 0)\<lparr>events := [sample_event]\<rparr>"

definition sample_cid :: string where
  "sample_cid = the (NewUUID (Some (replicate 16 0)))"

lemma sample_uuid: "NewUUID (Some (replicate 16 0)) = Some sample_cid"
  unfolding sample_cid_def by (rule NewUUID_Some [of "replicate 16 0"]) simp

lemma sample_db_ok: "store_ok sample_db"
  by (auto simp: store_ok_def schema_defs sample_db_def sample_event_def empty_db_def event_check_def
     text_length_def budget_check_def lifecycle_ok_def lifecycle_row_def history_ok_def)

definition sample_taken :: event_row where
  "sample_taken = take_lease (pg_time (0 + 30 * second)) sample_cid sample_event"

lemma sample_candidate: "candidate (\<lambda>_. False) (pg_time 0) sample_db = Some sample_event"
  by (simp add: candidate_def sample_db_def sample_event_def candidate_where_def waiting_def delivery_window_def
    pg_time_def duration_defs empty_db_def)

lemma sample_Claim:
  "Claim (Some (replicate 16 0)) Done (\<lambda>_. False) 0 (30 * second) sample_db =
     (Inr (Some (claimed_of sample_cid sample_taken)), sample_db\<lparr>events := [sample_taken]\<rparr>)"
proof -
  have ok: "schema_ok sample_db" "lifecycle_ok sample_db" using sample_db_ok by (simp_all add: store_ok_def)
  have "claim_row (\<lambda>_. False) (pg_time 0) (pg_time (0 + 30 * second)) sample_cid sample_db sample_event = sample_taken"
    by (simp add: claim_row_def sample_candidate sample_taken_def)
  then have "claim_statement (\<lambda>_. False) (pg_time 0) (pg_time (0 + 30 * second)) sample_cid sample_db =
      (Some (claimed_of sample_cid sample_taken), sample_db\<lparr>events := [sample_taken]\<rparr>)"
    unfolding claim_statement_eq [OF ok(1)] sample_candidate
    by (simp add: sample_db_def sample_taken_def)
  then show ?thesis
    using claim_statement_ok(1) [OF ok, of "\<lambda>_. False" "pg_time 0" "pg_time (0 + 30 * second)" sample_cid]
    by (simp add: Claim_def sample_uuid autocommit_alt)
qed

definition sample_attempt :: attempt where
  "sample_attempt = fst (Send sample_sender sample_env (claimed_of sample_cid sample_taken))"

definition sample_leased :: db where
  "sample_leased = sample_db\<lparr>events := [sample_taken]\<rparr>"

lemma sample_leased_ok:
  "store_ok sample_leased" "claim_current sample_leased (claimed_of sample_cid sample_taken)"
  "claim_consistent sample_leased (claimed_of sample_cid sample_taken)"
  using Claim_inv [OF sample_db_ok sample_Claim] Claim_current [OF _ sample_Claim] Claim_consistent [OF _ sample_Claim]
    sample_db_ok
  by (simp_all add: sample_leased_def store_ok_def)

lemma sample_attempt_row:
  "attempt_row_of (claimed_of sample_cid sample_taken) sample_attempt =
     \<lparr> at_id = sample_cid, at_event = ''e'', at_replay = 0, at_number = 1, at_started = from_unix 17,
       at_finished = from_unix 17, at_outcome = Network_Error, at_status = None, at_excerpt = [],
       at_error = Some ''request_failed'' \<rparr>"
  by (simp add: attempt_row_of_def sample_attempt_def Send_def sample_env_def network_attempt_def Let_def
     sample_uuid sample_taken_def claimed_of_def take_lease_def sample_event_def sample_sender_def from_unix_def
     pg_time_def second_def millisecond_def)

section \<open>The properties on a concrete queue\<close>

theorem Claim_selects_due_witness:
  "\<exists>e' \<in> set (events sample_leased).
     ev_claim e' = Some sample_cid \<and> ev_attempts e' = 1 \<and>
     ev_lease e' = Some (30 * second)"
proof -
  have "schema_ok sample_db" "lifecycle_ok sample_db" using sample_db_ok by (simp_all add: store_ok_def)
  from Claim_selects_due [OF this sample_Claim]
  show ?thesis
    by (auto simp: sample_leased_def sample_db_def sample_event_def pg_time_def duration_defs)
qed

theorem Claim_progress_witness:
  "\<exists>c. fst (Claim (Some (replicate 16 0)) Done (\<lambda>_. False) 0 (30 * second) sample_db) = Inr (Some c)"
proof -
  have "schema_ok sample_db" "lifecycle_ok sample_db" using sample_db_ok by (simp_all add: store_ok_def)
  from Claim_progress [OF this, of "replicate 16 0" "\<lambda>_. False" 0 "30 * second"]
  show ?thesis
    using sample_candidate candidate_None_iff [of "\<lambda>_. False" "pg_time 0" sample_db] by (auto simp: due_event_iff)
qed

text \<open>An event received a day and an hour ago, and one received just now.\<close>

definition sample_old :: event_row where
  "sample_old = sample_event\<lparr>ev_id := ''old'', ev_external := ''old'', ev_created := - 25 * hour\<rparr>"

definition sample_mixed :: db where
  "sample_mixed = (empty_db 0)\<lparr>events := [sample_old, sample_event]\<rparr>"

lemma sample_mixed_ok: "store_ok sample_mixed"
  by (auto simp: store_ok_def schema_defs sample_mixed_def sample_old_def sample_event_def empty_db_def
     event_check_def event_key_def text_length_def budget_check_def lifecycle_ok_def lifecycle_row_def history_ok_def)

theorem Claim_retires_expired_witness:
  "attempts (snd (Claim (Some (replicate 16 0)) Done (\<lambda>_. False) 0 (30 * second) sample_mixed)) = []"
proof -
  obtain r d' where run: "Claim (Some (replicate 16 0)) Done (\<lambda>_. False) 0 (30 * second) sample_mixed = (r, d')"
    by fastforce
  have "schema_ok sample_mixed" using sample_mixed_ok by (simp add: store_ok_def)
  from Claim_retires_expired [OF this run] run show ?thesis
    by (simp add: sample_mixed_def empty_db_def)
qed

theorem Record_stale_claim_witness:
  "Record (\<lambda>_. Done) (claimed_of ''other'' sample_taken) sample_attempt sample_db
     = (Inl Claim_Replaced, sample_db)"
proof -
  have "schema_ok sample_db" using sample_db_ok by (simp add: store_ok_def)
  moreover have "\<not> (\<exists>e \<in> set (events sample_db). ev_id e = ce_id (claimed_of ''other'' sample_taken) \<and>
      ev_state e = Delivering \<and> ev_claim e = Some (ce_claim (claimed_of ''other'' sample_taken)))"
    by (simp add: sample_db_def sample_event_def)
  ultimately show ?thesis
    using Record_stale_claim [where nets = "\<lambda>_. Done"] by (metis prod.collapse)
qed

theorem Record_rejects_status_witness:
  "snd (Record (\<lambda>_. Done) (claimed_of sample_cid sample_taken) (sample_attempt\<lparr>an_status := Some 999\<rparr>) sample_leased)
     = sample_leased"
proof -
  have "schema_ok sample_leased" using sample_leased_ok(1) by (simp add: store_ok_def)
  from Record_rejects_status [OF this, where att = "sample_attempt\<lparr>an_status := Some 999\<rparr>" and w = 999]
  show ?thesis by simp
qed

end
