(* ===== verification/Delivery_Run.thy ===== *)
theory Delivery_Run
  imports Pg_Queue
begin

text \<open>
  One run of the delivery worker (\<open>internal/delivery/worker.go\<close>) as the worker process composes it
  in \<open>cmd/worker/main.go\<close>: the PostgreSQL queue of \<open>Pg_Queue\<close> and the HTTP sender of
  \<open>Delivery\<close>.  Safety under every failure, through the interpretation of the queue interface,
  and progress when the database answers.
\<close>

definition worker_send :: "http_sender \<Rightarrow> send_env \<Rightarrow> claimed_event \<Rightarrow> attempt option \<times> http_request list" where
  "worker_send sender env claimed = (Some (fst (Send sender env claimed)), snd (Send sender env claimed))"

lemma Send_requests: "length (snd (Send sender env claimed)) \<le> 1"
  by (auto simp: Send_def Let_def split: option.splits)

lemma Send_request_of_claim:
  "request \<in> set (snd (Send sender env claimed)) \<Longrightarrow>
     \<not> ce_sandbox claimed \<and> rq_url request = ce_dest claimed \<and> rq_body request = ce_body claimed"
  by (auto simp: Send_def Let_def delivery_request_def split: if_splits option.splits)

lemma Claim_origin:
  assumes "schema_ok d" and "Claim random n locked now lease d = (Inr (Some claimed), d')"
  shows "\<exists>e \<in> set (events d). ce_id claimed = ev_id e \<and> ce_body claimed = ev_body e \<and> ce_dest claimed = ev_dest e \<and>
    ce_sandbox claimed = (ev_sandbox e \<noteq> None)"
  using assms
proof (cases rule: Claim_cases)
  case (applied cid)
  then obtain e where "candidate locked (pg_time now) d = Some e"
    "claimed = claimed_of cid (take_lease (pg_time (now + lease)) cid e)"
    by (auto simp: eq_commute [of "Some claimed"])
  with candidate_SomeD(1) show ?thesis by (intro bexI [of _ e]) simp_all
qed auto

text \<open>
  C3: one run of the worker follows the claim it takes.  Without a claim nothing is sent and no attempt
  recorded.  With one, which is current when the queue hands it out and carries the identifier, the
  body and the destination of a stored event, exactly what the sender makes of this claim is sent, at
  most one request, for an operator event only and with its body to its destination.  Then either
  recording failed and nothing changed since the claim, or the attempt that was made is appended to
  the history of this event alone and the claim is released; success is reported only in that case.
\<close>

theorem RunOnce_at_most_once:
  assumes "schema_ok d"
    and "RunOnce (Claim random n locked) (worker_send sender env) (Record nets) worker now d = (r, d', requests)"
  shows "schema_ok d' \<and> length requests \<le> 1 \<and>
    (case Claim random n locked now (wk_lease worker) d of
       (Inr (Some claimed), d1) \<Rightarrow>
         claim_current d1 claimed \<and>
         (\<exists>e \<in> set (events d). ce_id claimed = ev_id e \<and> ce_body claimed = ev_body e \<and> ce_dest claimed = ev_dest e \<and>
            ce_sandbox claimed = (ev_sandbox e \<noteq> None)) \<and>
         requests = snd (Send sender env claimed) \<and>
         (\<forall>q \<in> set requests. \<not> ce_sandbox claimed \<and> rq_url q = ce_dest claimed \<and> rq_body q = ce_body claimed) \<and>
         event_attempts d1 = event_attempts d \<and>
         ((\<exists>e. r = Inl (Record_Error e)) \<and> d' = d1 \<or>
          (r = Inr True \<or> (\<exists>e. r = Inl (Record_Error e))) \<and> \<not> claim_current d' claimed \<and>
          event_attempts d' = (event_attempts d)(ce_id claimed := event_attempts d (ce_id claimed) @
            [attempt_row_of claimed (fst (Send sender env claimed))]))
     | (Inr None, d1) \<Rightarrow> r = Inr False \<and> requests = [] \<and> d' = d1 \<and> event_attempts d' = event_attempts d
     | (Inl e, d1) \<Rightarrow> r = Inl (Claim_Error e) \<and> requests = [] \<and> d' = d1 \<and> event_attempts d' = event_attempts d)"
proof (intro conjI)
  show "schema_ok d'" by (rule pg_queue.run_once_inv [OF assms])
  show "length requests \<le> 1"
    using pg_queue.run_once_bounded [OF assms] Send_requests by (auto simp: worker_send_def)
  have same: "event_attempts d1 = event_attempts d" if "Claim random n locked now l d = (res, d1)" for l res d1
    using Claim_attempts [OF assms(1) that] by (simp add: event_attempts_def fun_eq_iff)
  note facts = Claim_origin [OF assms(1)] Claim_current [OF assms(1)]
  show "case Claim random n locked now (wk_lease worker) d of
       (Inr (Some claimed), d1) \<Rightarrow>
         claim_current d1 claimed \<and>
         (\<exists>e \<in> set (events d). ce_id claimed = ev_id e \<and> ce_body claimed = ev_body e \<and> ce_dest claimed = ev_dest e \<and>
            ce_sandbox claimed = (ev_sandbox e \<noteq> None)) \<and>
         requests = snd (Send sender env claimed) \<and>
         (\<forall>q \<in> set requests. \<not> ce_sandbox claimed \<and> rq_url q = ce_dest claimed \<and> rq_body q = ce_body claimed) \<and>
         event_attempts d1 = event_attempts d \<and>
         ((\<exists>e. r = Inl (Record_Error e)) \<and> d' = d1 \<or>
          (r = Inr True \<or> (\<exists>e. r = Inl (Record_Error e))) \<and> \<not> claim_current d' claimed \<and>
          event_attempts d' = (event_attempts d)(ce_id claimed := event_attempts d (ce_id claimed) @
            [attempt_row_of claimed (fst (Send sender env claimed))]))
     | (Inr None, d1) \<Rightarrow> r = Inr False \<and> requests = [] \<and> d' = d1 \<and> event_attempts d' = event_attempts d
     | (Inl e, d1) \<Rightarrow> r = Inl (Claim_Error e) \<and> requests = [] \<and> d' = d1 \<and> event_attempts d' = event_attempts d"
    using assms(2)
  proof (cases rule: RunOnce_cases)
    case (record_failed claimed att s1 e)
    have "d' = s1 \<or> \<not> claim_current d' claimed \<and> event_attempts d' = (event_attempts d)(ce_id claimed :=
        event_attempts d (ce_id claimed) @ [attempt_row_of claimed att])"
      using pg_queue.recorded_entry [OF assms(1) record_failed(1,3)] by blast
    with record_failed facts [OF record_failed(1)] Send_request_of_claim same [OF record_failed(1)] show ?thesis
      by (auto simp: worker_send_def)
  next
    case (recorded claimed att s1)
    with pg_queue.recorded_entry [OF assms(1) recorded(1,3)] facts [OF recorded(1)] Send_request_of_claim same [OF recorded(1)] show ?thesis
      by (auto simp: worker_send_def)
  next
    case (no_attempt claimed)
    then show ?thesis by (simp add: worker_send_def case_prod_beta)
  qed (use same in simp_all)
qed

lemma Send_status:
  assumes "\<And>rq resp. sv_do env rq = Some resp \<Longrightarrow> 100 \<le> rs_status resp \<and> rs_status resp \<le> 599"
    and "an_status (fst (Send sender env claimed)) = Some w"
  shows "100 \<le> uint w \<and> uint w \<le> 599"
  using assms(2)
  by (auto simp: Send_def Let_def sandbox_attempt_def sandbox_status_def network_attempt_def uint_word_of_int
      split: if_splits option.splits dest!: assms(1))

lemma Send_times: "sv_now env 0 \<le> sv_now env 1 \<Longrightarrow>
    an_started (fst (Send sender env claimed)) \<le> an_finished (fst (Send sender env claimed))"
  by (auto simp: Send_def Let_def sandbox_attempt_def network_attempt_def split: option.splits)

lemma record_row_claimed:
  assumes "candidate locked now d = Some e" 
  shows "record_row (claimed_of cid (take_lease l cid e)) att (claim_row locked now l cid d e)
    = finish_event (claimed_of cid (take_lease l cid e)) att (take_lease l cid e)"
  using assms by (simp add: record_row_def claim_row_def holds_claim_def)

text \<open>The run that sends the best candidate.\<close>

lemma RunOnce_completes:
  fixes now lease random e sender env
  defines "cid \<equiv> the (NewUUID (Some random))"
  defines "taken \<equiv> take_lease (pg_time (now + lease)) cid e"
  defines "claimed \<equiv> claimed_of cid taken"
  defines "att \<equiv> fst (Send sender env claimed)"
  assumes "store_ok d" and "candidate locked (pg_time now) d = Some e" and "\<forall>k. nets k = Done"
    and "\<forall>rq resp. sv_do env rq = Some resp \<longrightarrow> 100 \<le> rs_status resp \<and> rs_status resp \<le> 599"
    and "sv_now env 0 \<le> sv_now env 1" and "an_id att \<notin> at_id ` set (attempts d)"
  shows "\<exists>d'. RunOnce (Claim (Some random) Done locked) (worker_send sender env) (Record nets)
        \<lparr> wk_lease = lease \<rparr> now d = (Inr True, d', snd (Send sender env claimed)) \<and>
      finish_event claimed att taken \<in> set (events d') \<and>
      attempts d' = attempts d @ [attempt_row_of claimed att]"
proof -
  obtain cid' where cid: "NewUUID (Some random) = Some cid'" by (rule NewUUID_Some)
  then have cid: "NewUUID (Some random) = Some cid" by (simp add: cid_def)
  have ok: "schema_ok d" "lifecycle_ok d" using assms(5) by (simp_all add: store_ok_def)
  let ?d1 = "d\<lparr>events := map (claim_row locked (pg_time now) (pg_time (now + lease)) cid d) (events d)\<rparr>"
  have claim: "Claim (Some random) Done locked now lease d = (Inr (Some claimed), ?d1)"
    using claim_statement_ok(1) [OF ok, of locked "pg_time now" "pg_time (now + lease)" cid] assms(6)
    by (simp add: Claim_def cid autocommit_alt claim_statement_eq [OF ok(1)] claimed_def taken_def)
  have d1: "store_ok ?d1" "claim_current ?d1 claimed" "claim_consistent ?d1 claimed"
    using Claim_inv [OF assms(5) claim] Claim_current [OF ok(1) claim] Claim_consistent [OF ok(1) claim] by auto
  have check: "event_check taken" "lifecycle_row taken"
    using take_lease_ok schema_ok_event_check [OF ok(1)] lifecycle_okD [OF ok(2)] candidate_SomeD(1,2) [OF assms(6)]
    unfolding taken_def by blast+
  then have num: "uint (ce_replay claimed) \<le> 16 \<and> 1 \<le> uint (ce_attempt claimed) \<and> uint (ce_attempt claimed) \<le> 8"
    using claimed_of_numbers [OF check(1), of cid]
    by (auto simp: claimed_def event_check_def lifecycle_row_def taken_def)
  have row: "attempt_check (attempt_row_of claimed att)"
    unfolding att_def
    by (rule attempt_row_check [OF Send_shape Send_excerpt])
      (use num Send_status [of env sender claimed] Send_times [OF assms(9)] assms(8) in auto)
  have "Record nets claimed att ?d1 = (Inr (), recorded claimed att ?d1)"
    by (rule Record_done [OF d1 row _ assms(7)]) (use assms(10) in simp)
  then have run: "RunOnce (Claim (Some random) Done locked) (worker_send sender env) (Record nets)
        \<lparr> wk_lease = lease \<rparr> now d = (Inr True, recorded claimed att ?d1, snd (Send sender env claimed))"
    using claim by (simp add: RunOnce_def worker_send_def att_def)
  moreover have "finish_event claimed att taken \<in> set (events (recorded claimed att ?d1))"
    using candidate_SomeD(1) [OF assms(6)] record_row_claimed [OF assms(6), of cid "pg_time (now + lease)" att]
    by (auto simp: recorded_def claimed_def taken_def intro!: image_eqI [of _ _ e])
  ultimately show ?thesis by (auto simp: recorded_def)
qed

text \<open>
  C13: a run that finds a due event makes progress: it sends the claim of one, the row leaves the delivering state
  for the one its outcome calls for, without claim or lease, with the attempt counted, due again when
  the schedule says so, and with the time of the delivery exactly when it was delivered, and one
  attempt row is appended.  The database and the random source answer, a response has a status from
  100 to 599, the worker's clock does not step back while it sends, and the attempt's identifier is new.
\<close>

theorem RunOnce_progress:
  assumes "store_ok d" and "due \<in> set (events d)" and "due_event d (pg_time now) due" and "\<not> locked (ev_id due)"
    and "\<forall>k. nets k = Done"
    and "\<forall>rq resp. sv_do env rq = Some resp \<longrightarrow> 100 \<le> rs_status resp \<and> rs_status resp \<le> 599"
    and "sv_now env 0 \<le> sv_now env 1"
    and "\<forall>c. ce_claim c = the (NewUUID (Some random)) \<longrightarrow> an_id (fst (Send sender env c)) \<notin> at_id ` set (attempts d)"
  shows "\<exists>claimed d' e e' a. RunOnce (Claim (Some random) Done locked) (worker_send sender env) (Record nets)
        \<lparr> wk_lease = lease \<rparr> now d = (Inr True, d', snd (Send sender env claimed)) \<and>
      e \<in> set (events d) \<and> due_event d (pg_time now) e \<and> \<not> locked (ev_id e) \<and>
      ce_id claimed = ev_id e \<and> ce_body claimed = ev_body e \<and> ce_dest claimed = ev_dest e \<and>
      attempts d' = attempts d @ [a] \<and> at_event a = ev_id e \<and> at_replay a = ev_replays e \<and>
      at_outcome a = an_outcome (fst (Send sender env claimed)) \<and>
      e' \<in> set (events d') \<and> ev_id e' = ev_id e \<and> ev_claim e' = None \<and> ev_lease e' = None \<and>
      ev_attempts e' = at_number a \<and> ev_next e' = pg_time (an_next (fst (Send sender env claimed))) \<and>
      ev_delivered e' = (if at_outcome a = Outcome_Delivered
        then Some (pg_time (an_finished (fst (Send sender env claimed)))) else None) \<and>
      ev_state e' =
        (if at_outcome a = Outcome_Delivered then Delivered
         else if at_outcome a = Terminal_HTTP \<or> 8 \<le> at_number a \<or>
           24 * hour \<le> time_sub (an_finished (fst (Send sender env claimed))) (ev_created e) then Dead_Lettered
         else Retry_Scheduled)"
proof -
  have ok: "schema_ok d" "lifecycle_ok d" using assms(1) by (simp_all add: store_ok_def)
  obtain e where e: "candidate locked (pg_time now) d = Some e"
    using assms(2-4) candidate_None_iff [of locked "pg_time now" d] by (cases "candidate locked (pg_time now) d")
      (auto simp: due_event_iff)
  note sel = candidate_SomeD [OF e]
  define taken where "taken = take_lease (pg_time (now + lease)) (the (NewUUID (Some random))) e"
  define claimed where "claimed = claimed_of (the (NewUUID (Some random))) taken"
  define att where "att = fst (Send sender env claimed)"
  have "ce_claim claimed = the (NewUUID (Some random))" by (simp add: claimed_def claimed_of_def)
  then have "an_id att \<notin> at_id ` set (attempts d)" using assms(8) by (simp add: att_def)
  then obtain d' where run: "RunOnce (Claim (Some random) Done locked) (worker_send sender env) (Record nets)
        \<lparr> wk_lease = lease \<rparr> now d = (Inr True, d', snd (Send sender env claimed))"
    and row: "finish_event claimed att taken \<in> set (events d')"
    and log: "attempts d' = attempts d @ [attempt_row_of claimed att]"
    using RunOnce_completes [OF assms(1) e assms(5-7), of sender random lease]
    by (auto simp: taken_def claimed_def att_def)
  have check: "event_check taken"
    using take_lease_ok schema_ok_event_check [OF ok(1)] lifecycle_okD [OF ok(2)] sel(1,2)
    unfolding taken_def by blast
  have num: "uint (ce_attempt claimed) = ev_attempts taken" "uint (ce_replay claimed) = ev_replays e"
    "ce_id claimed = ev_id e" "ce_created claimed = ev_created e" "ce_body claimed = ev_body e" "ce_dest claimed = ev_dest e"
    using claimed_of_numbers [OF check, of "the (NewUUID (Some random))"]
    by (simp_all add: claimed_def taken_def)
  have "ev_state (finish_event claimed att taken) =
      (if an_outcome att = Outcome_Delivered then Delivered
       else if an_outcome att = Terminal_HTTP \<or> 8 \<le> ev_attempts taken \<or>
         24 * hour \<le> time_sub (an_finished att) (ev_created e) then Dead_Lettered
       else Retry_Scheduled)"
    using num(1) by (auto simp: record_state_def CanRetryAt_def CanRetry_iff num(4))
  moreover have "ev_delivered taken = None"
    using lifecycle_okD [OF ok(2) sel(1)] sel(2)
    by (auto simp: taken_def take_lease_def lifecycle_row_def candidate_where_def waiting_def)
  then have "ev_delivered (finish_event claimed att taken) =
      (if an_outcome att = Outcome_Delivered then Some (pg_time (an_finished att)) else None)"
    by (simp add: finish_event_def record_state_def)
  ultimately show ?thesis
    using run row log num sel
    by (intro exI [of _ claimed] exI [of _ d'] exI [of _ e] exI [of _ "finish_event claimed att taken"]
        exI [of _ "attempt_row_of claimed att"])
      (simp add: due_event_iff att_def [symmetric] attempt_row_of_def finish_event_def taken_def)
qed

theorem RunOnce_at_most_once_witness:
  "length (snd (snd (RunOnce (Claim (Some (replicate 16 0)) Failed (\<lambda>_. False))
      (worker_send sample_sender sample_env) (Record (\<lambda>_. Lost)) \<lparr> wk_lease = 30 * second \<rparr> 0 sample_db))) \<le> 1"
proof -
  obtain r d' rq where run: "RunOnce (Claim (Some (replicate 16 0)) Failed (\<lambda>_. False))
      (worker_send sample_sender sample_env) (Record (\<lambda>_. Lost)) \<lparr> wk_lease = 30 * second \<rparr> 0 sample_db = (r, d', rq)"
    by (metis prod_cases3)
  have "schema_ok sample_db" using sample_db_ok by (simp add: store_ok_def)
  from RunOnce_at_most_once [OF this run] run show ?thesis by simp
qed

theorem RunOnce_progress_witness:
  "\<exists>d' requests. RunOnce (Claim (Some (replicate 16 0)) Done (\<lambda>_. False)) (worker_send sample_sender sample_env)
      (Record (\<lambda>_. Done)) \<lparr> wk_lease = 30 * second \<rparr> 0 sample_db = (Inr True, d', requests) \<and> length (attempts d') = 1"
proof -
  have none: "attempts sample_db = []" by (simp add: sample_db_def empty_db_def)
  have due: "sample_event \<in> set (events sample_db)" "due_event sample_db (pg_time 0) sample_event"
    using candidate_SomeD [OF sample_candidate] by (auto simp: due_event_iff)
  have env: "\<forall>k. (\<lambda>_. Done) (k :: nat) = Done"
    "\<forall>rq resp. sv_do sample_env rq = Some resp \<longrightarrow> 100 \<le> rs_status resp \<and> rs_status resp \<le> 599"
    "sv_now sample_env 0 \<le> sv_now sample_env 1"
    by (simp_all add: sample_env_def)
  have unlocked: "\<not> (\<lambda>_ :: string. False) (ev_id sample_event)" by simp
  have fresh: "\<forall>c. ce_claim c = the (NewUUID (Some (replicate 16 0))) \<longrightarrow>
      an_id (fst (Send sample_sender sample_env c)) \<notin> at_id ` set (attempts sample_db)"
    by (simp add: none)
  obtain claimed d' a where "RunOnce (Claim (Some (replicate 16 0)) Done (\<lambda>_. False)) (worker_send sample_sender sample_env)
      (Record (\<lambda>_. Done)) \<lparr> wk_lease = 30 * second \<rparr> 0 sample_db = (Inr True, d', snd (Send sample_sender sample_env claimed))"
    "attempts d' = attempts sample_db @ [a]"
    using RunOnce_progress [OF sample_db_ok due unlocked env fresh, of "30 * second"] by blast
  then show ?thesis using none by simp
qed

text \<open>
  Visitors cannot make the relay send anything: every request of a run carries the destination and
  the body of an operator event that was stored before the run.
\<close>

theorem RunOnce_requests_operator:
  assumes "schema_ok d" and "lifecycle_ok d"
    and "RunOnce (Claim random n locked) (worker_send sender env) (Record nets) worker now d = (r, d', requests)"
    and "request \<in> set requests"
  shows "\<exists>e \<in> set (events d). ev_sandbox e = None \<and> rq_url request = ev_dest e \<and> rq_body request = ev_body e"
proof -
  from assms(3,4) obtain claimed s1 where claim: "Claim random n locked now (wk_lease worker) d = (Inr (Some claimed), s1)"
    and sent: "request \<in> set (snd (Send sender env claimed))"
    by (cases rule: RunOnce_cases) (auto simp: worker_send_def)
  from sent have "\<not> ce_sandbox claimed \<and> rq_url request = ce_dest claimed \<and> rq_body request = ce_body claimed"
    by (rule Send_request_of_claim)
  moreover from Claim_origin [OF assms(1) claim] obtain e where "e \<in> set (events d)" "ce_body claimed = ev_body e"
    "ce_dest claimed = ev_dest e" "ce_sandbox claimed = (ev_sandbox e \<noteq> None)" by blast
  ultimately show ?thesis by auto
qed

theorem RunOnce_requests_operator_witness:
  "rq_body ` set (snd (snd (RunOnce (Claim (Some (replicate 16 0)) Done (\<lambda>_. False))
      (worker_send sample_sender sample_env) (Record (\<lambda>_. Lost)) \<lparr> wk_lease = 30 * second \<rparr> 0 sample_db)))
     \<subseteq> {[1, 2, 3]}"
proof (rule image_subsetI)
  let ?run = "RunOnce (Claim (Some (replicate 16 0)) Done (\<lambda>_. False))
      (worker_send sample_sender sample_env) (Record (\<lambda>_. Lost)) \<lparr> wk_lease = 30 * second \<rparr> 0 sample_db"
  fix request assume request: "request \<in> set (snd (snd ?run))"
  obtain r d' rq where run: "?run = (r, d', rq)" by (metis prod_cases3)
  have "schema_ok sample_db" "lifecycle_ok sample_db" using sample_db_ok by (simp_all add: store_ok_def)
  from RunOnce_requests_operator [OF this run] request run show "rq_body request \<in> {[1, 2, 3]}"
    by (auto simp: sample_db_def sample_event_def)
qed

end
