(* ===== verification/Notification.thy ===== *)
theory Notification
  imports Identifier
begin

text \<open>
  The notification hints of \<open>internal/notification\<close>: publishing one after a commit
  (\<open>publish.go\<close>, \<open>Publish\<close> of \<open>queue.go\<close>), acknowledging a batch (\<open>Acknowledge\<close>) and the worker's
  \<open>Cycle\<close> (\<open>cycle.go\<close>).  The SQS client is an argument: what it answers to a send or to a
  deletion.  Panics are \<open>None\<close>.
\<close>

section \<open>Publishing\<close>

definition BatchSize :: nat where "BatchSize = 10"

text \<open>The calls of \<open>Publish\<close> that \<open>AfterCommit\<close> makes, and whether it logs a failure.\<close>

definition AfterCommit :: "(string \<Rightarrow> bool) option \<Rightarrow> string \<Rightarrow> string list \<times> bool" where
  "AfterCommit publisher eventID =
     (case publisher of
        None \<Rightarrow> ([], False)
      | Some publish \<Rightarrow> ([eventID], \<not> publish eventID))"

text \<open>
  What \<open>json.Marshal\<close> makes of a \<open>message\<close>; a valid identifier has no character that JSON
  escapes.  The result is whether the publication succeeded, and the messages handed to the client.
\<close>

definition message_body :: "nat \<Rightarrow> string \<Rightarrow> string" where
  "message_body version event_id =
     ''{\"version\":'' @ format_nat version @ '',\"event_id\":\"'' @ event_id @ ''\"}''"

definition Publish :: "(string \<Rightarrow> string \<Rightarrow> bool) \<Rightarrow> string \<Rightarrow> string \<Rightarrow> bool \<times> (string \<times> string) list" where
  "Publish SendMessage url eventID =
     (if \<not> ValidUUID eventID then (False, [])
      else let body = message_body 1 eventID
           in (SendMessage url body, [(url, body)]))"

section \<open>Acknowledging\<close>

record batch =
  bt_handles :: "string list"
  bt_count :: nat

definition empty_batch :: batch where
  "empty_batch = \<lparr> bt_handles = replicate BatchSize [], bt_count = 0 \<rparr>"

text \<open>
  The client's answer to a deletion: \<open>None\<close> for an error or an empty result, otherwise the
  numbers of failed and of successful entries.
\<close>

definition Acknowledge ::
  "(string \<Rightarrow> (string \<times> string) list \<Rightarrow> (nat \<times> nat) option) \<Rightarrow> string \<Rightarrow> batch \<Rightarrow>
   (bool \<times> (string \<times> string) list) option" where
  "Acknowledge DeleteMessageBatch url b =
     (if bt_count b > BatchSize then None
      else if bt_count b = 0 then Some (True, [])
      else
        let entries = map (\<lambda>index. (format_nat index, bt_handles b ! index)) [0..<bt_count b]
        in (case DeleteMessageBatch url entries of
              None \<Rightarrow> Some (False, entries)
            | Some (failed, successful) \<Rightarrow>
                if failed > 0 \<or> successful \<noteq> bt_count b then Some (False, entries)
                else Some (True, entries)))"

section \<open>The cycle of the worker\<close>

text \<open>
  A runner and a consumer are their methods on the state they share with nothing else: the
  runner's is \<open>'s\<close>, the consumer's \<open>'q\<close>.  The \<open>k\<close>-th iteration runs in its own environment:
  \<open>ctx_err k\<close> is the context's error there, \<open>now k\<close> the clock, and \<open>run_once k\<close> the runner.
\<close>

datatype 'e cycle_error = Context_Error | Runner_Error 'e | Receive_Error | Acknowledge_Error

record 'q consumer =
  cn_receive :: "'q \<Rightarrow> batch option \<times> 'q"
  cn_acknowledge :: "batch \<Rightarrow> 'q \<Rightarrow> bool \<times> 'q"

fun cycle_runs ::
  "(nat \<Rightarrow> bool) \<Rightarrow> (nat \<Rightarrow> time) \<Rightarrow> (nat \<Rightarrow> time \<Rightarrow> 's \<Rightarrow> ('e + bool) \<times> 's) \<Rightarrow> nat \<Rightarrow> nat \<Rightarrow> 's \<Rightarrow>
   ('e cycle_error + unit) \<times> 's" where
  "cycle_runs ctx_err now run_once index 0 s = (Inr (), s)"
| "cycle_runs ctx_err now run_once index (Suc left) s =
     (if ctx_err index then (Inl Context_Error, s)
      else case run_once index (now index) s of
             (Inl e, s1) \<Rightarrow> (Inl (Runner_Error e), s1)
           | (Inr False, s1) \<Rightarrow> (Inr (), s1)
           | (Inr True, s1) \<Rightarrow> cycle_runs ctx_err now run_once (Suc index) left s1)"

definition Cycle ::
  "(nat \<Rightarrow> bool) \<Rightarrow> (nat \<Rightarrow> time) \<Rightarrow> (nat \<Rightarrow> time \<Rightarrow> 's \<Rightarrow> ('e + bool) \<times> 's) \<Rightarrow> 'q consumer option \<Rightarrow>
   's \<Rightarrow> 'q \<Rightarrow> ('e cycle_error + unit) \<times> 's \<times> 'q" where
  "Cycle ctx_err now run_once queue s q =
     (let (received, q1) = (case queue of
            None \<Rightarrow> (Some empty_batch, q)
          | Some c \<Rightarrow> cn_receive c q)
      in case cycle_runs ctx_err now run_once 0 BatchSize s of
           (Inl e, s1) \<Rightarrow> (Inl e, s1, q1)
         | (Inr _, s1) \<Rightarrow>
             (case (queue, received) of
                (None, _) \<Rightarrow> (Inr (), s1, q1)
              | (Some c, None) \<Rightarrow> (Inl Receive_Error, s1, q1)
              | (Some c, Some b) \<Rightarrow>
                  (case cn_acknowledge c b q1 of
                     (True, q2) \<Rightarrow> (Inr (), s1, q2)
                   | (False, q2) \<Rightarrow> (Inl Acknowledge_Error, s1, q2))))"

section \<open>What a cycle does\<close>

lemma cycle_state:
  "fst (snd (Cycle ctx_err now run_once queue s q)) = snd (cycle_runs ctx_err now run_once 0 BatchSize s)"
  by (auto simp: Cycle_def Let_def split: option.splits prod.splits sum.splits bool.splits)

lemma cycle_result_Inr:
  "Cycle ctx_err now run_once queue s q = (Inr (), s', q') \<Longrightarrow>
     cycle_runs ctx_err now run_once 0 BatchSize s = (Inr (), s')"
  by (auto simp: Cycle_def Let_def split: option.splits prod.splits sum.splits bool.splits)

text \<open>
  The contract between the cycle and whatever it runs: an invariant, and a measure of the work that
  a single run may do.
\<close>

locale bounded_runner =
  fixes run_once :: "nat \<Rightarrow> time \<Rightarrow> 's \<Rightarrow> ('e + bool) \<times> 's"
    and inv :: "'s \<Rightarrow> bool"
    and work :: "'s \<Rightarrow> nat"
  assumes run_inv: "inv s \<Longrightarrow> run_once k t s = (r, s') \<Longrightarrow> inv s'"
    and run_work: "inv s \<Longrightarrow> run_once k t s = (r, s') \<Longrightarrow> work s' \<le> Suc (work s)"
begin

lemma runs_inv: "inv s \<Longrightarrow> cycle_runs ctx_err now run_once k n s = (r, s') \<Longrightarrow> inv s'"
proof (induction n arbitrary: k s)
  case (Suc n)
  from Suc.prems show ?case
    by (auto split: if_splits prod.splits sum.splits bool.splits
        intro: Suc.IH run_inv [OF Suc.prems(1)])
qed simp

lemma runs_work: "inv s \<Longrightarrow> cycle_runs ctx_err now run_once k n s = (r, s') \<Longrightarrow> work s' \<le> work s + n"
proof (induction n arbitrary: k s)
  case (Suc n)
  obtain r1 s1 where run: "run_once k (now k) s = (r1, s1)" by fastforce
  show ?case
  proof (cases "ctx_err k \<or> r1 \<noteq> Inr True")
    case True
    with Suc.prems(2) run have "s' = s \<or> s' = s1"
      by (auto split: if_splits sum.splits bool.splits)
    with run_work [OF Suc.prems(1) run] show ?thesis by auto
  next
    case False
    with Suc.prems(2) run have "cycle_runs ctx_err now run_once (Suc k) n s1 = (r, s')" by simp
    from Suc.IH [OF run_inv [OF Suc.prems(1) run] this] run_work [OF Suc.prems(1) run]
    show ?thesis by simp
  qed
qed simp

lemma cycle_inv:
  assumes "inv s" and "Cycle ctx_err now run_once queue s q = (r, s', q')"
  shows "inv s'"
  using runs_inv [OF assms(1), of ctx_err now 0 BatchSize] cycle_state [of ctx_err now run_once queue s q] assms(2)
  by (metis fst_conv prod.collapse snd_conv)

lemma cycle_work:
  assumes "inv s" and "Cycle ctx_err now run_once queue s q = (r, s', q')"
  shows "work s' \<le> work s + BatchSize"
  using runs_work [OF assms(1), of ctx_err now 0 BatchSize] cycle_state [of ctx_err now run_once queue s q] assms(2)
  by (metis fst_conv prod.collapse snd_conv)

end

text \<open>A runner whose success means one unit of work, and whose \<open>false\<close> means there was none to do.\<close>

locale draining_runner = bounded_runner run_once inv work
  for run_once :: "nat \<Rightarrow> time \<Rightarrow> 's \<Rightarrow> ('e + bool) \<times> 's" and inv :: "'s \<Rightarrow> bool" and work :: "'s \<Rightarrow> nat" +
  fixes idle :: "nat \<Rightarrow> time \<Rightarrow> 's \<Rightarrow> bool"
  assumes run_idle: "inv s \<Longrightarrow> run_once k t s = (Inr False, s') \<Longrightarrow> idle k t s'"
    and run_done: "inv s \<Longrightarrow> run_once k t s = (Inr True, s') \<Longrightarrow> work s' = Suc (work s)"
begin

lemma runs_complete:
  "inv s \<Longrightarrow> cycle_runs ctx_err now run_once k n s = (Inr (), s') \<Longrightarrow>
     work s' = work s + n \<or> (\<exists>j. k \<le> j \<and> j < k + n \<and> idle j (now j) s')"
proof (induction n arbitrary: k s)
  case (Suc n)
  obtain r1 s1 where run: "run_once k (now k) s = (r1, s1)" by fastforce
  from Suc.prems(2) run have no: "\<not> ctx_err k" by (auto split: if_splits)
  show ?case
  proof (cases "r1 = Inr True")
    case True
    with Suc.prems(2) run no have rest: "cycle_runs ctx_err now run_once (Suc k) n s1 = (Inr (), s')" by simp
    from Suc.IH [OF run_inv [OF Suc.prems(1) run] rest] run_done [OF Suc.prems(1)] run True
    show ?thesis by (metis Suc_leD add_Suc_right add_Suc)
  next
    case False
    with Suc.prems(2) run no have "r1 = Inr False \<and> s' = s1"
      by (auto split: sum.splits bool.splits)
    with run run_idle [OF Suc.prems(1)] show ?thesis by force
  qed
qed simp

lemma cycle_complete:
  assumes "inv s" and "Cycle ctx_err now run_once queue s q = (Inr (), s', q')"
  shows "work s' = work s + BatchSize \<or> (\<exists>j < BatchSize. idle j (now j) s')"
  using runs_complete [OF assms(1) cycle_result_Inr [OF assms(2)]] by auto

end

text \<open>
  Hints never decide anything.  Whatever the notification queue delivers, and whether it answers at
  all, a cycle leaves the store it works on in the same state as a cycle without a queue; and a
  batch is acknowledged only after every run of the cycle came back without an error.
\<close>

theorem Cycle_ignores_hints:
  "fst (snd (Cycle ctx_err now run_once (Some c) s q)) = fst (snd (Cycle ctx_err now run_once None s q)) \<and>
   (case fst (Cycle ctx_err now run_once None s q) of
      Inl e \<Rightarrow> Cycle ctx_err now run_once (Some c) s q =
        (Inl e, fst (snd (Cycle ctx_err now run_once None s q)), snd (cn_receive c q))
    | Inr _ \<Rightarrow> fst (cn_receive c q) = None \<longrightarrow>
        fst (Cycle ctx_err now run_once (Some c) s q) = Inl Receive_Error)"
  unfolding cycle_state
  by (auto simp: Cycle_def Let_def split: option.splits prod.splits sum.splits bool.splits)

theorem Cycle_ignores_hints_witness:
  "fst (Cycle (\<lambda>_. False) (\<lambda>_. 0) (\<lambda>_ _ s. (Inr False :: nat + bool, s))
     (Some \<lparr> cn_receive = (\<lambda>q. (None, q)), cn_acknowledge = (\<lambda>_ q. (False, q)) \<rparr>) (0 :: nat) (0 :: nat)) = Inl Receive_Error"
proof -
  let ?c = "\<lparr> cn_receive = (\<lambda>q :: nat. (None, q)), cn_acknowledge = (\<lambda>_ q. (False, q)) \<rparr>"
  have "fst (Cycle (\<lambda>_. False) (\<lambda>_. 0) (\<lambda>_ _ s. (Inr False :: nat + bool, s)) None (0 :: nat) (0 :: nat)) = Inr ()"
    by (simp add: Cycle_def BatchSize_def Let_def eval_nat_numeral)
  with Cycle_ignores_hints [of "\<lambda>_. False" "\<lambda>_. 0" "\<lambda>_ _ s. (Inr False :: nat + bool, s)" ?c "0 :: nat" "0 :: nat"]
  show ?thesis by (simp only: sum.case fst_conv consumer.simps simp_thms)
qed

text \<open>The acknowledged entries: one per handle, with pairwise different identifiers.\<close>

lemma format_nat_inj: "format_nat a = format_nat b \<Longrightarrow> a = b"
  by (metis option.inject parse_digits_format)

text \<open>What an acknowledgement asks for, and when it succeeds.\<close>

lemma Acknowledge_exact:
  assumes "bt_count b \<le> BatchSize" and "length (bt_handles b) = BatchSize"
  shows "\<exists>ok entries. Acknowledge del url b = Some (ok, entries) \<and>
    map snd entries = take (bt_count b) (bt_handles b) \<and> distinct (map fst entries) \<and>
    (ok \<longleftrightarrow> bt_count b = 0 \<or> del url entries = Some (0, bt_count b))"
proof -
  let ?e = "map (\<lambda>index. (format_nat index, bt_handles b ! index)) [0..<bt_count b]"
  have handles: "map snd ?e = take (bt_count b) (bt_handles b)"
    using assms by (auto intro!: nth_equalityI)
  have ids: "distinct (map fst ?e)"
    by (auto simp: distinct_map inj_on_def dest: format_nat_inj)
  show ?thesis
  proof (cases "bt_count b = 0")
    case True
    with assms have "Acknowledge del url b = Some (True, [])" by (simp add: Acknowledge_def)
    with True show ?thesis by (auto intro!: exI [of _ True])
  next
    case False
    with assms(1) have "Acknowledge del url b = Some (del url ?e = Some (0, bt_count b), ?e)"
      by (auto simp: Acknowledge_def Let_def split: option.splits)
    then show ?thesis
      using handles ids False by (auto simp del: map_map)
  qed
qed

end
