(* ===== verification/Worker_Cycle.thy ===== *)
theory Worker_Cycle
  imports Delivery_Run Notification
begin

text \<open>
  The worker process as \<open>cmd/worker/main.go\<close> composes it: \<open>Cycle\<close> of
  \<open>internal/notification/cycle.go\<close> running the delivery worker of \<open>Delivery_Run\<close>.  The state is the
  database and the requests sent so far; \<open>ws k\<close> is the environment of the \<open>k\<close>-th run.
\<close>

record run_env =
  re_random :: "bytes option"
  re_claim_net :: net
  re_locked :: "string \<Rightarrow> bool"
  re_record_nets :: "nat \<Rightarrow> net"
  re_send :: send_env

definition worker_run ::
  "http_sender \<Rightarrow> worker \<Rightarrow> (nat \<Rightarrow> run_env) \<Rightarrow> nat \<Rightarrow> time \<Rightarrow> db \<times> http_request list \<Rightarrow>
   (store_error worker_error + bool) \<times> db \<times> http_request list" where
  "worker_run sender worker ws k now s =
     (let (r, d', requests) = RunOnce (Claim (re_random (ws k)) (re_claim_net (ws k)) (re_locked (ws k)))
            (worker_send sender (re_send (ws k))) (Record (re_record_nets (ws k))) worker now (fst s)
      in (r, d', snd s @ requests))"

text \<open>No unlocked row is due: what an idle claim finds, and leaves.\<close>

definition nothing_due :: "(nat \<Rightarrow> run_env) \<Rightarrow> nat \<Rightarrow> time \<Rightarrow> db \<times> http_request list \<Rightarrow> bool" where
  "nothing_due ws k now s \<longleftrightarrow>
     (\<forall>e \<in> set (events (fst s)). candidate_where (fst s) (pg_time now) e \<longrightarrow> re_locked (ws k) (ev_id e))"

lemma Claim_idle_due:
  assumes "schema_ok d" and "Claim random n locked now lease d = (Inr None, d')"
    and "e \<in> set (events d')" and "candidate_where d' (pg_time now) e"
  shows "locked (ev_id e)"
  using assms(1,2)
proof (cases rule: Claim_cases)
  case (applied cid)
  then have none: "candidate locked (pg_time now) d = None"
    by (cases "candidate locked (pg_time now) d") auto
  obtain e0 where e0: "e0 \<in> set (events d)" "e = claim_row locked (pg_time now) (pg_time (now + lease)) cid d e0"
    using assms(3) applied(2) by auto
  have live: "session_live d' = session_live d" using applied(2) by (simp add: session_live_def fun_eq_iff)
  have same: "candidate_where d' = candidate_where d"
    unfolding candidate_where_def [abs_def] live ..
  from assms(1) e0(1) show ?thesis
  proof (cases rule: claim_row_cases [where locked = locked and now = "pg_time now" and
        l = "pg_time (now + lease)" and cid = cid])
    case leased
    with none show ?thesis by simp
  next
    case retired
    with e0(2) assms(4) show ?thesis by (simp add: candidate_where_def waiting_def)
  next
    case unchanged
    with none e0 assms(4) same show ?thesis by (simp add: candidate_None_iff)
  qed
qed auto

lemma RunOnce_attempts:
  assumes "schema_ok d"
    and "RunOnce (Claim random n locked) send (Record nets) worker now d = (r, d', requests)"
  shows "length (attempts d') \<le> Suc (length (attempts d)) \<and>
    (r = Inr True \<longrightarrow> length (attempts d') = Suc (length (attempts d)))"
proof -
  have rec: "attempts d2 = attempts d1 \<and> res \<noteq> Inr () \<or> length (attempts d2) = Suc (length (attempts d1))"
    if "schema_ok d1" "Record nets c att d1 = (res, d2)" for d1 d2 c att res
    using that by (cases rule: Record_cases) (auto simp: recorded_def)
  have ok: "schema_ok s1" if "Claim random n locked now l d = (r1, s1)" for r1 s1 l
    by (rule pg_queue.claim_inv [OF assms(1) that])
  from assms(2) show ?thesis
  proof (cases rule: RunOnce_cases)
    case (record_failed claimed att s1 e)
    with rec [OF ok [OF record_failed(1)] record_failed(3)] Claim_attempts [OF assms(1) record_failed(1)]
    show ?thesis by auto
  next
    case (recorded claimed att s1)
    with rec [OF ok [OF recorded(1)] recorded(3)] Claim_attempts [OF assms(1) recorded(1)]
    show ?thesis by auto
  qed (use Claim_attempts [OF assms(1)] in auto)
qed

lemma worker_run_RunOnce:
  assumes "worker_run sender worker ws k now s = (r, s')"
  obtains requests where "RunOnce (Claim (re_random (ws k)) (re_claim_net (ws k)) (re_locked (ws k)))
      (worker_send sender (re_send (ws k))) (Record (re_record_nets (ws k))) worker now (fst s) = (r, fst s', requests)"
    and "snd s' = snd s @ requests"
proof -
  let ?run = "RunOnce (Claim (re_random (ws k)) (re_claim_net (ws k)) (re_locked (ws k)))
      (worker_send sender (re_send (ws k))) (Record (re_record_nets (ws k))) worker now (fst s)"
  obtain r0 d0 rq where run: "?run = (r0, d0, rq)" by (metis prod_cases3)
  with assms have "r = r0" "s' = (d0, snd s @ rq)" by (simp_all add: worker_run_def)
  with run show ?thesis by (intro that) simp_all
qed

interpretation requests: bounded_runner "worker_run sender worker ws" "\<lambda>s. schema_ok (fst s)" "\<lambda>s. length (snd s)"
  for sender worker ws
proof unfold_locales
  fix s k t r s'
  assume s: "schema_ok (fst s)" "worker_run sender worker ws k t s = (r, s')"
  from s(2) obtain rq where run: "RunOnce (Claim (re_random (ws k)) (re_claim_net (ws k)) (re_locked (ws k)))
      (worker_send sender (re_send (ws k))) (Record (re_record_nets (ws k))) worker t (fst s) = (r, fst s', rq)"
    and rq: "snd s' = snd s @ rq" by (rule worker_run_RunOnce)
  show "schema_ok (fst s')" by (rule pg_queue.run_once_inv [OF s(1) run])
  have "length rq \<le> 1"
    using pg_queue.run_once_bounded [OF s(1) run] Send_requests by (auto simp: worker_send_def)
  then show "length (snd s') \<le> Suc (length (snd s))" by (simp add: rq)
qed

interpretation recorded: draining_runner "worker_run sender worker ws" "\<lambda>s. schema_ok (fst s)"
    "\<lambda>s. length (attempts (fst s))" "nothing_due ws"
  for sender worker ws
proof unfold_locales
  fix s k t r s'
  assume s: "schema_ok (fst s)" "worker_run sender worker ws k t s = (r, s')"
  from s(2) obtain rq where run: "RunOnce (Claim (re_random (ws k)) (re_claim_net (ws k)) (re_locked (ws k)))
      (worker_send sender (re_send (ws k))) (Record (re_record_nets (ws k))) worker t (fst s) = (r, fst s', rq)"
    by (rule worker_run_RunOnce)
  show "schema_ok (fst s')" by (rule pg_queue.run_once_inv [OF s(1) run])
  show "length (attempts (fst s')) \<le> Suc (length (attempts (fst s)))"
    using RunOnce_attempts [OF s(1) run] by simp
next
  fix s k t s'
  assume s: "schema_ok (fst s)" "worker_run sender worker ws k t s = (Inr False, s')"
  from s(2) obtain rq where run: "RunOnce (Claim (re_random (ws k)) (re_claim_net (ws k)) (re_locked (ws k)))
      (worker_send sender (re_send (ws k))) (Record (re_record_nets (ws k))) worker t (fst s) = (Inr False, fst s', rq)"
    by (rule worker_run_RunOnce)
  then have "Claim (re_random (ws k)) (re_claim_net (ws k)) (re_locked (ws k)) t (wk_lease worker) (fst s) = (Inr None, fst s')"
    by (cases rule: RunOnce_cases) auto
  with Claim_idle_due [OF s(1)] show "nothing_due ws k t s'" by (auto simp: nothing_due_def)
next
  fix s k t s'
  assume s: "schema_ok (fst s)" "worker_run sender worker ws k t s = (Inr True, s')"
  from s(2) obtain rq where run: "RunOnce (Claim (re_random (ws k)) (re_claim_net (ws k)) (re_locked (ws k)))
      (worker_send sender (re_send (ws k))) (Record (re_record_nets (ws k))) worker t (fst s) = (Inr True, fst s', rq)"
    by (rule worker_run_RunOnce)
  then show "length (attempts (fst s')) = Suc (length (attempts (fst s)))"
    using RunOnce_attempts [OF s(1) run] by simp
qed

text \<open>
  One cycle of the worker process sends at most ten requests and records at most ten attempts,
  whatever fails; and when it reports success it has either recorded ten attempts or emptied the
  queue, leaving no unlocked row that was due at the time of its last look.
\<close>

theorem Cycle_bounded_and_draining:
  assumes "schema_ok d"
    and "Cycle ctx_err now (worker_run sender worker ws) queue (d, []) q = (r, (d', sent), q')"
  shows "schema_ok d' \<and> length sent \<le> 10 \<and> length (attempts d') \<le> length (attempts d) + 10 \<and>
    (r = Inr () \<longrightarrow> length (attempts d') = length (attempts d) + 10 \<or>
       (\<exists>j < 10. \<forall>e \<in> set (events d'). due_event d' (pg_time (now j)) e \<longrightarrow> re_locked (ws j) (ev_id e)))"
proof -
  have s: "schema_ok (fst (d, [] :: http_request list))" using assms(1) by simp
  have "schema_ok d'" using requests.cycle_inv [OF s assms(2)] by simp
  moreover have "length sent \<le> 10"
    using requests.cycle_work [OF s assms(2)] by (simp add: BatchSize_def)
  moreover have "length (attempts d') \<le> length (attempts d) + 10"
    using recorded.cycle_work [OF s assms(2)] by (simp add: BatchSize_def)
  moreover have "length (attempts d') = length (attempts d) + 10 \<or>
      (\<exists>j < 10. \<forall>e \<in> set (events d'). due_event d' (pg_time (now j)) e \<longrightarrow> re_locked (ws j) (ev_id e))"
    if "r = Inr ()"
    using recorded.cycle_complete [OF s assms(2) [unfolded that]] by (simp add: BatchSize_def nothing_due_def due_event_iff)
  ultimately show ?thesis by blast
qed

definition sample_run_env :: run_env where
  "sample_run_env = \<lparr> re_random = Some (replicate 16 0), re_claim_net = Done, re_locked = (\<lambda>_. False),
     re_record_nets = (\<lambda>_. Done), re_send = sample_env \<rparr>"

theorem Cycle_bounded_and_draining_witness:
  "\<exists>d' sent. fst (snd (Cycle (\<lambda>_. False) (\<lambda>_. 0) (worker_run sample_sender \<lparr> wk_lease = 30 * second \<rparr> (\<lambda>_. sample_run_env))
      None (sample_db, []) ())) = (d', sent) \<and> schema_ok d' \<and> length sent \<le> 10"
proof -
  let ?run = "Cycle (\<lambda>_. False) (\<lambda>_. 0) (worker_run sample_sender \<lparr> wk_lease = 30 * second \<rparr> (\<lambda>_. sample_run_env))
      None (sample_db, []) ()"
  obtain r d' sent q' where run: "?run = (r, (d', sent), q')" by (metis prod_cases3 surj_pair)
  have "schema_ok sample_db" using sample_db_ok by (simp add: store_ok_def)
  from Cycle_bounded_and_draining [OF this run] run show ?thesis by simp
qed

end
