(* ===== verification/Go_Utf8.thy ===== *)
theory Go_Utf8
  imports Go_Text
begin

text \<open>
  The parts of Go's \<open>unicode/utf8\<close> and \<open>strings\<close> that decide about text: the length of the
  encoding at the front of a byte sequence, \<open>utf8.Valid\<close> and \<open>strings.ToValidUTF8\<close>, which
  replaces every run of invalid bytes by one replacement.
\<close>

definition byte_in :: "nat \<Rightarrow> nat \<Rightarrow> byte \<Rightarrow> bool" where
  "byte_in lo hi b \<longleftrightarrow> lo \<le> unat b \<and> unat b \<le> hi"

definition continuation :: "byte \<Rightarrow> bool" where
  "continuation = byte_in 128 191"

text \<open>The bytes that the second position accepts after a leading byte, and the encoding's length.\<close>

definition utf8_second :: "byte \<Rightarrow> (nat \<times> nat \<times> nat) option" where
  "utf8_second b =
     (if byte_in 0xC2 0xDF b then Some (2, 0x80, 0xBF)
      else if byte_in 0xE0 0xE0 b then Some (3, 0xA0, 0xBF)
      else if byte_in 0xED 0xED b then Some (3, 0x80, 0x9F)
      else if byte_in 0xE1 0xEF b then Some (3, 0x80, 0xBF)
      else if byte_in 0xF0 0xF0 b then Some (4, 0x90, 0xBF)
      else if byte_in 0xF1 0xF3 b then Some (4, 0x80, 0xBF)
      else if byte_in 0xF4 0xF4 b then Some (4, 0x80, 0x8F)
      else None)"

text \<open>The number of bytes of the valid encoding at the front, 0 where there is none.\<close>

definition rune_width :: "bytes \<Rightarrow> nat" where
  "rune_width s =
     (case s of
        [] \<Rightarrow> 0
      | b # r \<Rightarrow>
          if unat b < 0x80 then 1
          else case utf8_second b of
                 None \<Rightarrow> 0
               | Some (n, lo, hi) \<Rightarrow>
                   if n \<le> length s \<and> byte_in lo hi (hd r) \<and> list_all continuation (take (n - 2) (tl r))
                   then n else 0)"

function utf8_valid :: "bytes \<Rightarrow> bool" where
  "utf8_valid [] = True"
| "utf8_valid (b # s) = (rune_width (b # s) \<noteq> 0 \<and> utf8_valid (drop (rune_width (b # s) - 1) s))"
  by pat_completeness auto
termination by (relation "measure length") auto

text \<open>\<open>in_run\<close>: the previous byte was invalid, so its replacement is already written.\<close>

function to_valid_utf8 :: "bytes \<Rightarrow> bool \<Rightarrow> bytes \<Rightarrow> bytes" where
  "to_valid_utf8 replacement in_run [] = []"
| "to_valid_utf8 replacement in_run (b # s) =
     (let n = rune_width (b # s) in
      if n = 0 then (if in_run then [] else replacement) @ to_valid_utf8 replacement True s
      else take n (b # s) @ to_valid_utf8 replacement False (drop (n - 1) s))"
  by pat_completeness auto
termination by (relation "measure (\<lambda>(_, _, s). length s)") auto

text \<open>U+FFFD, the replacement that the program passes.\<close>

definition replacement_character :: bytes where
  "replacement_character = [0xEF, 0xBF, 0xBD]"

lemma utf8_second_width: "utf8_second b = Some (n, lo, hi) \<Longrightarrow> 2 \<le> n \<and> n \<le> 4"
  by (auto simp: utf8_second_def split: if_splits)

lemma rune_width_cases: "rune_width s = 0 \<or> (1 \<le> rune_width s \<and> rune_width s \<le> length s \<and> rune_width s \<le> 4)"
proof (cases s)
  case (Cons b r)
  show ?thesis
  proof (cases "utf8_second b")
    case None
    with Cons show ?thesis by (simp add: rune_width_def)
  next
    case (Some x)
    obtain n lo hi where "x = (n, lo, hi)" by (cases x)
    with Some Cons utf8_second_width [of b n lo hi] show ?thesis
      by (simp add: rune_width_def)
  qed
qed (simp add: rune_width_def)

lemma rune_width_append: "rune_width s \<noteq> 0 \<Longrightarrow> rune_width (take (rune_width s) s @ t) = rune_width s"
proof (cases s)
  case (Cons b r)
  assume nz: "rune_width s \<noteq> 0"
  show ?thesis
  proof (cases "unat b < 0x80")
    case True
    with Cons show ?thesis by (simp add: rune_width_def)
  next
    case False
    with nz Cons obtain n lo hi where snd: "utf8_second b = Some (n, lo, hi)"
      and ok: "n \<le> length s" "byte_in lo hi (hd r)" "list_all continuation (take (n - 2) (tl r))"
      by (auto simp: rune_width_def split: option.splits if_splits)
    then have n: "rune_width s = n" using False Cons by (simp add: rune_width_def)
    have "2 \<le> n" using snd by (auto simp: utf8_second_def split: if_splits)
    then obtain k where k: "n = Suc (Suc k)" by (metis Suc_le_D numeral_2_eq_2 Suc_le_mono)
    then obtain c r' where r: "r = c # r'" using ok(1) Cons by (cases r) auto
    with k ok snd False Cons n show ?thesis by (simp add: rune_width_def)
  qed
qed (simp add: rune_width_def)

lemma utf8_valid_step:
  assumes "rune_width s \<noteq> 0"
  shows "utf8_valid s \<longleftrightarrow> utf8_valid (drop (rune_width s) s)"
proof (cases s)
  case (Cons b r)
  then have "drop (rune_width s) s = drop (rune_width s - 1) r"
    using assms by (metis drop_Cons' )
  with Cons assms show ?thesis by simp
qed simp

lemma utf8_valid_append_rune:
  assumes "rune_width s \<noteq> 0"
  shows "utf8_valid (take (rune_width s) s @ t) \<longleftrightarrow> utf8_valid t"
proof -
  let ?u = "take (rune_width s) s @ t"
  have w: "rune_width ?u = rune_width s" by (rule rune_width_append [OF assms])
  have "length (take (rune_width s) s) = rune_width s"
    using rune_width_cases [of s] assms by auto
  then have "drop (rune_width s) ?u = t" by simp
  with utf8_valid_step [of ?u] w assms show ?thesis by simp
qed

lemma utf8_valid_replacement: "utf8_valid (replacement_character @ t) \<longleftrightarrow> utf8_valid t"
proof -
  have "rune_width replacement_character = 3"
    by (simp add: replacement_character_def rune_width_def utf8_second_def byte_in_def continuation_def)
  then show ?thesis
    using utf8_valid_append_rune [of replacement_character t]
    by (simp add: replacement_character_def)
qed

lemma to_valid_utf8_valid: "utf8_valid (to_valid_utf8 replacement_character in_run s)"
proof (induction "replacement_character" in_run s rule: to_valid_utf8.induct)
  case (2 in_run b s)
  show ?case
  proof (cases "rune_width (b # s) = 0")
    case True
    with 2 show ?thesis by (simp add: Let_def utf8_valid_replacement)
  next
    case False
    with 2(2) [OF refl False] utf8_valid_append_rune [OF False] show ?thesis
      by (simp add: Let_def del: take_Suc_Cons append_Cons utf8_valid.simps)
  qed
qed simp

lemma to_valid_utf8_id: "utf8_valid s \<Longrightarrow> to_valid_utf8 replacement in_run s = s"
proof (induction replacement in_run s rule: to_valid_utf8.induct)
  case (2 replacement in_run b s)
  then have nz: "rune_width (b # s) \<noteq> 0" by auto
  with 2 have "to_valid_utf8 replacement False (drop (rune_width (b # s) - 1) s) = drop (rune_width (b # s) - 1) s"
    by simp
  moreover have "take (rune_width (b # s)) (b # s) @ drop (rune_width (b # s) - 1) s = b # s"
    using nz by (metis append_take_drop_id drop_Cons')
  ultimately show ?case using nz by (simp add: Let_def del: append_Cons)
qed simp

end
