(* ===== verification/Pg_Store.thy ===== *)
theory Pg_Store
  imports Pg_Queue Notification Go_Utf8 "HOL-Library.Char_ord" "HOL-Library.List_Lexorder"
begin

text \<open>
  Receipt, operator replay and the read side of \<open>internal/postgres\<close>: \<open>Accept\<close> and
  \<open>accept_existing\<close> of \<open>store.go\<close>, \<open>Replay\<close> of \<open>replay.go\<close>, \<open>Overview\<close>, \<open>List\<close> and \<open>Detail\<close>
  of \<open>read.go\<close>, with the values of \<open>internal/event\<close> they exchange.

  Operations of two statements outside a transaction see two states: what other transactions
  commit between them is in the argument \<open>later\<close>.  \<open>clock\<close> gives the readings of
  \<open>clock_timestamp()\<close>; the returned identifiers are those handed to \<open>Publish\<close>.
\<close>

record receipt =
  rc_id :: string
  rc_source :: string
  rc_external :: string
  rc_body :: bytes
  rc_sha :: bytes
  rc_dest :: string

record accepted =
  ac_id :: string
  ac_duplicate :: bool

section \<open>Accept\<close>

definition receipt_row :: "(nat \<Rightarrow> time) \<Rightarrow> receipt \<Rightarrow> event_row" where
  "receipt_row clock receipt =
     \<lparr> ev_id = rc_id receipt, ev_source = rc_source receipt, ev_external = rc_external receipt,
       ev_body = rc_body receipt, ev_sha = rc_sha receipt, ev_dest = rc_dest receipt,
       ev_state = Pending, ev_attempts = 0, ev_replays = 0, ev_next = pg_time (clock 0),
       ev_lease = None, ev_claim = None, ev_created = pg_time (clock 1), ev_delivered = None,
       ev_sandbox = None \<rparr>"

text \<open>
  \<open>INSERT ... ON CONFLICT (source_key, external_event_id) DO NOTHING RETURNING id\<close>: a row that
  satisfies the column checks and conflicts on that key inserts nothing and returns no row.
\<close>

definition insert_event :: "event_row \<Rightarrow> db \<Rightarrow> string option \<times> db" where
  "insert_event row d =
     (if event_check row \<and> event_key row \<in> event_key ` set (events d) then (None, d)
      else (Some (ev_id row), d\<lparr>events := events d @ [row]\<rparr>))"

definition find_key :: "string \<times> string \<Rightarrow> db \<Rightarrow> event_row option" where
  "find_key k d = List.find (\<lambda>e. event_key e = k) (events d)"

definition accept_existing :: "net \<Rightarrow> receipt \<Rightarrow> db \<Rightarrow> store_error + accepted" where
  "accept_existing n receipt d =
     (case query n (find_key (rc_source receipt, rc_external receipt)) d of
        Inl e \<Rightarrow> Inl (Db_Failed e)
      | Inr None \<Rightarrow> Inl No_Rows
      | Inr (Some e) \<Rightarrow>
          if ev_sha e \<noteq> rc_sha receipt then Inl Conflict_Error
          else Inr \<lparr> ac_id = ev_id e, ac_duplicate = True \<rparr>)"

definition Accept ::
  "(nat \<Rightarrow> net) \<Rightarrow> (nat \<Rightarrow> time) \<Rightarrow> db \<Rightarrow> (string \<Rightarrow> bool) option \<Rightarrow> receipt \<Rightarrow> db \<Rightarrow>
   (store_error + accepted) \<times> db \<times> string list" where
  "Accept nets clock later publisher receipt d =
     (case autocommit (nets 0) (insert_event (receipt_row clock receipt)) d of
        (Inl e, d') \<Rightarrow> (Inl (Db_Failed e), d', [])
      | (Inr (Some accepted_id), d') \<Rightarrow>
          (Inr \<lparr> ac_id = accepted_id, ac_duplicate = False \<rparr>, d', fst (AfterCommit publisher accepted_id))
      | (Inr None, d') \<Rightarrow> (accept_existing (nets 1) receipt later, d', []))"

section \<open>Replay\<close>

definition replay_where :: "string \<Rightarrow> string \<Rightarrow> event_row \<Rightarrow> bool" where
  "replay_where event_id source_key e \<longleftrightarrow>
     ev_id e = event_id \<and> ev_source e = source_key \<and> ev_state e = Dead_Lettered \<and> ev_replays e < 16"

definition replay_event :: "time \<Rightarrow> event_row \<Rightarrow> event_row" where
  "replay_event now e =
     e\<lparr>ev_state := Pending, ev_attempts := 0, ev_replays := ev_replays e + 1, ev_next := pg_time now,
       ev_lease := None, ev_claim := None, ev_delivered := None\<rparr>"

definition replay_statement :: "string \<Rightarrow> string \<Rightarrow> time \<Rightarrow> db \<Rightarrow> nat \<times> db" where
  "replay_statement event_id source_key now d =
     (let (n, rows) = update_rows (replay_where event_id source_key) (replay_event now) (events d)
      in (n, d\<lparr>events := rows\<rparr>))"

definition source_state :: "string \<Rightarrow> string \<Rightarrow> db \<Rightarrow> event_state option" where
  "source_state event_id source_key d =
     map_option ev_state (List.find (\<lambda>e. ev_id e = event_id \<and> ev_source e = source_key) (events d))"

definition Replay ::
  "(nat \<Rightarrow> net) \<Rightarrow> time \<Rightarrow> db \<Rightarrow> (string \<Rightarrow> bool) option \<Rightarrow> string \<Rightarrow> string \<Rightarrow> db \<Rightarrow>
   (store_error + unit) \<times> db \<times> string list" where
  "Replay nets now later publisher event_id source_key d =
     (case autocommit (nets 0) (replay_statement event_id source_key now) d of
        (Inl e, d') \<Rightarrow> (Inl (Db_Failed e), d', [])
      | (Inr n, d') \<Rightarrow>
          if n = 1 then (Inr (), d', fst (AfterCommit publisher event_id))
          else
            (case query (nets 1) (source_state event_id source_key) later of
               Inl e \<Rightarrow> (Inl (Db_Failed e), d', [])
             | Inr None \<Rightarrow> (Inl Not_Found_Error, d', [])
             | Inr (Some _) \<Rightarrow> (Inl Invalid_State_Error, d', [])))"

section \<open>Overview, List and Detail\<close>

record overview =
  ov_pending :: nat
  ov_delivering :: nat
  ov_delivered :: nat
  ov_retrying :: nat
  ov_dead_lettered :: nat

definition count_state :: "string \<Rightarrow> event_state \<Rightarrow> db \<Rightarrow> nat" where
  "count_state source_key s d =
     length (filter (\<lambda>e. ev_source e = source_key \<and> ev_state e = s) (events d))"

text \<open>A count that does not fit the \<open>uint32\<close> it is scanned into is an error of the driver.\<close>

definition Overview :: "net \<Rightarrow> string \<Rightarrow> db \<Rightarrow> store_error + overview" where
  "Overview n source_key d =
     (let counts = map (\<lambda>s. count_state source_key s d)
            [Pending, Delivering, Delivered, Retry_Scheduled, Dead_Lettered]
      in if n \<noteq> Done then Inl (Db_Failed Unavailable)
         else if list_ex (\<lambda>c. c \<ge> 2 ^ 32) counts then Inl Scan_Error
         else Inr \<lparr> ov_pending = counts ! 0, ov_delivering = counts ! 1, ov_delivered = counts ! 2,
                    ov_retrying = counts ! 3, ov_dead_lettered = counts ! 4 \<rparr>)"

record summary =
  su_id :: string
  su_external :: string
  su_state :: string
  su_attempts :: byte
  su_created :: time

definition summary_of :: "event_row \<Rightarrow> summary" where
  "summary_of e = \<lparr> su_id = ev_id e, su_external = ev_external e, su_state = state_text (ev_state e),
     su_attempts = word_of_int (ev_attempts e), su_created = ev_created e \<rparr>"

definition list_where :: "string \<Rightarrow> string \<Rightarrow> event_row \<Rightarrow> bool" where
  "list_where source_key state e \<longleftrightarrow>
     ev_source e = source_key \<and> (state = [] \<or> state_text (ev_state e) = state)"

definition newest_first :: "event_row list \<Rightarrow> event_row list" where
  "newest_first rows = rev (sort_key (\<lambda>e. (ev_created e, ev_id e)) rows)"

definition List_events :: "net \<Rightarrow> string \<Rightarrow> string \<Rightarrow> 16 word \<Rightarrow> db \<Rightarrow> store_error + summary list" where
  "List_events n source_key state limit d =
     (case query n (\<lambda>d. take (unat limit) (newest_first (filter (list_where source_key state) (events d)))) d of
        Inl e \<Rightarrow> Inl (Db_Failed e)
      | Inr rows \<Rightarrow> Inr (map summary_of rows))"

record attempt_view =
  av_replay :: byte
  av_number :: byte
  av_outcome :: outcome
  av_status :: "16 word option"
  av_error :: "string option"
  av_started :: time
  av_finished :: time
  av_excerpt :: bytes

definition attempt_view_of :: "attempt_row \<Rightarrow> attempt_view" where
  "attempt_view_of a =
     \<lparr> av_replay = word_of_int (at_replay a), av_number = word_of_int (at_number a),
       av_outcome = at_outcome a, av_status = map_option word_of_int (at_status a),
       av_error = at_error a, av_started = at_started a, av_finished = at_finished a,
       av_excerpt = to_valid_utf8 replacement_character False (at_excerpt a) \<rparr>"

definition detail_attempts :: "net \<Rightarrow> string \<Rightarrow> db \<Rightarrow> store_error + attempt_view list" where
  "detail_attempts n event_id d =
     (case query n (\<lambda>d. sort_key (\<lambda>a. (at_replay a, at_number a)) (event_attempts d event_id)) d of
        Inl e \<Rightarrow> Inl (Db_Failed e)
      | Inr rows \<Rightarrow> Inr (map attempt_view_of rows))"

record detail =
  de_summary :: summary
  de_dest :: string
  de_replays :: byte
  de_attempts :: "attempt_view list"

definition Detail :: "(nat \<Rightarrow> net) \<Rightarrow> db \<Rightarrow> string \<Rightarrow> string \<Rightarrow> db \<Rightarrow> store_error + detail" where
  "Detail nets later event_id source_key d =
     (case query (nets 0) (\<lambda>d. List.find (\<lambda>e. ev_id e = event_id \<and> ev_source e = source_key) (events d)) d of
        Inl e \<Rightarrow> Inl (Db_Failed e)
      | Inr None \<Rightarrow> Inl Not_Found_Error
      | Inr (Some e) \<Rightarrow>
          (case detail_attempts (nets 1) event_id later of
             Inl err \<Rightarrow> Inl err
           | Inr views \<Rightarrow>
               Inr \<lparr> de_summary = summary_of e, de_dest = ev_dest e,
                     de_replays = word_of_int (ev_replays e), de_attempts = views \<rparr>))"

section \<open>What receipt keeps and promises\<close>

lemma event_key_receipt [simp]: "event_key (receipt_row clock receipt) = (rc_source receipt, rc_external receipt)"
  by (simp add: event_key_def receipt_row_def)

lemma receipt_row_simps [simp]:
  "ev_id (receipt_row clock receipt) = rc_id receipt" "ev_sha (receipt_row clock receipt) = rc_sha receipt"
  "ev_sandbox (receipt_row clock receipt) = None" "ev_state (receipt_row clock receipt) = Pending"
  "ev_body (receipt_row clock receipt) = rc_body receipt"
  by (simp_all add: receipt_row_def)

text \<open>The column checks on a receipt do not depend on the clock.\<close>

definition receipt_ok :: "receipt \<Rightarrow> bool" where
  "receipt_ok receipt = event_check (receipt_row (\<lambda>_. 0) receipt)"

lemma receipt_row_check: "event_check (receipt_row clock receipt) = receipt_ok receipt"
  by (simp add: receipt_ok_def event_check_def receipt_row_def)

lemma receipt_row_lifecycle: "lifecycle_row (receipt_row clock receipt)"
  by (simp add: lifecycle_row_def receipt_row_def)

lemma store_ok_append_event:
  assumes "store_ok d" and "schema_ok (d\<lparr>events := events d @ [e]\<rparr>)" and "lifecycle_row e"
  shows "store_ok (d\<lparr>events := events d @ [e]\<rparr>)"
proof -
  have att: "at_event a \<in> ev_id ` set (events d)" if "a \<in> set (attempts d)" for a
    using assms(1) that by (auto simp: store_ok_def schema_defs list_all_iff)
  have "ev_id e \<notin> ev_id ` set (events d)" using assms(2) by (simp add: schema_defs)
  then have "at_event a \<noteq> ev_id e" if "a \<in> set (attempts d)" for a using att [OF that] by auto
  with assms show ?thesis by (auto simp: store_ok_def lifecycle_ok_def history_ok_def)
qed

lemma find_key_iff:
  assumes "schema_ok d"
  shows "find_key k d = Some e \<longleftrightarrow> e \<in> set (events d) \<and> event_key e = k"
proof -
  have dist: "distinct (map event_key (events d))" using assms by (simp add: schema_defs)
  have found: "find_key k d = Some e \<Longrightarrow> e \<in> set (events d) \<and> event_key e = k" for e
    by (auto simp: find_key_def find_Some_iff)
  show ?thesis
  proof
    assume e: "e \<in> set (events d) \<and> event_key e = k"
    then obtain e' where e': "find_key k d = Some e'"
      by (cases "find_key k d") (auto simp: find_key_def find_None_iff)
    with found [OF e'] e distinct_map_inj [OF dist] show "find_key k d = Some e" by metis
  qed (rule found)
qed

lemma find_key_None: "find_key k d = None \<longleftrightarrow> k \<notin> event_key ` set (events d)"
  by (auto simp: find_key_def find_None_iff)

text \<open>One call of \<open>Accept\<close>, by the effect of its first statement.\<close>

lemma Accept_cases:
  assumes "Accept nets clock later publisher receipt d = (r, d', pubs)"
  obtains
    (unchanged) "d' = d" and "pubs = []" and "\<exists>e. r = Inl (Db_Failed e)"
  | (existing) "d' = d" and "pubs = []" and "nets 0 = Done" and "r = accept_existing (nets 1) receipt later"
      and "(rc_source receipt, rc_external receipt) \<in> event_key ` set (events d)"
  | (stored) "d' = d\<lparr>events := events d @ [receipt_row clock receipt]\<rparr>" and "schema_ok d'"
      and "r = Inr \<lparr> ac_id = rc_id receipt, ac_duplicate = False \<rparr> \<and> nets 0 = Done \<and>
             pubs = fst (AfterCommit publisher (rc_id receipt)) \<or>
           r = Inl (Db_Failed Unavailable) \<and> nets 0 = Lost \<and> pubs = []"
proof -
  let ?row = "receipt_row clock receipt"
  let ?known = "event_check ?row \<and> event_key ?row \<in> event_key ` set (events d)"
  let ?d1 = "d\<lparr>events := events d @ [?row]\<rparr>"
  obtain r0 d0 where ac: "autocommit (nets 0) (insert_event ?row) d = (r0, d0)" by fastforce
  show ?thesis
  proof (cases "nets 0")
    case Failed
    with ac assms show ?thesis by (intro unchanged) (auto simp: Accept_def autocommit_alt)
  next
    case Done
    show ?thesis
    proof (cases ?known)
      case True
      show ?thesis
      proof (cases "schema_ok d")
        case ok: True
        with assms Done True show ?thesis
          by (intro existing) (auto simp: Accept_def autocommit_alt insert_event_def)
      next
        case False
        with assms Done True show ?thesis
          by (intro unchanged) (auto simp: Accept_def autocommit_alt insert_event_def)
      qed
    next
      case False
      then have ins: "insert_event ?row d = (Some (rc_id receipt), ?d1)" by (simp add: insert_event_def)
      show ?thesis
      proof (cases "schema_ok ?d1")
        case True
        with assms Done ins show ?thesis by (intro stored) (auto simp: Accept_def autocommit_alt)
      next
        case no: False
        with assms Done ins show ?thesis by (intro unchanged) (auto simp: Accept_def autocommit_alt)
      qed
    qed
  next
    case Lost
    show ?thesis
    proof (cases "\<not> ?known \<and> schema_ok ?d1")
      case True
      then have "insert_event ?row d = (Some (rc_id receipt), ?d1)" by (auto simp: insert_event_def)
      with assms Lost True show ?thesis by (intro stored) (auto simp: Accept_def autocommit_alt)
    next
      case False
      then have "snd (autocommit (nets 0) (insert_event ?row) d) = d"
        using Lost by (auto simp: autocommit_alt insert_event_def)
      moreover have "\<exists>e. fst (autocommit (nets 0) (insert_event ?row) d) = Inl e"
        using Lost by (auto simp: autocommit_alt)
      ultimately obtain e where "autocommit (nets 0) (insert_event ?row) d = (Inl e, d)"
        by (metis prod.collapse)
      with assms show ?thesis by (intro unchanged) (auto simp: Accept_def)
    qed
  qed
qed

lemma Accept_inv:
  assumes "store_ok d" and "Accept nets clock later publisher receipt d = (r, d', pubs)"
  shows "store_ok d'"
  using assms(2)
proof (cases rule: Accept_cases)
  case stored
  then show ?thesis using store_ok_append_event [OF assms(1)] receipt_row_lifecycle by simp
qed (use assms(1) in simp_all)

lemma Accept_fresh_ok:
  assumes "store_ok d" and "receipt_ok receipt" and "rc_id receipt \<notin> ev_id ` set (events d)"
    and "(rc_source receipt, rc_external receipt) \<notin> event_key ` set (events d)"
  shows "schema_ok (d\<lparr>events := events d @ [receipt_row clock receipt]\<rparr>)"
  using assms by (intro schema_ok_append_event) (simp_all add: receipt_row_check store_ok_def)

lemma Accept_fresh:
  assumes "store_ok d" and "receipt_ok receipt" and "rc_id receipt \<notin> ev_id ` set (events d)"
    and "(rc_source receipt, rc_external receipt) \<notin> event_key ` set (events d)"
  shows "Accept nets clock later publisher receipt d =
    (if nets 0 = Failed then (Inl (Db_Failed Unavailable), d, [])
     else (if nets 0 = Lost then Inl (Db_Failed Unavailable)
             else Inr \<lparr> ac_id = rc_id receipt, ac_duplicate = False \<rparr>,
           d\<lparr>events := events d @ [receipt_row clock receipt]\<rparr>,
           if nets 0 = Lost then [] else fst (AfterCommit publisher (rc_id receipt))))"
  using assms(4) Accept_fresh_ok [OF assms, of clock]
  by (cases "nets 0") (simp_all add: Accept_def autocommit_alt insert_event_def)

lemma Accept_repeated:
  assumes "schema_ok d" and "schema_ok later" and "receipt_ok receipt"
    and "(rc_source receipt, rc_external receipt) \<in> event_key ` set (events d)"
    and "e \<in> set (events later)" and "event_key e = (rc_source receipt, rc_external receipt)"
  shows "Accept nets clock later publisher receipt d =
    (if nets 0 \<noteq> Done \<or> nets 1 \<noteq> Done then Inl (Db_Failed Unavailable)
     else if ev_sha e \<noteq> rc_sha receipt then Inl Conflict_Error
     else Inr \<lparr> ac_id = ev_id e, ac_duplicate = True \<rparr>, d, [])"
proof -
  have "find_key (rc_source receipt, rc_external receipt) later = Some e"
    using find_key_iff [OF assms(2)] assms(5,6) by simp
  moreover have "insert_event (receipt_row clock receipt) d = (None, d)"
    using assms(3,4) by (simp add: insert_event_def receipt_row_check)
  ultimately show ?thesis
    using assms(1) by (cases "nets 0"; cases "nets 1") (simp_all add: Accept_def autocommit_alt accept_existing_def query_def)
qed

lemma Accept_known:
  assumes "schema_ok d" and "receipt_ok receipt" and "nets 0 = Done" and "nets 1 = Done"
    and "e \<in> set (events d)" and "event_key e = (rc_source receipt, rc_external receipt)"
  shows "Accept nets clock d publisher receipt d =
    (if ev_sha e \<noteq> rc_sha receipt then Inl Conflict_Error
     else Inr \<lparr> ac_id = ev_id e, ac_duplicate = True \<rparr>, d, [])"
proof -
  have "(rc_source receipt, rc_external receipt) \<in> event_key ` set (events d)" using assms(5,6) by (metis imageI)
  from Accept_repeated [OF assms(1,1,2) this assms(5,6)] assms(3,4) show ?thesis by simp
qed

text \<open>
  Hints follow the commit.  Whatever goes wrong, \<open>Accept\<close> changes no stored event, and an
  identifier is published only for an event that the call itself has just stored as pending.
\<close>

theorem Accept_publishes_committed:
  assumes "Accept nets clock later publisher receipt d = (r, d', pubs)"
  shows "(\<exists>new. events d' = events d @ new \<and> length new \<le> 1) \<and>
    (\<forall>i \<in> set pubs. i \<notin> ev_id ` set (events d) \<and>
       (\<exists>e \<in> set (events d'). ev_id e = i \<and> ev_state e = Pending \<and> ev_body e = rc_body receipt) \<and>
       r = Inr \<lparr> ac_id = i, ac_duplicate = False \<rparr>)"
  using assms
proof (cases rule: Accept_cases)
  case stored
  have "rc_id receipt \<notin> ev_id ` set (events d)"
    using stored(1,2) by (simp add: schema_defs)
  with stored show ?thesis
    by (auto simp: AfterCommit_def image_iff split: option.splits)
qed auto

section \<open>What a replay does\<close>

lemma replay_event_simps [simp]:
  "ev_id (replay_event now e) = ev_id e" "event_key (replay_event now e) = event_key e"
  "ev_sandbox (replay_event now e) = ev_sandbox e" "ev_created (replay_event now e) = ev_created e"
  "ev_state (replay_event now e) = Pending" "ev_replays (replay_event now e) = ev_replays e + 1"
  "ev_attempts (replay_event now e) = 0" "ev_claim (replay_event now e) = None"
  by (simp_all add: replay_event_def event_key_def)

lemma replay_event_ok:
  "event_check e \<Longrightarrow> ev_replays e < 16 \<Longrightarrow> event_check (replay_event now e) \<and> lifecycle_row (replay_event now e)"
  by (auto simp: event_check_def lifecycle_row_def replay_event_def)

lemma replay_event_behind:
  "attempt_behind e a \<Longrightarrow> ev_state e = Dead_Lettered \<Longrightarrow> attempt_behind (replay_event now e) a"
  by (auto simp: attempt_behind_def)

definition replay_row :: "string \<Rightarrow> string \<Rightarrow> time \<Rightarrow> event_row \<Rightarrow> event_row" where
  "replay_row i k now e = (if replay_where i k e then replay_event now e else e)"

lemma replay_statement_eq:
  "replay_statement i k now d =
     (length (filter (replay_where i k) (events d)), d\<lparr>events := map (replay_row i k now) (events d)\<rparr>)"
  by (simp add: replay_statement_def update_rows_def replay_row_def [abs_def])

lemma replay_row_simps [simp]:
  "ev_id (replay_row i k now e) = ev_id e" "event_key (replay_row i k now e) = event_key e"
  "ev_sandbox (replay_row i k now e) = ev_sandbox e"
  by (simp_all add: replay_row_def)

lemma replay_statement_ok:
  assumes "store_ok d"
  shows "store_ok (snd (replay_statement i k now d))"
proof -
  have row: "event_check (replay_row i k now e) \<and> lifecycle_row (replay_row i k now e)"
    if "e \<in> set (events d)" for e
    using that assms replay_event_ok
    by (auto simp: replay_row_def replay_where_def store_ok_def dest: schema_ok_event_check lifecycle_okD)
  moreover have "attempt_behind (replay_row i k now e) a" if "attempt_behind e a" for e a
    using that replay_event_behind by (auto simp: replay_row_def replay_where_def)
  ultimately show ?thesis
    unfolding replay_statement_eq using store_ok_map_events [OF assms, of "replay_row i k now"] by simp
qed

lemma Replay_cases:
  assumes "Replay nets now later publisher i k d = (r, d', pubs)"
  obtains
    (unchanged) "d' = d" and "pubs = []" and "r \<noteq> Inr ()"
  | (applied) "d' = snd (replay_statement i k now d)" and "nets 0 \<noteq> Failed"
proof -
  obtain r0 d0 where ac: "autocommit (nets 0) (replay_statement i k now) d = (r0, d0)" by fastforce
  with assms have d': "d' = d0"
    by (auto simp: Replay_def split: sum.splits option.splits if_splits)
  from ac show ?thesis
  proof (cases rule: autocommit_cases)
    case unchanged
    with ac assms show ?thesis by (intro that(1)) (auto simp: Replay_def)
  next
    case applied
    show ?thesis
    proof (cases "nets 0 = Failed")
      case True
      with ac have "d0 = d" "r0 = Inl Unavailable" by (auto simp: autocommit_alt)
      with ac assms show ?thesis by (intro that(1)) (auto simp: Replay_def)
    next
      case False
      with applied d' show ?thesis by (intro that(2)) simp_all
    qed
  qed
qed

lemma Replay_inv:
  "store_ok d \<Longrightarrow> Replay nets now later publisher i k d = (r, d', pubs) \<Longrightarrow> store_ok d'"
  by (erule Replay_cases) (auto intro: replay_statement_ok)

definition source_event :: "string \<Rightarrow> string \<Rightarrow> db \<Rightarrow> event_row option" where
  "source_event i k d = List.find (\<lambda>e. ev_id e = i \<and> ev_source e = k) (events d)"

lemma source_event_iff:
  assumes "schema_ok d"
  shows "source_event i k d = Some e \<longleftrightarrow> e \<in> set (events d) \<and> ev_id e = i \<and> ev_source e = k"
proof -
  have found: "source_event i k d = Some e \<Longrightarrow> e \<in> set (events d) \<and> ev_id e = i \<and> ev_source e = k" for e
    by (auto simp: source_event_def find_Some_iff)
  show ?thesis
  proof
    assume e: "e \<in> set (events d) \<and> ev_id e = i \<and> ev_source e = k"
    then obtain e' where e': "source_event i k d = Some e'"
      by (cases "source_event i k d") (auto simp: source_event_def find_None_iff)
    with found [OF e'] e schema_ok_same_id [OF assms] show "source_event i k d = Some e" by metis
  qed (rule found)
qed

lemma replay_count:
  assumes "schema_ok d"
  shows "length (filter (replay_where i k) (events d)) =
    (case source_event i k d of None \<Rightarrow> 0
     | Some e \<Rightarrow> if ev_state e = Dead_Lettered \<and> ev_replays e < 16 then 1 else 0)"
proof -
  have "(\<exists>e \<in> set (events d). replay_where i k e) \<longleftrightarrow>
      (\<exists>e. source_event i k d = Some e \<and> ev_state e = Dead_Lettered \<and> ev_replays e < 16)"
    unfolding source_event_iff [OF assms] by (auto simp: replay_where_def)
  moreover have "length (filter (replay_where i k) (events d)) =
      (if \<exists>e \<in> set (events d). replay_where i k e then 1 else 0)"
    by (rule filter_unique [OF schema_ok_distinct_ids [OF assms], where k = i]) (simp add: replay_where_def)
  ultimately show ?thesis by (auto split: option.splits)
qed

text \<open>
  C20: an operator's replay.  It succeeds exactly for a dead-lettered event of the given source that
  was replayed less than 16 times: the event becomes pending and due now, its attempt budget is
  reset, its generation advances, nothing else changes and one hint is published.  Everything
  else is refused without a change, an event of another source just like a missing one.
\<close>

theorem Replay_outcome:
  assumes "store_ok d"
  shows "Replay (\<lambda>_. Done) now d publisher i k d =
    (case source_event i k d of
       None \<Rightarrow> (Inl Not_Found_Error, d, [])
     | Some e \<Rightarrow>
         if ev_state e = Dead_Lettered \<and> ev_replays e < 16
         then (Inr (), d\<lparr>events := map (\<lambda>x. if ev_id x = i
                 then x\<lparr>ev_state := Pending, ev_attempts := 0, ev_replays := ev_replays x + 1, ev_next := pg_time now,
                        ev_lease := None, ev_claim := None, ev_delivered := None\<rparr>
                 else x) (events d)\<rparr>,
               fst (AfterCommit publisher i))
         else (Inl Invalid_State_Error, d, []))"
proof -
  have d: "schema_ok d" using assms by (simp add: store_ok_def)
  have new: "schema_ok (snd (replay_statement i k now d))"
    using replay_statement_ok [OF assms, of i k now] by (simp add: store_ok_def)
  have state: "source_state i k d = map_option ev_state (source_event i k d)"
    by (simp add: source_state_def source_event_def)
  have none: "map (replay_row i k now) (events d) = events d"
    if "length (filter (replay_where i k) (events d)) = 0"
    using that by (auto simp: replay_row_def filter_empty_conv intro!: map_idI)
  have one: "map (replay_row i k now) (events d) = map (\<lambda>x. if ev_id x = i then replay_event now x else x) (events d)"
    if "source_event i k d = Some e" "ev_state e = Dead_Lettered" "ev_replays e < 16" for e
  proof -
    have "replay_where i k x \<longleftrightarrow> ev_id x = i" if "x \<in> set (events d)" for x
      using that \<open>source_event i k d = Some e\<close> \<open>ev_state e = Dead_Lettered\<close> \<open>ev_replays e < 16\<close>
        source_event_iff [OF d] schema_ok_same_id [OF d] by (metis replay_where_def)
    then show ?thesis by (simp add: replay_row_def)
  qed
  have run: "Replay (\<lambda>_. Done) now d publisher i k d =
     (if fst (replay_statement i k now d) = 1
      then (Inr (), snd (replay_statement i k now d), fst (AfterCommit publisher i))
      else (case source_state i k d of
              None \<Rightarrow> (Inl Not_Found_Error, snd (replay_statement i k now d), [])
            | Some _ \<Rightarrow> (Inl Invalid_State_Error, snd (replay_statement i k now d), [])))"
    using new by (simp add: Replay_def autocommit_alt query_def split: option.splits)
  show ?thesis
    unfolding replay_event_def [symmetric]
    using replay_count [OF d, of i k] none one
    by (auto simp: run replay_statement_eq state split: option.splits if_splits)
qed

section \<open>What a reader sees\<close>

lemma count_states_total:
  "count_state k Pending d + count_state k Delivering d + count_state k Delivered d +
     count_state k Retry_Scheduled d + count_state k Dead_Lettered d =
   length (filter (\<lambda>e. ev_source e = k) (events d))"
proof -
  have "length (filter (\<lambda>e. ev_source e = k \<and> ev_state e = Pending) es) +
      length (filter (\<lambda>e. ev_source e = k \<and> ev_state e = Delivering) es) +
      length (filter (\<lambda>e. ev_source e = k \<and> ev_state e = Delivered) es) +
      length (filter (\<lambda>e. ev_source e = k \<and> ev_state e = Retry_Scheduled) es) +
      length (filter (\<lambda>e. ev_source e = k \<and> ev_state e = Dead_Lettered) es) =
      length (filter (\<lambda>e. ev_source e = k) es)" for es
    by (induction es) (auto intro: event_state.exhaust)
  then show ?thesis by (simp add: count_state_def)
qed

text \<open>
  The overview partitions the events of the source: its five counts add up to their number.
\<close>

theorem Overview_total:
  assumes "Overview n k d = Inr ov"
  shows "ov_pending ov + ov_delivering ov + ov_delivered ov + ov_retrying ov + ov_dead_lettered ov =
    length (filter (\<lambda>e. ev_source e = k) (events d)) \<and> ov_pending ov < 2 ^ 32"
  using assms count_states_total [of k d]
  by (auto simp: Overview_def Let_def split: if_splits)

definition newer :: "event_row \<Rightarrow> event_row \<Rightarrow> bool" where
  "newer a b \<longleftrightarrow> (ev_created b, ev_id b) < (ev_created a, ev_id a)"

lemma set_newest_first [simp]: "set (newest_first rows) = set rows"
  by (simp add: newest_first_def)

lemma newest_first_sorted:
  assumes "distinct (map ev_id rows)"
  shows "sorted_wrt newer (newest_first rows)"
proof -
  let ?k = "\<lambda>e. (ev_created e, ev_id e)"
  have "distinct (map ?k rows)"
    using assms by (auto simp: distinct_map inj_on_def)
  then have "distinct (map ?k (sort_key ?k rows))"
    by (simp add: distinct_map)
  then have "sorted_wrt (<) (map ?k (sort_key ?k rows))"
    using strict_sorted_iff sorted_sort_key by blast
  then show ?thesis
    by (simp add: newest_first_def sorted_wrt_rev sorted_wrt_map newer_def)
qed

lemma sorted_wrt_take_drop:
  "sorted_wrt P xs \<Longrightarrow> x \<in> set (take n xs) \<Longrightarrow> y \<in> set (drop n xs) \<Longrightarrow> P x y"
  by (metis append_take_drop_id sorted_wrt_append)

text \<open>
  A listing shows only events of the caller's source in the requested state, newest first with the
  identifier as the tie-break, at most as many as asked for; an event that matches and is not
  shown is older than everything shown, and the listing is then full.
\<close>

theorem List_newest_matching:
  assumes "schema_ok d" and "List_events n k state limit d = Inr rows"
  shows "\<exists>shown. rows = map summary_of shown \<and> length shown \<le> unat limit \<and> sorted_wrt newer shown \<and>
    (\<forall>e \<in> set shown. e \<in> set (events d) \<and> ev_source e = k \<and> (state = [] \<or> state_text (ev_state e) = state)) \<and>
    (\<forall>e \<in> set (events d) - set shown. ev_source e = k \<and> (state = [] \<or> state_text (ev_state e) = state) \<longrightarrow>
       length shown = unat limit \<and> (\<forall>x \<in> set shown. newer x e))"
proof -
  let ?all = "newest_first (filter (list_where k state) (events d))"
  let ?shown = "take (unat limit) ?all"
  have rows: "rows = map summary_of ?shown"
    using assms(2) by (auto simp: List_events_def query_def split: if_splits)
  have "distinct (map ev_id (filter (list_where k state) (events d)))"
    using schema_ok_distinct_ids [OF assms(1)] by (simp add: distinct_map_filter)
  then have sorted: "sorted_wrt newer ?all" by (rule newest_first_sorted)
  have mem: "e \<in> set (events d) \<and> ev_source e = k \<and> (state = [] \<or> state_text (ev_state e) = state)"
    if "e \<in> set ?shown" for e
    using in_set_takeD [OF that] by (simp add: list_where_def)
  have rest: "length ?shown = unat limit \<and> (\<forall>x \<in> set ?shown. newer x e)"
    if e: "e \<in> set (events d) - set ?shown" "ev_source e = k" "state = [] \<or> state_text (ev_state e) = state" for e
  proof -
    have "e \<in> set ?all" using e by (simp add: list_where_def)
    then have drop: "e \<in> set (drop (unat limit) ?all)"
      using e(1) by (metis DiffD2 UnE append_take_drop_id set_append)
    then have "unat limit < length ?all"
      by (metis drop_all leI length_pos_if_in_set less_irrefl list.size(3))
    with drop sorted_wrt_take_drop [OF sorted] show ?thesis by simp
  qed
  have "length ?shown \<le> unat limit" by simp
  moreover have "sorted_wrt newer ?shown" by (rule sorted_wrt_take [OF sorted])
  moreover have "\<forall>e \<in> set ?shown. e \<in> set (events d) \<and> ev_source e = k \<and> (state = [] \<or> state_text (ev_state e) = state)"
    using mem by blast
  moreover have "\<forall>e \<in> set (events d) - set ?shown. ev_source e = k \<and> (state = [] \<or> state_text (ev_state e) = state) \<longrightarrow>
       length ?shown = unat limit \<and> (\<forall>x \<in> set ?shown. newer x e)"
    using rest by blast
  ultimately show ?thesis using rows by blast
qed

definition view_key :: "attempt_view \<Rightarrow> int \<times> int" where
  "view_key v = (uint (av_replay v), uint (av_number v))"

lemma attempt_view_key:
  assumes "attempt_check a"
  shows "view_key (attempt_view_of a) = (at_replay a, at_number a)"
  using assms by (simp add: view_key_def attempt_view_of_def attempt_check_def uint_byte_of_int)

lemma sort_attempts_strict:
  assumes "schema_ok d"
  shows "sorted_wrt (<) (map (\<lambda>a. (at_replay a, at_number a))
    (sort_key (\<lambda>a. (at_replay a, at_number a)) (event_attempts d i)))"
proof -
  let ?k = "\<lambda>a. (at_replay a, at_number a)"
  have "distinct (map attempt_key (event_attempts d i))"
    using assms by (auto simp: schema_defs event_attempts_def intro: distinct_map_filter)
  then have "distinct (map ?k (event_attempts d i))"
    by (auto simp: distinct_map inj_on_def attempt_key_def event_attempts_def)
  then have "distinct (map ?k (sort_key ?k (event_attempts d i)))" by (simp add: distinct_map)
  then show ?thesis using strict_sorted_iff sorted_sort_key by blast
qed

text \<open>
  The detail view exists exactly for an event of the caller's source; it shows the event's whole
  attempt history and nothing else, in strictly ascending generation and attempt number, and
  every response excerpt as valid UTF-8.
\<close>

theorem Detail_history:
  assumes "schema_ok d" and "Detail (\<lambda>_. Done) d i k d = r"
  shows "(case source_event i k d of
       None \<Rightarrow> r = Inl Not_Found_Error
     | Some e \<Rightarrow> (\<exists>det. r = Inr det \<and> su_id (de_summary det) = i \<and> de_dest det = ev_dest e \<and>
         set (de_attempts det) = attempt_view_of ` {a \<in> set (attempts d). at_event a = i} \<and>
         length (de_attempts det) = length (event_attempts d i) \<and>
         sorted_wrt (<) (map view_key (de_attempts det)) \<and>
         (\<forall>v \<in> set (de_attempts det). utf8_valid (av_excerpt v))))"
proof (cases "source_event i k d")
  case None
  with assms(2) show ?thesis by (auto simp: Detail_def query_def source_event_def)
next
  case (Some e)
  let ?sorted = "sort_key (\<lambda>a. (at_replay a, at_number a)) (event_attempts d i)"
  let ?det = "\<lparr> de_summary = summary_of e, de_dest = ev_dest e,
    de_replays = word_of_int (ev_replays e), de_attempts = map attempt_view_of ?sorted \<rparr>"
  have r: "r = Inr ?det"
    using assms(2) Some by (auto simp: Detail_def detail_attempts_def query_def source_event_def)
  have "attempt_check a" if "a \<in> set ?sorted" for a
    using that assms(1) by (auto simp: schema_defs list_all_iff event_attempts_def)
  then have keys: "map view_key (map attempt_view_of ?sorted) = map (\<lambda>a. (at_replay a, at_number a)) ?sorted"
    by (simp add: attempt_view_key)
  have "utf8_valid (av_excerpt (attempt_view_of a))" for a
    by (simp add: attempt_view_of_def to_valid_utf8_valid)
  moreover have "set ?sorted = {a \<in> set (attempts d). at_event a = i}"
    by (auto simp: event_attempts_def)
  moreover have "sorted_wrt (<) (map view_key (de_attempts ?det))"
    using sort_attempts_strict [OF assms(1), of i] keys by (simp only: detail.simps)
  ultimately show ?thesis
    using r Some source_event_iff [OF assms(1), of i k e]
    by (auto simp: summary_of_def simp del: map_map)
qed

section \<open>The properties on a concrete store\<close>

definition sample_receipt :: receipt where
  "sample_receipt = \<lparr> rc_id = ''e'', rc_source = ''s'', rc_external = ''x'', rc_body = [1, 2, 3],
     rc_sha = replicate 32 0, rc_dest = ''https://receiver.example/'' \<rparr>"

lemma sample_receipt_row: "receipt_row (\<lambda>_. 0) sample_receipt = sample_event"
  by (simp add: receipt_row_def sample_receipt_def sample_event_def pg_time_def)

lemma sample_receipt_ok: "receipt_ok sample_receipt"
  unfolding receipt_ok_def sample_receipt_row
  using sample_db_ok by (simp add: store_ok_def schema_defs sample_db_def)

theorem Accept_publishes_committed_witness:
  "set (snd (snd (Accept (\<lambda>_. Done) (\<lambda>_. 0) (empty_db 0) (Some (\<lambda>_. True)) sample_receipt (empty_db 0))))
     \<subseteq> {''e''}"
proof -
  obtain r d' pubs where run: "Accept (\<lambda>_. Done) (\<lambda>_. 0) (empty_db 0) (Some (\<lambda>_. True)) sample_receipt (empty_db 0) = (r, d', pubs)"
    by (metis prod_cases3)
  have "r = Inr \<lparr> ac_id = ''e'', ac_duplicate = False \<rparr>"
    using run Accept_fresh [OF store_ok_empty sample_receipt_ok, of 0 "\<lambda>_. Done" "\<lambda>_. 0" "empty_db 0" "Some (\<lambda>_. True)"]
    by (simp add: empty_db_def sample_receipt_def)
  with Accept_publishes_committed [OF run] run show ?thesis by auto
qed

text \<open>A dead-lettered event with its recorded attempt.\<close>

definition sample_dead :: event_row where
  "sample_dead = sample_event\<lparr>ev_state := Dead_Lettered, ev_attempts := 1\<rparr>"

definition sample_failed :: attempt_row where
  "sample_failed = \<lparr> at_id = ''a'', at_event = ''e'', at_replay = 0, at_number = 1, at_started = 0,
     at_finished = 0, at_outcome = Terminal_HTTP, at_status = Some 404, at_excerpt = [255], at_error = None \<rparr>"

definition sample_dead_db :: db where
  "sample_dead_db = (empty_db 0)\<lparr>events := [sample_dead], attempts := [sample_failed]\<rparr>"

lemma sample_dead_ok: "store_ok sample_dead_db"
  by (auto simp: store_ok_def schema_defs sample_dead_db_def sample_dead_def sample_event_def sample_failed_def
     empty_db_def event_check_def attempt_check_def text_length_def budget_check_def lifecycle_ok_def lifecycle_row_def
     history_ok_def attempt_behind_def)

theorem Replay_outcome_witness:
  "\<exists>d'. Replay (\<lambda>_. Done) 5000 sample_dead_db None ''e'' ''s'' sample_dead_db = (Inr (), d', []) \<and>
     map ev_state (events d') = [Pending] \<and> map ev_replays (events d') = [1]"
proof -
  have "source_event ''e'' ''s'' sample_dead_db = Some sample_dead"
    by (simp add: source_event_def sample_dead_db_def sample_dead_def sample_event_def)
  with Replay_outcome [OF sample_dead_ok, of 5000 None "''e''" "''s''"] show ?thesis
    by (simp add: AfterCommit_def sample_dead_db_def sample_dead_def sample_event_def replay_event_def)
qed

theorem Overview_total_witness:
  "\<exists>ov. Overview Done ''s'' sample_dead_db = Inr ov \<and>
     ov_pending ov + ov_delivering ov + ov_delivered ov + ov_retrying ov + ov_dead_lettered ov = 1"
proof -
  obtain ov where run: "Overview Done ''s'' sample_dead_db = Inr ov"
    by (simp add: Overview_def Let_def count_state_def sample_dead_db_def sample_dead_def sample_event_def)
  from Overview_total [OF this] have
    "ov_pending ov + ov_delivering ov + ov_delivered ov + ov_retrying ov + ov_dead_lettered ov = 1"
    by (simp add: sample_dead_db_def sample_dead_def sample_event_def)
  with run show ?thesis by blast
qed

theorem List_newest_matching_witness:
  "\<exists>rows. List_events Done ''s'' ''dead_lettered'' 50 sample_dead_db = Inr rows \<and> length rows \<le> 50"
proof -
  obtain rows where run: "List_events Done ''s'' ''dead_lettered'' 50 sample_dead_db = Inr rows"
    by (simp add: List_events_def query_def)
  have "schema_ok sample_dead_db" using sample_dead_ok by (simp add: store_ok_def)
  from List_newest_matching [OF this run] obtain shown where "rows = map summary_of shown"
    "length shown \<le> unat (50 :: 16 word)" by blast
  with run show ?thesis by simp
qed

theorem Detail_history_witness:
  "\<exists>det. Detail (\<lambda>_. Done) sample_dead_db ''e'' ''s'' sample_dead_db = Inr det \<and> length (de_attempts det) = 1 \<and>
     Detail (\<lambda>_. Done) sample_dead_db ''e'' ''other'' sample_dead_db = Inl Not_Found_Error"
proof -
  have ok: "schema_ok sample_dead_db" using sample_dead_ok by (simp add: store_ok_def)
  have found: "source_event ''e'' ''s'' sample_dead_db = Some sample_dead"
    "source_event ''e'' ''other'' sample_dead_db = None"
    by (simp_all add: source_event_def sample_dead_db_def sample_dead_def sample_event_def)
  have "length (event_attempts sample_dead_db ''e'') = 1"
    by (simp add: event_attempts_def sample_dead_db_def sample_failed_def)
  with Detail_history [OF ok refl, of "''e''" "''s''"] Detail_history [OF ok refl, of "''e''" "''other''"] found
  show ?thesis by auto
qed

end
