(* ===== verification/Sandbox_Session.thy ===== *)
theory Sandbox_Session
  imports Signature
begin

text \<open>
  The visitor credential of \<open>internal/sandbox/session.go\<close>: a cookie value of three parts, the
  session identifier, its expiry in Unix seconds and a MAC over both.  \<open>Issue\<close> creates it,
  \<open>Validate\<close> checks it.  The random source is an argument, as in \<open>Identifier\<close>.
\<close>

definition SessionLifetime :: duration where "SessionLifetime = 30 * minute"
definition cookieName :: string where "cookieName = ''__Host-relay_sandbox''"
definition tokenLength :: nat where "tokenLength = 108"

datatype session_error = ErrSession | Random_Failed

datatype same_site = SameSiteDefaultMode | SameSiteLaxMode | SameSiteStrictMode | SameSiteNoneMode

record cookie =
  ck_name :: string
  ck_value :: string
  ck_path :: string
  ck_secure :: bool
  ck_http_only :: bool
  ck_same_site :: same_site
  ck_max_age :: int
  ck_expires :: time

definition sessionMAC :: "bytes \<Rightarrow> string \<Rightarrow> string" where
  "sessionMAC key payload = hex_encode (hmac_sha256 key (bytes_of (''relay-sandbox-v1:'' @ payload)))"

definition Issue :: "bytes option \<Rightarrow> bytes \<Rightarrow> time \<Rightarrow> session_error + cookie \<times> string" where
  "Issue random key now =
     (if length key \<noteq> 32 then Inl ErrSession
      else if unix now < 1000000000 \<or> unix now > 9999998199 then Inl ErrSession
      else case random of
        None \<Rightarrow> Inl Random_Failed
      | Some randomID \<Rightarrow>
          let id = hex_encode randomID;
              expires = now + SessionLifetime;
              payload = id @ ''.'' @ format_int (unix expires)
          in Inr (\<lparr> ck_name = cookieName, ck_value = payload @ ''.'' @ sessionMAC key payload,
                    ck_path = ''/'', ck_secure = True, ck_http_only = True,
                    ck_same_site = SameSiteStrictMode, ck_max_age = 1800, ck_expires = expires \<rparr>, id))"

definition Validate :: "bytes \<Rightarrow> string \<Rightarrow> time \<Rightarrow> session_error + string" where
  "Validate key token now =
     (if length key \<noteq> 32 \<or> length token \<noteq> tokenLength then Inl ErrSession
      else case split_n 3 CHR ''.'' token of
        [part0, part1, part2] \<Rightarrow>
          if length part0 \<noteq> 32 \<or> length part1 \<noteq> 10 \<or> length part2 \<noteq> 64 then Inl ErrSession
          else if hex_decode part0 = None then Inl ErrSession
          else
            let expected = sessionMAC key (part0 @ ''.'' @ part1)
            in if expected \<noteq> part2 then Inl ErrSession
               else (case parse_int64 part1 of
                       None \<Rightarrow> Inl ErrSession
                     | Some expires \<Rightarrow>
                         if expires \<le> unix now \<or> expires > unix (now + SessionLifetime) then Inl ErrSession
                         else Inr part0)
      | _ \<Rightarrow> Inl ErrSession)"

lemma length_sessionMAC [simp]: "length (sessionMAC key payload) = 64"
  by (simp add: sessionMAC_def length_hmac_sha256)

lemma unix_lifetime [simp]: "unix (t + SessionLifetime) = unix t + 1800"
proof -
  have "SessionLifetime = 1800 * second" by (simp add: SessionLifetime_def minute_def)
  then show ?thesis using unix_add_seconds [of t 1800] by simp
qed

lemma Validate_three_parts:
  assumes "length key = 32" and "length p0 = 32" and "length p1 = 10" and "length p2 = 64"
    and "CHR ''.'' \<notin> set p0" and "CHR ''.'' \<notin> set p1"
  shows "Validate key (p0 @ ''.'' @ p1 @ ''.'' @ p2) now =
    (if hex_decode p0 \<noteq> None \<and> p2 = sessionMAC key (p0 @ ''.'' @ p1) \<and>
        (\<exists>e. parse_int64 p1 = Some e \<and> unix now < e \<and> e \<le> unix now + 1800)
     then Inr p0 else Inl ErrSession)"
proof -
  have "split_n 3 CHR ''.'' (p0 @ ''.'' @ p1 @ ''.'' @ p2) = [p0, p1, p2]"
    using split_n_joined [OF assms(5,6)] by simp
  moreover have "length (p0 @ ''.'' @ p1 @ ''.'' @ p2) = tokenLength"
    using assms by (simp add: tokenLength_def)
  ultimately show ?thesis
    using assms by (auto simp: Validate_def Let_def split: option.splits)
qed

lemma Issue_accepted:
  assumes "Issue (Some random) key now = Inr (cookie, sid)" and "length random = 16"
  shows "Validate key (ck_value cookie) later =
      (if unix now \<le> unix later \<and> unix later < unix now + 1800 then Inr sid else Inl ErrSession) \<and>
    unix (ck_expires cookie) = unix now + ck_max_age cookie \<and> length sid = 32 \<and> list_all is_lower_hex sid"
proof -
  let ?id = "hex_encode random" and ?e = "unix now + 1800"
  let ?p = "format_int ?e"
  have range: "1000000000 \<le> unix now" "unix now \<le> 9999998199" and key: "length key = 32"
    using assms(1) by (auto simp: Issue_def split: if_splits)
  have cookie: "cookie = \<lparr> ck_name = cookieName,
      ck_value = ?id @ ''.'' @ ?p @ ''.'' @ sessionMAC key (?id @ ''.'' @ ?p), ck_path = ''/'', ck_secure = True,
      ck_http_only = True, ck_same_site = SameSiteStrictMode, ck_max_age = 1800, ck_expires = now + SessionLifetime \<rparr>"
    and sid: "sid = ?id"
    using assms(1) by (auto simp: Issue_def Let_def split: if_splits)
  have digits: "?p = format_nat (nat ?e)" using range by (simp add: format_int_def)
  have len: "length ?p = 10"
    unfolding digits using range by (intro length_format_nat [of 9, simplified]) simp_all
  have parse: "parse_int64 ?p = Some ?e"
    using range by (intro parse_int64_format_int) simp_all
  have "Validate key (ck_value cookie) later =
      (if unix later < ?e \<and> ?e \<le> unix later + 1800 then Inr ?id else Inl ErrSession)"
    using Validate_three_parts [of key ?id ?p "sessionMAC key (?id @ ''.'' @ ?p)" later] key len parse assms(2)
    by (simp add: cookie digits)
  then show ?thesis
    using assms(2) by (auto simp: cookie sid hex_encode_lower)
qed

text \<open>
  A credential issued at one time is accepted, for its own session, exactly while the clock's
  seconds lie from the time of issue up to but excluding the expiry 30 minutes later.
\<close>

theorem Issue_Validate:
  assumes "Issue (Some random) key now = Inr (cookie, sid)" and "length random = 16"
  shows "Validate key (ck_value cookie) later =
      (if unix now \<le> unix later \<and> unix later < unix now + 1800 then Inr sid else Inl ErrSession) \<and>
    unix (ck_expires cookie) = unix now + ck_max_age cookie \<and> length sid = 32 \<and> list_all is_lower_hex sid"
  using assms by (rule Issue_accepted)

text \<open>
  Whatever is accepted as a credential carries the keyed MAC of its own identifier and expiry, and
  the expiry lies ahead by at most 30 minutes: without the key there is nothing else to accept.
\<close>

theorem Validate_authentic:
  assumes "Validate key token now = Inr sid"
  shows "\<exists>expiry e. token = sid @ ''.'' @ expiry @ ''.'' @ sessionMAC key (sid @ ''.'' @ expiry) \<and>
    parse_int64 expiry = Some e \<and> unix now < e \<and> e \<le> unix now + 1800 \<and>
    length sid = 32 \<and> hex_decode sid \<noteq> None"
proof -
  from assms obtain p1 p2 where split: "split_n 3 CHR ''.'' token = [sid, p1, p2]"
    and ok: "length sid = 32" "hex_decode sid \<noteq> None" "p2 = sessionMAC key (sid @ ''.'' @ p1)"
      "\<exists>e. parse_int64 p1 = Some e \<and> unix now < e \<and> e \<le> unix now + 1800"
    by (auto simp: Validate_def Let_def split: if_splits list.splits option.splits)
  have "token = sid @ CHR ''.'' # p1 @ CHR ''.'' # p2" by (rule split_n_three [OF split])
  with ok show ?thesis by auto
qed

text \<open>The credential of a session whose identifier is all zeros.\<close>

definition zero_id :: string where
  "zero_id = hex_encode (replicate 16 0)"

lemma zero_id_simps [simp]: "length zero_id = 32" "hex_decode zero_id = Some (replicate 16 0)" "CHR ''.'' \<notin> set zero_id"
  by (simp_all add: zero_id_def)

theorem Issue_Validate_witness:
  "\<exists>cookie :: cookie. Validate (replicate 32 1) (ck_value cookie) (from_unix 1000000000) = Inr zero_id \<and>
     Validate (replicate 32 1) (ck_value cookie) (from_unix 1000001800) = Inl ErrSession"
proof -
  obtain cookie where run: "Issue (Some (replicate 16 0)) (replicate 32 1) (from_unix 1000000000) = Inr (cookie, zero_id)"
    by (simp add: Issue_def Let_def zero_id_def)
  have "length (replicate 16 (0 :: byte)) = 16" by simp
  note issued = Issue_Validate [OF run this]
  have "Validate (replicate 32 1) (ck_value cookie) (from_unix 1000000000) = Inr zero_id"
    using issued [of "from_unix 1000000000"] by simp
  moreover have "Validate (replicate 32 1) (ck_value cookie) (from_unix 1000001800) = Inl ErrSession"
    using issued [of "from_unix 1000001800"] by simp
  ultimately show ?thesis by blast
qed

theorem Validate_authentic_witness:
  "\<exists>expiry. Validate (replicate 32 1) (zero_id @ ''.'' @ expiry @ ''.'' @
       sessionMAC (replicate 32 1) (zero_id @ ''.'' @ expiry)) (from_unix 1000000000) = Inr zero_id \<and>
     (\<exists>e. parse_int64 expiry = Some e \<and> e \<le> 1000001800)"
proof -
  define stamp where "stamp = format_int 1000000001"
  have nat: "stamp = format_nat 1000000001" by (simp add: stamp_def format_int_def)
  have "length stamp = 10"
    unfolding nat by (intro length_format_nat [of 9, simplified]) simp_all
  moreover have "CHR ''.'' \<notin> set stamp" by (simp add: nat)
  moreover have "parse_int64 stamp = Some 1000000001"
    unfolding stamp_def by (intro parse_int64_format_int) simp_all
  ultimately have stamp: "length stamp = 10" "CHR ''.'' \<notin> set stamp" "parse_int64 stamp = Some 1000000001" .
  let ?mac = "sessionMAC (replicate 32 1) (zero_id @ ''.'' @ stamp)"
  let ?token = "zero_id @ ''.'' @ stamp @ ''.'' @ ?mac"
  have "Validate (replicate 32 1) ?token (from_unix 1000000000) = Inr zero_id"
    by (subst Validate_three_parts) (simp_all only: zero_id_simps stamp length_replicate length_sessionMAC, simp_all)
  note valid = this
  from Validate_authentic [OF this] obtain expiry e where
    tok: "?token = zero_id @ ''.'' @ expiry @ ''.'' @ sessionMAC (replicate 32 1) (zero_id @ ''.'' @ expiry)"
    and e: "parse_int64 expiry = Some e" "e \<le> unix (from_unix 1000000000) + 1800" by blast
  have "Validate (replicate 32 1) (zero_id @ ''.'' @ expiry @ ''.'' @
       sessionMAC (replicate 32 1) (zero_id @ ''.'' @ expiry)) (from_unix 1000000000) = Inr zero_id"
    using valid unfolding tok .
  with e show ?thesis by auto
qed

end
