(* ===== verification/Sandbox_Store.thy ===== *)
theory Sandbox_Store
  imports Pg_Store Sandbox_Session
begin

text \<open>
  The visitor sandbox's store: \<open>admission\<close>, \<open>Create\<close>, \<open>Active\<close>, \<open>Submit\<close>, \<open>charge\<close>, \<open>Replay\<close> and
  \<open>ValidScenario\<close> of \<open>internal/sandbox/store.go\<close>.

  Each operation is one transaction, serialised against the others by the lock on the budget row
  that \<open>admission\<close> takes, so it is atomic here; the deferred rollback is \<open>transaction\<close>.  As
  before \<open>nets k\<close> says how the \<open>k\<close>-th database call ends and \<open>clock k\<close> is the \<open>k\<close>-th reading of
  \<open>clock_timestamp()\<close>.
\<close>

datatype sandbox_error =
    Err_Session
  | Err_Quota
  | Err_Missing
  | Err_State
  | Err_Identifier
  | Err_No_Rows
  | Err_Db db_error

section \<open>Transactions\<close>

definition and_then :: "'e + 'a \<Rightarrow> ('a \<Rightarrow> 'e + 'b) \<Rightarrow> 'e + 'b" where
  "and_then x f = (case x of Inl e \<Rightarrow> Inl e | Inr a \<Rightarrow> f a)"

lemma and_then_simps [simp]: "and_then (Inl e) f = Inl e" "and_then (Inr a) f = f a"
  by (simp_all add: and_then_def)

lemma and_then_Inr_iff: "and_then x f = Inr b \<longleftrightarrow> (\<exists>a. x = Inr a \<and> f a = Inr b)"
  by (simp add: and_then_def split: sum.splits)

definition exec :: "net \<Rightarrow> (db \<Rightarrow> 'r \<times> db) \<Rightarrow> db \<Rightarrow> sandbox_error + 'r \<times> db" where
  "exec n f d = (case statement n f d of Inl e \<Rightarrow> Inl (Err_Db e) | Inr x \<Rightarrow> Inr x)"

definition query_row :: "net \<Rightarrow> (db \<Rightarrow> 'r) \<Rightarrow> db \<Rightarrow> sandbox_error + 'r" where
  "query_row n f d = (case query n f d of Inl e \<Rightarrow> Inl (Err_Db e) | Inr r \<Rightarrow> Inr r)"

definition transaction :: "net \<Rightarrow> sandbox_error + 'r \<times> db \<Rightarrow> db \<Rightarrow> (sandbox_error + 'r) \<times> db" where
  "transaction n body d =
     (case body of
        Inl e \<Rightarrow> (Inl e, d)
      | Inr (r, tx) \<Rightarrow>
          (case commit n d tx of
             (Inl e, d') \<Rightarrow> (Inl (Err_Db e), d')
           | (Inr _, d') \<Rightarrow> (Inr r, d')))"

lemma exec_Inr: "exec n f d = Inr (r, d') \<longleftrightarrow> n = Done \<and> f d = (r, d') \<and> schema_ok d'"
  by (cases n) (auto simp: exec_def statement_alt prod_eq_iff)

lemma exec_Done: "exec Done f d = (if schema_ok (snd (f d)) then Inr (f d) else Inl (Err_Db Constraint_Violation))"
  by (simp add: exec_def statement_alt)

lemma transaction_cases:
  assumes "transaction n body d = (r, d')"
  obtains (rolled_back) e where "r = Inl e" and "d' = d"
  | (committed) x where "body = Inr (x, d')" and "r = Inr x \<and> n = Done \<or> r = Inl (Err_Db Unavailable) \<and> n = Lost"
  using assms by (auto simp: transaction_def commit_def split: sum.splits prod.splits net.splits)

section \<open>Admission\<close>

definition hour_of :: "time \<Rightarrow> time" where
  "hour_of t = t - t mod hour"

definition refresh_budget :: "time \<Rightarrow> budget_row \<Rightarrow> budget_row" where
  "refresh_budget now b =
     (let h = hour_of now in
      \<lparr> bg_window = max (bg_window b) h,
        bg_sessions = (if bg_window b < h then 0 else bg_sessions b),
        bg_admissions = (if bg_window b < h then 0 else bg_admissions b) \<rparr>)"

definition update_budget :: "(budget_row \<Rightarrow> bool) \<Rightarrow> (budget_row \<Rightarrow> budget_row) \<Rightarrow> db \<Rightarrow> nat \<times> db" where
  "update_budget p f d =
     (case budget d of
        None \<Rightarrow> (0, d)
      | Some b \<Rightarrow> if p b then (1, d\<lparr>budget := Some (f b)\<rparr>) else (0, d))"

definition admission :: "(nat \<Rightarrow> net) \<Rightarrow> (nat \<Rightarrow> time) \<Rightarrow> db \<Rightarrow> sandbox_error + db" where
  "admission nets clock d =
     (if nets 0 \<noteq> Done then Inl (Err_Db Unavailable)
      else and_then (query_row (nets 1) budget d) (\<lambda>row.
        if row = None then Inl Err_No_Rows
        else and_then (exec (nets 2) (update_budget (\<lambda>_. True) (refresh_budget (clock 0))) d) (\<lambda>(_, d1).
          Inr d1)))"

definition charge :: "net \<Rightarrow> db \<Rightarrow> sandbox_error + db" where
  "charge n d =
     and_then (exec n (update_budget (\<lambda>b. bg_admissions b < 1000)
                        (\<lambda>b. b\<lparr>bg_admissions := bg_admissions b + 1\<rparr>)) d) (\<lambda>(affected, d1).
       if affected \<noteq> 1 then Inl Err_Quota else Inr d1)"

section \<open>Sessions\<close>

definition insert_session :: "string \<Rightarrow> time \<Rightarrow> db \<Rightarrow> unit \<times> db" where
  "insert_session sid expiry d =
     ((), d\<lparr>sessions := sessions d @ [\<lparr> ss_id = sid, ss_expires = pg_time expiry, ss_events = 0 \<rparr>]\<rparr>)"

definition count_session :: "db \<Rightarrow> nat \<times> db" where
  "count_session d =
     update_budget (\<lambda>b. bg_sessions b < 100 \<and> length (sessions d) < 1000)
       (\<lambda>b. b\<lparr>bg_sessions := bg_sessions b + 1\<rparr>) d"

definition Create :: "(nat \<Rightarrow> net) \<Rightarrow> (nat \<Rightarrow> time) \<Rightarrow> string \<Rightarrow> time \<Rightarrow> db \<Rightarrow> (sandbox_error + unit) \<times> db" where
  "Create nets clock sid expiry d =
     transaction (nets 5)
       (and_then (admission nets clock d) (\<lambda>d1.
        and_then (exec (nets 3) count_session d1) (\<lambda>(affected, d2).
          if affected \<noteq> 1 then Inl Err_Quota
          else exec (nets 4) (insert_session sid expiry) d2))) d"

definition Active :: "net \<Rightarrow> time \<Rightarrow> string \<Rightarrow> db \<Rightarrow> sandbox_error + unit" where
  "Active n now sid d =
     and_then (query_row n (\<lambda>d. session_live d now sid) d) (\<lambda>active.
       if active = False then Inl Err_Session else Inr ())"

section \<open>Submission\<close>

definition ValidScenario :: "string \<Rightarrow> bool" where
  "ValidScenario value =
     (value = ''success'' \<or> value = ''temporary_failure'' \<or> value = ''permanent_failure'')"

definition use_session :: "time \<Rightarrow> string \<Rightarrow> db \<Rightarrow> nat \<times> db" where
  "use_session now sid d =
     (let (n, rows) = update_rows (\<lambda>s. ss_id s = sid \<and> ss_expires s > now \<and> ss_events s < 20)
            (\<lambda>s. s\<lparr>ss_events := ss_events s + 1\<rparr>) (sessions d)
      in (n, d\<lparr>sessions := rows\<rparr>))"

text \<open>\<open>%q\<close> of an accepted scenario puts it between double quotes.\<close>

definition scenario_body :: "string \<Rightarrow> bytes" where
  "scenario_body scenario = bytes_of (''{\"simulated\":true,\"scenario\":\"'' @ scenario @ ''\"}'')"

definition sandbox_row :: "(nat \<Rightarrow> time) \<Rightarrow> string \<Rightarrow> string \<Rightarrow> string \<Rightarrow> event_row" where
  "sandbox_row clock event_id sid scenario =
     \<lparr> ev_id = event_id, ev_source = ''sandbox:'' @ sid,
       ev_external = ''simulated-'' @ scenario @ ''-'' @ event_id,
       ev_body = scenario_body scenario, ev_sha = sha256 (scenario_body scenario),
       ev_dest = ''relay-simulator://'' @ scenario,
       ev_state = Pending, ev_attempts = 0, ev_replays = 0, ev_next = pg_time (clock 3),
       ev_lease = None, ev_claim = None, ev_created = pg_time (clock 4), ev_delivered = None,
       ev_sandbox = Some sid \<rparr>"

definition Submit ::
  "bytes option \<Rightarrow> (nat \<Rightarrow> net) \<Rightarrow> (nat \<Rightarrow> time) \<Rightarrow> (string \<Rightarrow> bool) option \<Rightarrow> string \<Rightarrow> string \<Rightarrow> db \<Rightarrow>
   (sandbox_error + string) \<times> db \<times> string list" where
  "Submit random nets clock publisher sid scenario d =
     (if \<not> ValidScenario scenario then (Inl Err_State, d, [])
      else case NewUUID random of
        None \<Rightarrow> (Inl Err_Identifier, d, [])
      | Some event_id \<Rightarrow>
          (case transaction (nets 7)
             (and_then (admission nets clock d) (\<lambda>d1.
              and_then (exec (nets 3) (use_session (clock 1) sid) d1) (\<lambda>(affected, d2).
                if affected \<noteq> 1
                then and_then (query_row (nets 4) (\<lambda>d. session_live d (clock 2) sid) d2) (\<lambda>active.
                       if active = False then Inl Err_Session else Inl Err_Quota)
                else
                  and_then (charge (nets 5) d2) (\<lambda>d3.
                  exec (nets 6) (\<lambda>d. ((), d\<lparr>events := events d @ [sandbox_row clock event_id sid scenario]\<rparr>)) d3)))) d of
             (Inl e, d') \<Rightarrow> (Inl e, d', [])
           | (Inr _, d') \<Rightarrow> (Inr event_id, d', fst (AfterCommit publisher event_id))))"

section \<open>Replay\<close>

definition owned_event :: "time \<Rightarrow> string \<Rightarrow> string \<Rightarrow> db \<Rightarrow> (event_state \<times> int) option" where
  "owned_event now sid event_id d =
     map_option (\<lambda>e. (ev_state e, ev_replays e))
       (List.find (\<lambda>e. ev_id e = event_id \<and> ev_sandbox e = Some sid \<and> session_live d now sid) (events d))"

definition sandbox_replay_event :: "time \<Rightarrow> event_row \<Rightarrow> event_row" where
  "sandbox_replay_event now e =
     e\<lparr>ev_state := Pending, ev_attempts := 0, ev_replays := ev_replays e + 1, ev_next := pg_time now,
       ev_lease := None, ev_claim := None\<rparr>"

definition sandbox_replay_statement :: "string \<Rightarrow> string \<Rightarrow> time \<Rightarrow> db \<Rightarrow> unit \<times> db" where
  "sandbox_replay_statement event_id sid now d =
     ((), d\<lparr>events := snd (update_rows (\<lambda>e. ev_id e = event_id \<and> ev_sandbox e = Some sid)
                             (sandbox_replay_event now) (events d))\<rparr>)"

definition Sandbox_Replay ::
  "(nat \<Rightarrow> net) \<Rightarrow> (nat \<Rightarrow> time) \<Rightarrow> (string \<Rightarrow> bool) option \<Rightarrow> string \<Rightarrow> string \<Rightarrow> db \<Rightarrow>
   (sandbox_error + unit) \<times> db \<times> string list" where
  "Sandbox_Replay nets clock publisher sid event_id d =
     (case transaction (nets 6)
        (and_then (admission nets clock d) (\<lambda>d1.
         and_then (query_row (nets 3) (owned_event (clock 1) sid event_id) d1) (\<lambda>row.
           case row of
             None \<Rightarrow> Inl Err_Missing
           | Some (state, replays) \<Rightarrow>
               if state \<noteq> Dead_Lettered then Inl Err_State
               else if replays \<ge> 2 then Inl Err_Quota
               else and_then (charge (nets 4) d1) (\<lambda>d2.
                    exec (nets 5) (sandbox_replay_statement event_id sid (clock 2)) d2)))) d of
        (Inl e, d') \<Rightarrow> (Inl e, d', [])
      | (Inr _, d') \<Rightarrow> (Inr (), d', fst (AfterCommit publisher event_id)))"

section \<open>Tenancy\<close>

text \<open>
  What separates visitors from the operator in the shared tables: a visitor event carries its
  session in the source key, its scenario in the external identifier and a simulator
  destination, and was replayed at most twice; no other event has a source key of that form.
\<close>

definition visitor_row :: "event_row \<Rightarrow> string \<Rightarrow> bool" where
  "visitor_row e sid \<longleftrightarrow> ev_source e = ''sandbox:'' @ sid \<and> ev_replays e \<le> 2 \<and>
     (\<exists>scenario. ValidScenario scenario \<and> ev_external e = ''simulated-'' @ scenario @ ''-'' @ ev_id e \<and>
        ev_dest e = ''relay-simulator://'' @ scenario)"

definition tenancy_row :: "event_row \<Rightarrow> bool" where
  "tenancy_row e \<longleftrightarrow>
     (case ev_sandbox e of None \<Rightarrow> \<not> has_prefix (ev_source e) ''sandbox:'' | Some sid \<Rightarrow> visitor_row e sid)"

definition tenancy_ok :: "db \<Rightarrow> bool" where
  "tenancy_ok d \<longleftrightarrow> (\<forall>e \<in> set (events d). tenancy_row e)"

lemma tenancy_okD: "tenancy_ok d \<Longrightarrow> e \<in> set (events d) \<Longrightarrow> tenancy_row e"
  by (simp add: tenancy_ok_def)

lemma scenario_separated:
  assumes "ValidScenario a" and "ValidScenario b" and "a @ ''-'' @ i = b @ ''-'' @ j"
  shows "a = b \<and> i = j"
  using assms by (auto simp: ValidScenario_def)

lemma visitor_key_unique:
  assumes "tenancy_row e" and "event_key e = (''sandbox:'' @ sid, ''simulated-'' @ scenario @ ''-'' @ i)"
    and "ValidScenario scenario"
  shows "ev_id e = i"
proof -
  obtain s where s: "ev_sandbox e = Some s"
    using assms(1,2) by (auto simp: tenancy_row_def event_key_def split: option.splits)
  then obtain scenario' where "ValidScenario scenario'"
    and "ev_external e = ''simulated-'' @ scenario' @ ''-'' @ ev_id e"
    using assms(1) by (auto simp: tenancy_row_def visitor_row_def)
  with assms(2,3) scenario_separated [of scenario' scenario "ev_id e" i] show ?thesis
    by (simp add: event_key_def)
qed

section \<open>The budget\<close>

lemma refresh_budget_check: "budget_check b \<Longrightarrow> budget_check (refresh_budget now b)"
  by (simp add: budget_check_def refresh_budget_def Let_def)

lemma store_ok_budget:
  "store_ok d \<Longrightarrow> budget_check b \<Longrightarrow> store_ok (d\<lparr>budget := Some b\<rparr>)"
  by (simp add: store_ok_def schema_ok_budget lifecycle_ok_def history_ok_def)

lemma store_ok_budgetD: "store_ok d \<Longrightarrow> budget d = Some b \<Longrightarrow> budget_check b"
  by (simp add: store_ok_def schema_defs)

lemma admission_Inr:
  "admission nets clock d = Inr d1 \<Longrightarrow>
     \<exists>b. budget d = Some b \<and> d1 = d\<lparr>budget := Some (refresh_budget (clock 0) b)\<rparr> \<and> schema_ok d1"
  by (auto simp: admission_def query_row_def query_def and_then_Inr_iff exec_Inr update_budget_def
      split: if_splits option.splits)

lemma admission_Done:
  assumes "store_ok d" and "budget d = Some b" and "\<forall>k. nets k = Done"
  shows "admission nets clock d = Inr (d\<lparr>budget := Some (refresh_budget (clock 0) b)\<rparr>)"
proof -
  have "store_ok (d\<lparr>budget := Some (refresh_budget (clock 0) b)\<rparr>)"
    using assms by (intro store_ok_budget refresh_budget_check store_ok_budgetD)
  with assms show ?thesis
    by (simp add: admission_def query_row_def query_def exec_Done update_budget_def store_ok_def)
qed

lemma charge_Inr:
  "charge n d = Inr d1 \<Longrightarrow> n = Done \<and> (\<exists>b. budget d = Some b \<and> bg_admissions b < 1000 \<and>
     d1 = d\<lparr>budget := Some (b\<lparr>bg_admissions := bg_admissions b + 1\<rparr>)\<rparr> \<and> schema_ok d1)"
  by (auto simp: charge_def and_then_Inr_iff exec_Inr update_budget_def split: if_splits option.splits)

lemma charge_Done:
  assumes "schema_ok d" and "budget d = Some b"
  shows "charge Done d = (if bg_admissions b < 1000
    then Inr (d\<lparr>budget := Some (b\<lparr>bg_admissions := bg_admissions b + 1\<rparr>)\<rparr>) else Inl Err_Quota)"
proof -
  have check: "budget_check b" using assms by (simp add: schema_defs)
  show ?thesis
  proof (cases "bg_admissions b < 1000")
    case True
    then have "schema_ok (d\<lparr>budget := Some (b\<lparr>bg_admissions := bg_admissions b + 1\<rparr>)\<rparr>)"
      using check by (intro schema_ok_budget [OF assms(1)]) (simp add: budget_check_def)
    with True assms(2) show ?thesis by (simp add: charge_def exec_Done update_budget_def)
  next
    case False
    with assms show ?thesis by (simp add: charge_def exec_Done update_budget_def)
  qed
qed

lemma Create_run:
  fixes clock b
  defines "b1 \<equiv> \<lparr> bg_window = max (bg_window b) (hour_of (clock 0)),
      bg_sessions = (if bg_window b < hour_of (clock 0) then 0 else bg_sessions b),
      bg_admissions = (if bg_window b < hour_of (clock 0) then 0 else bg_admissions b) \<rparr>"
  assumes "store_ok d" and "budget d = Some b" and "\<forall>k. nets k = Done"
    and "length sid = 32" and "list_all is_lower_hex sid" and "sid \<notin> ss_id ` set (sessions d)"
  shows "Create nets clock sid expiry d =
    (if bg_sessions b1 < 100 \<and> length (sessions d) < 1000
     then (Inr (), d\<lparr>budget := Some (b1\<lparr>bg_sessions := bg_sessions b1 + 1\<rparr>),
             sessions := sessions d @ [\<lparr> ss_id = sid, ss_expires = pg_time expiry, ss_events = 0 \<rparr>]\<rparr>)
     else (Inl Err_Quota, d))"
proof -
  let ?d1 = "d\<lparr>budget := Some b1\<rparr>"
  let ?d2 = "d\<lparr>budget := Some (b1\<lparr>bg_sessions := bg_sessions b1 + 1\<rparr>)\<rparr>"
  let ?s = "\<lparr> ss_id = sid, ss_expires = pg_time expiry, ss_events = 0 \<rparr>"
  have b1: "b1 = refresh_budget (clock 0) b" by (simp add: b1_def refresh_budget_def Let_def)
  have check: "budget_check b1"
    unfolding b1 using assms(2,3) by (intro refresh_budget_check store_ok_budgetD)
  have ok: "schema_ok d" using assms(2) by (simp add: store_ok_def)
  have adm: "admission nets clock d = Inr ?d1"
    unfolding b1 by (rule admission_Done [OF assms(2-4)])
  show ?thesis
  proof (cases "bg_sessions b1 < 100 \<and> length (sessions d) < 1000")
    case True
    then have "budget_check (b1\<lparr>bg_sessions := bg_sessions b1 + 1\<rparr>)"
      using check by (simp add: budget_check_def)
    then have d2: "schema_ok ?d2" by (rule schema_ok_budget [OF ok])
    have "schema_ok (?d2\<lparr>sessions := sessions ?d2 @ [?s]\<rparr>)"
      by (rule schema_ok_append_session [OF d2]) (use assms(5-7) in \<open>simp_all add: session_check_def\<close>)
    with True d2 show ?thesis
      using assms(4)
      by (simp add: Create_def adm exec_Done count_session_def update_budget_def insert_session_def
          transaction_def commit_def)
  next
    case False
    have "schema_ok ?d1" by (rule schema_ok_budget [OF ok check])
    then have "exec (nets 3) count_session ?d1 = Inr (0, ?d1)"
      using False assms(4) by (auto simp: exec_Done count_session_def update_budget_def)
    with False show ?thesis by (simp only: Create_def adm transaction_def) simp
  qed
qed

section \<open>Submission\<close>

text \<open>
  A visitor session is created exactly when the hour's budget, reset when a new hour has begun,
  has a session left and fewer than 1000 sessions are retained; otherwise the quota error is
  reported and nothing changes.
\<close>

theorem Create_outcome:
  fixes clock b
  defines "b1 \<equiv> \<lparr> bg_window = max (bg_window b) (hour_of (clock 0)),
      bg_sessions = (if bg_window b < hour_of (clock 0) then 0 else bg_sessions b),
      bg_admissions = (if bg_window b < hour_of (clock 0) then 0 else bg_admissions b) \<rparr>"
  assumes "store_ok d" and "budget d = Some b" and "\<forall>k. nets k = Done"
    and "length sid = 32" and "list_all is_lower_hex sid" and "sid \<notin> ss_id ` set (sessions d)"
  shows "Create nets clock sid expiry d =
    (if bg_sessions b1 < 100 \<and> length (sessions d) < 1000
     then (Inr (), d\<lparr>budget := Some (b1\<lparr>bg_sessions := bg_sessions b1 + 1\<rparr>),
             sessions := sessions d @ [\<lparr> ss_id = sid, ss_expires = pg_time expiry, ss_events = 0 \<rparr>]\<rparr>)
     else (Inl Err_Quota, d))"
  unfolding b1_def by (rule Create_run [OF assms(2-)])

lemma schema_ok_sessions:
  assumes "schema_ok d" and "\<And>s. s \<in> set (sessions d) \<Longrightarrow> session_check (f s)" and "\<And>s. ss_id (f s) = ss_id s"
  shows "schema_ok (d\<lparr>sessions := map f (sessions d)\<rparr>)"
proof -
  have [simp]: "ss_id \<circ> f = ss_id" using assms(3) by (auto simp: fun_eq_iff)
  have [simp]: "ss_id ` f ` set (sessions d) = ss_id ` set (sessions d)" by (simp add: image_comp)
  show ?thesis using assms by (auto simp: schema_defs list_all_iff split: option.splits)
qed

lemma text_length_append [simp]: "text_length (s @ t) = text_length s + text_length t"
  by (simp add: text_length_def)

lemma text_length_Cons [simp]:
  "text_length [] = 0"
  "text_length (c # s) = (if 128 \<le> (of_char c :: nat) \<and> (of_char c :: nat) < 192 then 0 else 1) + text_length s"
  by (simp_all add: text_length_def)

lemma scenario_text_length:
  "ValidScenario scenario \<Longrightarrow> text_length scenario \<le> 17 \<and> length scenario \<le> 17"
  by (auto simp: ValidScenario_def text_length_def)

lemma session_id_length: "schema_ok d \<Longrightarrow> sid \<in> ss_id ` set (sessions d) \<Longrightarrow> length sid = 32"
  by (auto simp: schema_defs list_all_iff session_check_def)

lemma sandbox_row_check:
  assumes "ValidScenario scenario" and "length sid = 32" and "length event_id \<le> 64"
  shows "event_check (sandbox_row clock event_id sid scenario)"
  using assms scenario_text_length [OF assms(1)] text_length_le [of sid] text_length_le [of event_id]
  by (simp add: event_check_def sandbox_row_def scenario_body_def)

lemma sandbox_row_simps [simp]:
  "ev_id (sandbox_row clock i sid sc) = i" "ev_sandbox (sandbox_row clock i sid sc) = Some sid"
  "event_key (sandbox_row clock i sid sc) = (''sandbox:'' @ sid, ''simulated-'' @ sc @ ''-'' @ i)"
  by (simp_all add: sandbox_row_def event_key_def)

lemma sandbox_row_ok:
  assumes "ValidScenario sc"
  shows "lifecycle_row (sandbox_row clock i sid sc)" and "tenancy_row (sandbox_row clock i sid sc)"
  using assms by (auto simp: sandbox_row_def lifecycle_row_def tenancy_row_def visitor_row_def)

lemma sandbox_row_append:
  assumes "schema_ok d" and "tenancy_ok d" and "ValidScenario sc" and "sid \<in> ss_id ` set (sessions d)"
    and "length i \<le> 64" and "i \<notin> ev_id ` set (events d)"
  shows "schema_ok (d\<lparr>events := events d @ [sandbox_row clock i sid sc]\<rparr>)"
proof (rule schema_ok_append_event [OF assms(1)])
  show "event_check (sandbox_row clock i sid sc)"
    using sandbox_row_check [OF assms(3) session_id_length [OF assms(1,4)] assms(5)] .
  show "event_key (sandbox_row clock i sid sc) \<notin> event_key ` set (events d)"
  proof
    assume "event_key (sandbox_row clock i sid sc) \<in> event_key ` set (events d)"
    then obtain e where e: "e \<in> set (events d)" "event_key e = (''sandbox:'' @ sid, ''simulated-'' @ sc @ ''-'' @ i)"
      by auto
    then have "ev_id e = i" using visitor_key_unique tenancy_okD [OF assms(2)] assms(3) by blast
    with e(1) assms(6) show False by auto
  qed
qed (use assms in simp_all)

definition session_usable :: "db \<Rightarrow> time \<Rightarrow> string \<Rightarrow> bool" where
  "session_usable d now sid \<longleftrightarrow> (\<exists>s \<in> set (sessions d). ss_id s = sid \<and> ss_expires s > now \<and> ss_events s < 20)"

definition used_session :: "time \<Rightarrow> string \<Rightarrow> session_row \<Rightarrow> session_row" where
  "used_session now sid s =
     (if ss_id s = sid \<and> ss_expires s > now \<and> ss_events s < 20 then s\<lparr>ss_events := ss_events s + 1\<rparr> else s)"

lemma used_session_id [simp]: "ss_id (used_session now sid s) = ss_id s"
  by (simp add: used_session_def)

lemma use_session_eq:
  assumes "schema_ok d"
  shows "use_session now sid d =
    (if session_usable d now sid then 1 else 0, d\<lparr>sessions := map (used_session now sid) (sessions d)\<rparr>)"
proof -
  have "distinct (map ss_id (sessions d))" using assms by (simp add: schema_defs)
  from filter_unique [OF this, of "\<lambda>s. ss_id s = sid \<and> ss_expires s > now \<and> ss_events s < 20" sid]
  show ?thesis
    by (simp add: use_session_def update_rows_def session_usable_def used_session_def [abs_def])
qed

lemma use_session_schema:
  assumes "schema_ok d"
  shows "schema_ok (d\<lparr>sessions := map (used_session now sid) (sessions d)\<rparr>)"
proof (rule schema_ok_sessions [OF assms])
  fix s assume "s \<in> set (sessions d)"
  with assms have "session_check s" by (simp add: schema_defs list_all_iff)
  then show "session_check (used_session now sid s)" by (auto simp: session_check_def used_session_def)
qed simp

lemma unused_session: "\<not> session_usable d now sid \<Longrightarrow> map (used_session now sid) (sessions d) = sessions d"
  by (auto simp: session_usable_def used_session_def intro!: map_idI)

lemma NewUUID_length:
  assumes "NewUUID (Some random) = Some i" and "length random = 16"
  shows "length i = 36"
proof -
  obtain v where "NewUUID (Some random) = Some (uuid_groups v)" and "length v = 16"
    using assms(2) by (rule NewUUID_groups)
  then have "i = uuid_groups v" using assms(1) by simp
  with \<open>length v = 16\<close> show ?thesis by (simp add: uuid_groups_def min_def)
qed

lemma Submit_run:
  fixes clock b random d
  defines "b1 \<equiv> \<lparr> bg_window = max (bg_window b) (hour_of (clock 0)),
      bg_sessions = (if bg_window b < hour_of (clock 0) then 0 else bg_sessions b),
      bg_admissions = (if bg_window b < hour_of (clock 0) then 0 else bg_admissions b) \<rparr>"
  assumes "store_ok d" and "tenancy_ok d" and "budget d = Some b" and "\<forall>k. nets k = Done"
    and "NewUUID (Some random) = Some i" and "length random = 16" and "i \<notin> ev_id ` set (events d)"
  shows "Submit (Some random) nets clock publisher sid sc d =
    (if \<not> ValidScenario sc then (Inl Err_State, d, [])
     else if \<not> session_usable d (clock 1) sid
       then (Inl (if session_live d (clock 2) sid then Err_Quota else Err_Session), d, [])
     else if \<not> bg_admissions b1 < 1000 then (Inl Err_Quota, d, [])
     else (Inr i, d\<lparr>budget := Some (b1\<lparr>bg_admissions := bg_admissions b1 + 1\<rparr>),
             sessions := map (used_session (clock 1) sid) (sessions d),
             events := events d @
               [\<lparr> ev_id = i, ev_source = ''sandbox:'' @ sid, ev_external = ''simulated-'' @ sc @ ''-'' @ i,
                  ev_body = scenario_body sc, ev_sha = sha256 (scenario_body sc), ev_dest = ''relay-simulator://'' @ sc,
                  ev_state = Pending, ev_attempts = 0, ev_replays = 0, ev_next = pg_time (clock 3),
                  ev_lease = None, ev_claim = None, ev_created = pg_time (clock 4), ev_delivered = None,
                  ev_sandbox = Some sid \<rparr>]\<rparr>,
           fst (AfterCommit publisher i)))"
proof (cases "ValidScenario sc")
  case valid: True
  let ?d1 = "d\<lparr>budget := Some b1\<rparr>"
  let ?d2 = "?d1\<lparr>sessions := map (used_session (clock 1) sid) (sessions d)\<rparr>"
  let ?d3 = "?d2\<lparr>budget := Some (b1\<lparr>bg_admissions := bg_admissions b1 + 1\<rparr>)\<rparr>"
  let ?d4 = "?d3\<lparr>events := events d @ [sandbox_row clock i sid sc]\<rparr>"
  have b1: "b1 = refresh_budget (clock 0) b" by (simp add: b1_def refresh_budget_def Let_def)
  have check: "budget_check b1"
    unfolding b1 using assms(2,4) by (intro refresh_budget_check store_ok_budgetD)
  have ok: "schema_ok d" using assms(2) by (simp add: store_ok_def)
  have d1: "schema_ok ?d1" by (rule schema_ok_budget [OF ok check])
  have d2: "schema_ok ?d2" using use_session_schema [OF d1] by simp
  have adm: "admission nets clock d = Inr ?d1"
    unfolding b1 by (rule admission_Done [OF assms(2,4,5)])
  have usable: "session_usable ?d1 (clock 1) sid = session_usable d (clock 1) sid"
    by (simp add: session_usable_def)
  have use: "exec Done (use_session (clock 1) sid) ?d1 =
      Inr (if session_usable d (clock 1) sid then 1 else 0, ?d2)"
    using d2 assms(5) usable by (simp add: exec_Done use_session_eq [OF d1])
  have live: "session_live ?d1 (clock 2) sid = session_live d (clock 2) sid" by (simp add: session_live_def)
  note run = Submit_def adm use valid assms(5,6)
  show ?thesis
  proof (cases "session_usable d (clock 1) sid")
    case False
    then have "?d2 = ?d1" using unused_session by simp
    with False valid live show ?thesis
      by (simp add: run query_row_def query_def transaction_def del: One_nat_def)
  next
    case usable: True
    have chg: "charge Done ?d2 = (if bg_admissions b1 < 1000 then Inr ?d3 else Inl Err_Quota)"
      using charge_Done [OF d2, of b1] assms(5) by simp
    show ?thesis
    proof (cases "bg_admissions b1 < 1000")
      case False
      with usable valid chg show ?thesis by (simp add: run transaction_def del: One_nat_def)
    next
      case True
      then have "budget_check (b1\<lparr>bg_admissions := bg_admissions b1 + 1\<rparr>)"
        using check by (simp add: budget_check_def)
      then have d3: "schema_ok ?d3" by (rule schema_ok_budget [OF d2])
      have "tenancy_ok ?d3" using assms(3) by (simp add: tenancy_ok_def)
      moreover have "sid \<in> ss_id ` set (sessions ?d3)"
        using usable by (auto simp: session_usable_def image_comp comp_def)
      ultimately have "schema_ok (?d3\<lparr>events := events ?d3 @ [sandbox_row clock i sid sc]\<rparr>)"
        using valid assms(8) NewUUID_length [OF assms(6,7)] by (intro sandbox_row_append [OF d3]) simp_all
      then have "exec Done (\<lambda>d. ((), d\<lparr>events := events d @ [sandbox_row clock i sid sc]\<rparr>)) ?d3 = Inr ((), ?d4)"
        using assms(5) by (simp add: exec_Done)
      with True usable valid chg show ?thesis
        unfolding sandbox_row_def [symmetric]
        by (simp add: run transaction_def commit_def del: One_nat_def)
    qed
  qed
qed (simp add: Submit_def)

text \<open>
  C17: a visitor's submission, with the quotas of the session and of the hour.  It succeeds exactly for
  an accepted scenario, a live session with fewer than 20 events and an hour with fewer than
  1000 admissions; then one pending event of that session, addressed to the simulator, is
  stored, both counters grow by one and one hint is published.  Otherwise nothing changes.
\<close>

theorem Submit_outcome:
  fixes clock b random d
  defines "b1 \<equiv> \<lparr> bg_window = max (bg_window b) (hour_of (clock 0)),
      bg_sessions = (if bg_window b < hour_of (clock 0) then 0 else bg_sessions b),
      bg_admissions = (if bg_window b < hour_of (clock 0) then 0 else bg_admissions b) \<rparr>"
  assumes "store_ok d" and "tenancy_ok d" and "budget d = Some b" and "\<forall>k. nets k = Done"
    and "NewUUID (Some random) = Some i" and "length random = 16" and "i \<notin> ev_id ` set (events d)"
  shows "Submit (Some random) nets clock publisher sid sc d =
    (if \<not> ValidScenario sc then (Inl Err_State, d, [])
     else if \<not> session_usable d (clock 1) sid
       then (Inl (if session_live d (clock 2) sid then Err_Quota else Err_Session), d, [])
     else if \<not> bg_admissions b1 < 1000 then (Inl Err_Quota, d, [])
     else (Inr i, d\<lparr>budget := Some (b1\<lparr>bg_admissions := bg_admissions b1 + 1\<rparr>),
             sessions := map (used_session (clock 1) sid) (sessions d),
             events := events d @
               [\<lparr> ev_id = i, ev_source = ''sandbox:'' @ sid, ev_external = ''simulated-'' @ sc @ ''-'' @ i,
                  ev_body = scenario_body sc, ev_sha = sha256 (scenario_body sc), ev_dest = ''relay-simulator://'' @ sc,
                  ev_state = Pending, ev_attempts = 0, ev_replays = 0, ev_next = pg_time (clock 3),
                  ev_lease = None, ev_claim = None, ev_created = pg_time (clock 4), ev_delivered = None,
                  ev_sandbox = Some sid \<rparr>]\<rparr>,
           fst (AfterCommit publisher i)))"
  unfolding b1_def by (rule Submit_run [OF assms(2-)])

section \<open>What the operations keep\<close>

lemma store_ok_sessions:
  "store_ok d \<Longrightarrow> schema_ok (d\<lparr>sessions := ss\<rparr>) \<Longrightarrow> store_ok (d\<lparr>sessions := ss\<rparr>)"
  by (simp add: store_ok_def lifecycle_ok_def history_ok_def)

lemma Create_cases:
  assumes "Create nets clock sid expiry d = (r, d')"
  obtains (rolled_back) e where "r = Inl e" and "d' = d"
  | (committed) b where "budget d = Some b" and "schema_ok d'"
      and "d' = d\<lparr>budget := Some ((refresh_budget (clock 0) b)\<lparr>bg_sessions := bg_sessions (refresh_budget (clock 0) b) + 1\<rparr>),
             sessions := sessions d @ [\<lparr> ss_id = sid, ss_expires = pg_time expiry, ss_events = 0 \<rparr>]\<rparr>"
  using assms unfolding Create_def
proof (cases rule: transaction_cases)
  case (committed x)
  then obtain d1 d2 where steps: "admission nets clock d = Inr d1" "exec (nets 3) count_session d1 = Inr (1, d2)"
    "exec (nets 4) (insert_session sid expiry) d2 = Inr (x, d')"
    by (auto simp: and_then_Inr_iff split: if_splits)
  from admission_Inr [OF steps(1)] obtain b where b: "budget d = Some b"
    "d1 = d\<lparr>budget := Some (refresh_budget (clock 0) b)\<rparr>" by blast
  with steps(2,3) show ?thesis
    by (intro that(2) [OF b(1)])
      (auto simp: exec_Inr count_session_def update_budget_def insert_session_def split: if_splits)
qed (rule that(1))

lemma Create_inv:
  assumes "store_ok d" and "Create nets clock sid expiry d = (r, d')"
  shows "store_ok d' \<and> (tenancy_ok d \<longrightarrow> tenancy_ok d')"
  using assms(2)
proof (cases rule: Create_cases)
  case (committed b)
  with assms(1) show ?thesis
    by (simp add: store_ok_def lifecycle_ok_def history_ok_def tenancy_ok_def)
qed (use assms(1) in simp)

lemma Submit_cases:
  assumes "schema_ok d" and "Submit random nets clock publisher sid sc d = (r, d', pubs)"
  obtains (unchanged) e where "r = Inl e" and "d' = d" and "pubs = []"
  | (stored) i b where "NewUUID random = Some i" and "ValidScenario sc" and "budget d = Some b"
      and "bg_admissions (refresh_budget (clock 0) b) < 1000" and "session_usable d (clock 1) sid" and "schema_ok d'"
      and "d' = d\<lparr>budget := Some ((refresh_budget (clock 0) b)
                 \<lparr>bg_admissions := bg_admissions (refresh_budget (clock 0) b) + 1\<rparr>),
             sessions := map (used_session (clock 1) sid) (sessions d),
             events := events d @ [sandbox_row clock i sid sc]\<rparr>"
      and "r = Inr i \<and> pubs = fst (AfterCommit publisher i) \<or> r = Inl (Err_Db Unavailable) \<and> pubs = []"
proof (cases "\<exists>i. NewUUID random = Some i \<and> ValidScenario sc")
  case False
  with assms(2) show ?thesis
    by (cases "ValidScenario sc") (auto simp: Submit_def split: option.splits intro: unchanged)
next
  case True
  then obtain i where i: "NewUUID random = Some i" "ValidScenario sc" by blast
  let ?insert = "\<lambda>d. ((), d\<lparr>events := events d @ [sandbox_row clock i sid sc]\<rparr>)"
  define body where "body = and_then (admission nets clock d) (\<lambda>d1.
     and_then (exec (nets 3) (use_session (clock 1) sid) d1) (\<lambda>(affected, d2).
       if affected \<noteq> 1
       then and_then (query_row (nets 4) (\<lambda>d. session_live d (clock 2) sid) d2) (\<lambda>active.
              if active = False then Inl Err_Session else Inl Err_Quota)
       else and_then (charge (nets 5) d2) (exec (nets 6) ?insert)))"
  obtain r0 d0 where tx: "transaction (nets 7) body d = (r0, d0)" by fastforce
  then have res: "(r, d', pubs) = (case r0 of Inl e \<Rightarrow> (Inl e, d0, []) | Inr _ \<Rightarrow> (Inr i, d0, fst (AfterCommit publisher i)))"
    using assms(2) i by (simp add: Submit_def body_def split: sum.splits)
  from tx show ?thesis
  proof (cases rule: transaction_cases)
    case (rolled_back e)
    with res show ?thesis by (auto intro: unchanged)
  next
    case (committed x)
    then obtain d1 n d2 where steps: "admission nets clock d = Inr d1"
      "exec (nets 3) (use_session (clock 1) sid) d1 = Inr (n, d2)" and n: "n = 1"
      and rest: "and_then (charge (nets 5) d2) (exec (nets 6) ?insert) = Inr (x, d0)"
      by (auto simp: body_def and_then_Inr_iff split: if_splits)
    from rest obtain d3 where d3: "charge (nets 5) d2 = Inr d3" "exec (nets 6) ?insert d3 = Inr (x, d0)"
      by (auto simp: and_then_Inr_iff)
    from admission_Inr [OF steps(1)] obtain b where b: "budget d = Some b"
      "d1 = d\<lparr>budget := Some (refresh_budget (clock 0) b)\<rparr>" "schema_ok d1" by blast
    have "use_session (clock 1) sid d1 = (1, d2)"
      using steps(2) unfolding n exec_Inr by (elim conjE)
    then have "session_usable d1 (clock 1) sid" "d2 = d1\<lparr>sessions := map (used_session (clock 1) sid) (sessions d1)\<rparr>"
      unfolding use_session_eq [OF b(3)] prod.inject by (cases "session_usable d1 (clock 1) sid"; simp)+
    then have d2: "session_usable d (clock 1) sid"
      "d2 = d1\<lparr>sessions := map (used_session (clock 1) sid) (sessions d)\<rparr>"
      using b(2) by (simp_all add: session_usable_def)
    from charge_Inr [OF d3(1)] have c: "bg_admissions (refresh_budget (clock 0) b) < 1000"
      "d3 = d2\<lparr>budget := Some ((refresh_budget (clock 0) b)\<lparr>bg_admissions := bg_admissions (refresh_budget (clock 0) b) + 1\<rparr>)\<rparr>"
      using d2(2) b(2) by auto
    from d3(2) have d0: "d0 = d3\<lparr>events := events d3 @ [sandbox_row clock i sid sc]\<rparr>" "schema_ok d0"
      by (auto simp: exec_Inr)
    have "d' = d0" using res by (auto split: sum.splits)
    show ?thesis
    proof (rule stored [OF i b(1) c(1) d2(1)])
      show "schema_ok d'" using \<open>d' = d0\<close> d0(2) by simp
      show "d' = d\<lparr>budget := Some ((refresh_budget (clock 0) b)
                 \<lparr>bg_admissions := bg_admissions (refresh_budget (clock 0) b) + 1\<rparr>),
             sessions := map (used_session (clock 1) sid) (sessions d),
             events := events d @ [sandbox_row clock i sid sc]\<rparr>"
        using \<open>d' = d0\<close> d0(1) c(2) d2(2) b(2) by simp
      show "r = Inr i \<and> pubs = fst (AfterCommit publisher i) \<or> r = Inl (Err_Db Unavailable) \<and> pubs = []"
        using res committed(2) by auto
    qed
  qed
qed

lemma Submit_inv:
  assumes "store_ok d" and "Submit random nets clock publisher sid sc d = (r, d', pubs)"
  shows "store_ok d' \<and> (tenancy_ok d \<longrightarrow> tenancy_ok d')"
proof -
  have "schema_ok d" using assms(1) by (simp add: store_ok_def)
  then show ?thesis using assms(2)
  proof (cases rule: Submit_cases)
    case (stored i b)
    let ?d1 = "d\<lparr>budget := budget d', sessions := sessions d'\<rparr>"
    have d': "d' = ?d1\<lparr>events := events ?d1 @ [sandbox_row clock i sid sc]\<rparr>" using stored(7) by simp
    have "i \<notin> ev_id ` set (events d)" using stored(6,7) by (simp add: schema_defs)
    moreover have "at_event a \<in> ev_id ` set (events d)" if "a \<in> set (attempts d)" for a
      using that \<open>schema_ok d\<close> by (auto simp: schema_defs list_all_iff)
    ultimately have "history_ok d'"
      using assms(1) stored(7) by (auto simp: store_ok_def history_ok_def)
    moreover have "lifecycle_ok d'"
      using assms(1) stored(7) sandbox_row_ok(1) [OF stored(2)] by (auto simp: store_ok_def lifecycle_ok_def)
    ultimately show ?thesis
      using stored(6,7) sandbox_row_ok(2) [OF stored(2)] by (auto simp: store_ok_def tenancy_ok_def)
  qed (use assms(1) in simp)
qed

section \<open>A visitor's replay\<close>

lemma sandbox_replay_event_simps [simp]:
  "ev_id (sandbox_replay_event now e) = ev_id e" "event_key (sandbox_replay_event now e) = event_key e"
  "ev_sandbox (sandbox_replay_event now e) = ev_sandbox e" "ev_created (sandbox_replay_event now e) = ev_created e"
  "ev_state (sandbox_replay_event now e) = Pending" "ev_replays (sandbox_replay_event now e) = ev_replays e + 1"
  "ev_source (sandbox_replay_event now e) = ev_source e" "ev_dest (sandbox_replay_event now e) = ev_dest e"
  "ev_external (sandbox_replay_event now e) = ev_external e" "ev_attempts (sandbox_replay_event now e) = 0"
  "ev_claim (sandbox_replay_event now e) = None"
  by (simp_all add: sandbox_replay_event_def event_key_def)

definition owned_row :: "time \<Rightarrow> string \<Rightarrow> string \<Rightarrow> db \<Rightarrow> event_row option" where
  "owned_row now sid i d =
     List.find (\<lambda>e. ev_id e = i \<and> ev_sandbox e = Some sid \<and> session_live d now sid) (events d)"

lemma owned_row_Some:
  "owned_row now sid i d = Some e \<Longrightarrow>
     e \<in> set (events d) \<and> ev_id e = i \<and> ev_sandbox e = Some sid \<and> session_live d now sid"
  by (auto simp: owned_row_def find_Some_iff)

definition sandbox_replay_row :: "string \<Rightarrow> time \<Rightarrow> event_row \<Rightarrow> event_row" where
  "sandbox_replay_row i now e = (if ev_id e = i then sandbox_replay_event now e else e)"

lemma sandbox_replay_row_simps [simp]:
  "ev_id (sandbox_replay_row i now e) = ev_id e" "event_key (sandbox_replay_row i now e) = event_key e"
  "ev_sandbox (sandbox_replay_row i now e) = ev_sandbox e"
  by (simp_all add: sandbox_replay_row_def)

lemma sandbox_replay_statement_eq:
  assumes "schema_ok d" and "e \<in> set (events d)" and "ev_id e = i" and "ev_sandbox e = Some sid"
  shows "sandbox_replay_statement i sid now d = ((), d\<lparr>events := map (sandbox_replay_row i now) (events d)\<rparr>)"
proof -
  have "ev_sandbox x = Some sid" if "x \<in> set (events d)" "ev_id x = i" for x
    using schema_ok_same_id [OF assms(1) that(1) assms(2)] that assms by simp
  then have "map (\<lambda>x. if ev_id x = i \<and> ev_sandbox x = Some sid then sandbox_replay_event now x else x) (events d)
      = map (sandbox_replay_row i now) (events d)"
    by (simp add: sandbox_replay_row_def)
  then show ?thesis by (simp add: sandbox_replay_statement_def update_rows_def)
qed

lemma sandbox_replay_ok:
  assumes "store_ok d" and "e \<in> set (events d)" and "ev_id e = i" and "ev_state e = Dead_Lettered"
    and "ev_replays e < 2"
  shows "store_ok (d\<lparr>events := map (sandbox_replay_row i now) (events d)\<rparr>)"
proof (rule store_ok_map_events [OF assms(1)])
  have only: "x = e" if "x \<in> set (events d)" "ev_id x = i" for x
    using that assms(1-3) schema_ok_same_id by (auto simp: store_ok_def)
  fix x assume x: "x \<in> set (events d)"
  have "event_check x" "lifecycle_row x"
    using x assms(1) by (auto simp: store_ok_def dest: schema_ok_event_check lifecycle_okD)
  then show "event_check (sandbox_replay_row i now x) \<and> lifecycle_row (sandbox_replay_row i now x)"
    using only [OF x] assms(4,5)
    by (auto simp: sandbox_replay_row_def event_check_def lifecycle_row_def sandbox_replay_event_def)
  show "attempt_behind (sandbox_replay_row i now x) a" if "attempt_behind x a" for a
    using that only [OF x] assms(4) by (auto simp: sandbox_replay_row_def attempt_behind_def)
qed simp_all

lemma sandbox_replay_tenancy:
  assumes "schema_ok d" and "tenancy_ok d" and "e \<in> set (events d)" and "ev_id e = i" and "ev_sandbox e = Some sid"
    and "ev_replays e < 2"
  shows "tenancy_ok (d\<lparr>events := map (sandbox_replay_row i now) (events d)\<rparr>)"
proof -
  have "tenancy_row (sandbox_replay_row i now x)" if x: "x \<in> set (events d)" for x
  proof (cases "ev_id x = i")
    case True
    then have "x = e" using schema_ok_same_id [OF assms(1) x assms(3)] assms(4) by simp
    with tenancy_okD [OF assms(2) x] assms(4-6) show ?thesis
      by (auto simp: sandbox_replay_row_def tenancy_row_def visitor_row_def)
  qed (use tenancy_okD [OF assms(2) x] in \<open>simp add: sandbox_replay_row_def\<close>)
  then show ?thesis by (simp add: tenancy_ok_def)
qed

text \<open>
  C21: a visitor's replay reaches only an event of the visitor's own live session; foreign, missing and
  operator events look alike.  It needs a dead-lettered event, replayed less than twice, and an
  admission left in the hour; then the event is pending and due again with its budget reset,
  and one hint is published.  Otherwise nothing changes.
\<close>

theorem Sandbox_Replay_outcome:
  fixes clock b d
  defines "b1 \<equiv> \<lparr> bg_window = max (bg_window b) (hour_of (clock 0)),
      bg_sessions = (if bg_window b < hour_of (clock 0) then 0 else bg_sessions b),
      bg_admissions = (if bg_window b < hour_of (clock 0) then 0 else bg_admissions b) \<rparr>"
  assumes "store_ok d" and "budget d = Some b" and "\<forall>k. nets k = Done"
  shows "Sandbox_Replay nets clock publisher sid i d =
    (case owned_row (clock 1) sid i d of
       None \<Rightarrow> (Inl Err_Missing, d, [])
     | Some e \<Rightarrow>
         if ev_state e \<noteq> Dead_Lettered then (Inl Err_State, d, [])
         else if ev_replays e \<ge> 2 then (Inl Err_Quota, d, [])
         else if \<not> bg_admissions b1 < 1000 then (Inl Err_Quota, d, [])
         else (Inr (), d\<lparr>budget := Some (b1\<lparr>bg_admissions := bg_admissions b1 + 1\<rparr>),
                events := map (\<lambda>x. if ev_id x = i
                  then x\<lparr>ev_state := Pending, ev_attempts := 0, ev_replays := ev_replays x + 1,
                         ev_next := pg_time (clock 2), ev_lease := None, ev_claim := None\<rparr>
                  else x) (events d)\<rparr>,
               fst (AfterCommit publisher i)))"
proof -
  let ?d1 = "d\<lparr>budget := Some b1\<rparr>"
  let ?d2 = "d\<lparr>budget := Some (b1\<lparr>bg_admissions := bg_admissions b1 + 1\<rparr>)\<rparr>"
  have b1: "b1 = refresh_budget (clock 0) b" by (simp add: b1_def refresh_budget_def Let_def)
  have check: "budget_check b1"
    unfolding b1 using assms(2,3) by (intro refresh_budget_check store_ok_budgetD)
  have d1: "schema_ok ?d1" using assms(2) check by (simp add: store_ok_def schema_ok_budget)
  have adm: "admission nets clock d = Inr ?d1"
    unfolding b1 by (rule admission_Done [OF assms(2-4)])
  have owned: "owned_event (clock 1) sid i ?d1 =
      map_option (\<lambda>e. (ev_state e, ev_replays e)) (owned_row (clock 1) sid i d)"
    by (simp add: owned_event_def owned_row_def session_live_def)
  have chg: "charge Done ?d1 = (if bg_admissions b1 < 1000 then Inr ?d2 else Inl Err_Quota)"
    using charge_Done [OF d1, of b1] by simp
  show ?thesis
  proof (cases "\<exists>e. owned_row (clock 1) sid i d = Some e \<and> ev_state e = Dead_Lettered \<and> \<not> 2 \<le> ev_replays e \<and>
      bg_admissions b1 < 1000")
    case True
    then obtain e where e: "owned_row (clock 1) sid i d = Some e" "ev_state e = Dead_Lettered" "ev_replays e < 2"
      "bg_admissions b1 < 1000" by auto
    note row = owned_row_Some [OF e(1)]
    have "budget_check (b1\<lparr>bg_admissions := bg_admissions b1 + 1\<rparr>)"
      using check e(4) by (simp add: budget_check_def)
    then have d2: "store_ok ?d2" by (rule store_ok_budget [OF assms(2)])
    have stmt: "sandbox_replay_statement i sid (clock 2) ?d2 =
        ((), ?d2\<lparr>events := map (sandbox_replay_row i (clock 2)) (events d)\<rparr>)"
      using row d2 sandbox_replay_statement_eq [of ?d2 e i sid "clock 2"] by (simp add: store_ok_def)
    have "schema_ok (?d2\<lparr>events := map (sandbox_replay_row i (clock 2)) (events d)\<rparr>)"
      using row e(2,3) sandbox_replay_ok [OF d2, of e i "clock 2"] by (simp add: store_ok_def)
    then have "exec Done (sandbox_replay_statement i sid (clock 2)) ?d2 =
        Inr ((), ?d2\<lparr>events := map (sandbox_replay_row i (clock 2)) (events d)\<rparr>)"
      by (simp add: exec_Done stmt)
    with e show ?thesis
      using assms(4)
      by (simp add: Sandbox_Replay_def adm query_row_def query_def owned chg transaction_def commit_def
          sandbox_replay_row_def [abs_def] sandbox_replay_event_def del: One_nat_def)
  next
    case False
    then show ?thesis
      using assms(4)
      by (auto simp: Sandbox_Replay_def adm query_row_def query_def owned chg transaction_def
          simp del: One_nat_def split: option.splits)
  qed
qed

lemma Sandbox_Replay_cases:
  assumes "Sandbox_Replay nets clock publisher sid i d = (r, d', pubs)"
  obtains (unchanged) "d' = d"
  | (replayed) e b where "e \<in> set (events d)" and "ev_id e = i" and "ev_sandbox e = Some sid"
      and "ev_state e = Dead_Lettered" and "ev_replays e < 2" and "schema_ok (d\<lparr>budget := Some b\<rparr>)"
      and "d' = d\<lparr>budget := Some b, events := map (sandbox_replay_row i (clock 2)) (events d)\<rparr>"
proof -
  define body where "body = and_then (admission nets clock d) (\<lambda>d1.
     and_then (query_row (nets 3) (owned_event (clock 1) sid i) d1) (\<lambda>row.
       case row of
         None \<Rightarrow> Inl Err_Missing
       | Some (state, replays) \<Rightarrow>
           if state \<noteq> Dead_Lettered then Inl Err_State
           else if replays \<ge> 2 then Inl Err_Quota
           else and_then (charge (nets 4) d1) (exec (nets 5) (sandbox_replay_statement i sid (clock 2)))))"
  obtain r0 d0 where tx: "transaction (nets 6) body d = (r0, d0)" by fastforce
  then have "d' = d0"
    using assms by (auto simp: Sandbox_Replay_def body_def split: sum.splits)
  from tx show ?thesis
  proof (cases rule: transaction_cases)
    case (committed x)
    then obtain d1 where adm: "admission nets clock d = Inr d1" and
      rest: "and_then (query_row (nets 3) (owned_event (clock 1) sid i) d1) (\<lambda>row.
       case row of
         None \<Rightarrow> Inl Err_Missing
       | Some (state, replays) \<Rightarrow>
           if state \<noteq> Dead_Lettered then Inl Err_State
           else if replays \<ge> 2 then Inl Err_Quota
           else and_then (charge (nets 4) d1) (exec (nets 5) (sandbox_replay_statement i sid (clock 2)))) = Inr (x, d0)"
      by (auto simp: body_def and_then_Inr_iff)
    have "owned_event (clock 1) sid i d1 =
        map_option (\<lambda>e. (ev_state e, ev_replays e)) (owned_row (clock 1) sid i d1)"
      by (simp add: owned_event_def owned_row_def)
    with rest obtain e d2 where "owned_row (clock 1) sid i d1 = Some e"
      "ev_state e = Dead_Lettered" "ev_replays e < 2" "charge (nets 4) d1 = Inr d2"
      "exec (nets 5) (sandbox_replay_statement i sid (clock 2)) d2 = Inr (x, d0)"
      by (cases "owned_row (clock 1) sid i d1")
        (auto simp: query_row_def query_def and_then_Inr_iff simp del: One_nat_def split: if_splits)
    note steps = adm this
    from admission_Inr [OF steps(1)] obtain b where d1: "d1 = d\<lparr>budget := Some b\<rparr>" "schema_ok d1" by blast
    from charge_Inr [OF steps(5)] obtain b' where d2: "d2 = d\<lparr>budget := Some b'\<rparr>" "schema_ok d2"
      using d1(1) by auto
    have row: "e \<in> set (events d2)" "ev_id e = i" "ev_sandbox e = Some sid"
      using owned_row_Some [OF steps(2)] d1(1) d2(1) by simp_all
    have "d0 = d2\<lparr>events := map (sandbox_replay_row i (clock 2)) (events d2)\<rparr>"
      using steps(6) sandbox_replay_statement_eq [OF d2(2) row] by (auto simp: exec_Inr)
    then show ?thesis
      using row d2 steps(3,4) \<open>d' = d0\<close> by (intro replayed [of e b']) simp_all
  qed (use \<open>d' = d0\<close> unchanged in simp)
qed

lemma Sandbox_Replay_inv:
  assumes "store_ok d" and "Sandbox_Replay nets clock publisher sid i d = (r, d', pubs)"
  shows "store_ok d' \<and> (tenancy_ok d \<longrightarrow> tenancy_ok d')"
  using assms(2)
proof (cases rule: Sandbox_Replay_cases)
  case (replayed e b)
  let ?d2 = "d\<lparr>budget := Some b\<rparr>"
  have ok2: "store_ok ?d2" using assms(1) replayed(6) by (simp add: store_ok_def lifecycle_ok_def history_ok_def)
  have "tenancy_ok d \<Longrightarrow> tenancy_ok ?d2" by (simp add: tenancy_ok_def)
  then show ?thesis
    using sandbox_replay_ok [OF ok2, of e i "clock 2"] sandbox_replay_tenancy [OF replayed(6), of e i sid "clock 2"] replayed
    by simp
qed (use assms(1) in simp)

section \<open>The properties on a concrete sandbox\<close>

text \<open>One live session, one dead-lettered event of it, and an empty budget.\<close>

definition sample_sid :: string where
  "sample_sid = replicate 32 CHR ''a''"

lemma sample_sid_simps [simp]: "length sample_sid = 32" "list_all is_lower_hex sample_sid" "text_length sample_sid = 32"
  by (simp_all add: sample_sid_def text_length_def is_lower_hex_def char_between_def list_all_iff)

definition sample_visitor :: event_row where
  "sample_visitor = (sandbox_row (\<lambda>_. 0) ''e'' sample_sid ''permanent_failure'')\<lparr>ev_state := Dead_Lettered, ev_attempts := 1\<rparr>"

definition sample_budget :: budget_row where
  "sample_budget = \<lparr> bg_window = 0, bg_sessions = 1, bg_admissions = 1 \<rparr>"

definition sample_sandbox :: db where
  "sample_sandbox = \<lparr> events = [sample_visitor], attempts = [],
     sessions = [\<lparr> ss_id = sample_sid, ss_expires = 30 * minute, ss_events = 1 \<rparr>], budget = Some sample_budget \<rparr>"

lemma sample_scenario: "ValidScenario ''permanent_failure''" "ValidScenario ''success''"
  by (simp_all add: ValidScenario_def)

lemma sample_visitor_simps [simp]:
  "ev_id sample_visitor = ''e''" "ev_sandbox sample_visitor = Some sample_sid" "ev_state sample_visitor = Dead_Lettered"
  "ev_replays sample_visitor = 0" "ev_lease sample_visitor = None"
  by (simp_all add: sample_visitor_def sandbox_row_def)

lemma sample_sandbox_ok: "store_ok sample_sandbox" "tenancy_ok sample_sandbox"
proof -
  have row: "event_check (sandbox_row (\<lambda>_. 0) ''e'' sample_sid ''permanent_failure'')"
    by (rule sandbox_row_check [OF sample_scenario(1)]) simp_all
  then have "event_check sample_visitor"
    by (simp add: sample_visitor_def event_check_def sandbox_row_def)
  moreover have "lifecycle_row sample_visitor"
    by (simp add: sample_visitor_def lifecycle_row_def sandbox_row_def)
  ultimately show "store_ok sample_sandbox"
    by (simp add: store_ok_def schema_defs lifecycle_ok_def history_ok_def sample_sandbox_def session_check_def
        budget_check_def sample_budget_def)
  show "tenancy_ok sample_sandbox"
    using sandbox_row_ok(2) [OF sample_scenario(1), of "\<lambda>_. 0" "''e''" sample_sid]
    by (simp add: tenancy_ok_def sample_sandbox_def sample_visitor_def tenancy_row_def visitor_row_def sandbox_row_def)
qed

lemma sample_sandbox_simps [simp]:
  "budget sample_sandbox = Some sample_budget" "events sample_sandbox = [sample_visitor]"
  "attempts sample_sandbox = []"
  "sessions sample_sandbox = [\<lparr> ss_id = sample_sid, ss_expires = 30 * minute, ss_events = 1 \<rparr>]"
  by (simp_all add: sample_sandbox_def)

lemma sample_refresh [simp]: "refresh_budget 0 sample_budget = sample_budget"
  by (simp add: refresh_budget_def sample_budget_def hour_of_def)

lemma sample_budget_simps [simp]: "bg_sessions sample_budget = 1" "bg_admissions sample_budget = 1"
  by (simp_all add: sample_budget_def)

theorem Create_outcome_witness:
  "\<exists>d'. Create (\<lambda>_. Done) (\<lambda>_. 0) (replicate 32 CHR ''b'') 0 sample_sandbox = (Inr (), d') \<and> length (sessions d') = 2"
proof -
  have sid: "length (replicate 32 CHR ''b'') = 32" "list_all is_lower_hex (replicate 32 CHR ''b'')"
    "replicate 32 CHR ''b'' \<notin> ss_id ` set (sessions sample_sandbox)"
    by (simp_all add: is_lower_hex_def char_between_def list_all_iff sample_sid_def)
  have "\<forall>k. (\<lambda>_. Done) (k :: nat) = Done" by simp
  from Create_outcome [OF sample_sandbox_ok(1) _ this sid, of sample_budget "\<lambda>_. 0" 0] show ?thesis
    by simp
qed

theorem Submit_outcome_witness:
  "\<exists>i d'. Submit (Some (replicate 16 0)) (\<lambda>_. Done) (\<lambda>_. 0) None sample_sid ''success'' sample_sandbox = (Inr i, d', []) \<and>
     length (events d') = 2"
proof -
  have len: "length (replicate 16 (0 :: byte)) = 16" by simp
  have new: "sample_cid \<notin> ev_id ` set (events sample_sandbox)"
    using NewUUID_length [OF sample_uuid len] by (auto dest: arg_cong [where f = length])
  have answered: "\<forall>k. (\<lambda>_. Done) (k :: nat) = Done" by simp
  have usable: "session_usable sample_sandbox 0 sample_sid"
    by (simp add: session_usable_def duration_defs)
  from Submit_outcome [OF sample_sandbox_ok _ answered sample_uuid len new, of sample_budget "\<lambda>_. 0" None sample_sid "''success''"]
    usable show ?thesis
    by (simp add: sample_scenario AfterCommit_def)
qed

theorem Sandbox_Replay_outcome_witness:
  "\<exists>d'. Sandbox_Replay (\<lambda>_. Done) (\<lambda>_. 0) None sample_sid ''e'' sample_sandbox = (Inr (), d', []) \<and>
     map ev_state (events d') = [Pending]"
proof -
  have answered: "\<forall>k. (\<lambda>_. Done) (k :: nat) = Done" by simp
  have "owned_row 0 sample_sid ''e'' sample_sandbox = Some sample_visitor"
    by (simp add: owned_row_def session_live_def duration_defs)
  with Sandbox_Replay_outcome [OF sample_sandbox_ok(1) _ answered, of sample_budget "\<lambda>_. 0" None sample_sid "''e''"]
  show ?thesis by (simp add: AfterCommit_def)
qed

end
