(* ===== verification/Sandbox_Cleanup.thy ===== *)
theory Sandbox_Cleanup
  imports Sandbox_Store
begin

text \<open>
  The bounded cleanup of \<open>internal/sandbox/cleanup.go\<close>: one transaction that deletes expired
  visitors' events with their attempts and then the sessions that have no event left.
  \<open>FOR UPDATE OF e SKIP LOCKED\<close> is the predicate \<open>locked\<close>, as in \<open>Pg_Queue\<close>.
\<close>

section \<open>The operation\<close>

definition session_expired :: "db \<Rightarrow> time \<Rightarrow> string \<Rightarrow> bool" where
  "session_expired d now sid = list_ex (\<lambda>s. ss_id s = sid \<and> ss_expires s \<le> now) (sessions d)"

definition cleanup_where :: "db \<Rightarrow> time \<Rightarrow> event_row \<Rightarrow> bool" where
  "cleanup_where d now e \<longleftrightarrow>
     (case ev_sandbox e of None \<Rightarrow> False | Some sid \<Rightarrow> session_expired d now sid) \<and>
     (case ev_lease e of None \<Rightarrow> True | Some l \<Rightarrow> l \<le> now)"

text \<open>
  What may be removed: an event of a visitor session that has ended, without a lease or with one
  that has run out.
\<close>

definition abandoned :: "db \<Rightarrow> time \<Rightarrow> event_row \<Rightarrow> bool" where
  "abandoned d now e \<longleftrightarrow>
     (\<exists>s \<in> set (sessions d). ev_sandbox e = Some (ss_id s) \<and> ss_expires s \<le> now) \<and>
     (\<forall>l. ev_lease e = Some l \<longrightarrow> l \<le> now)"

lemma abandoned_iff: "abandoned d now e \<longleftrightarrow> cleanup_where d now e"
  by (auto simp: abandoned_def cleanup_where_def session_expired_def list_ex_iff split: option.splits)

definition cleanup_ids :: "(string \<Rightarrow> bool) \<Rightarrow> time \<Rightarrow> db \<Rightarrow> string list" where
  "cleanup_ids locked now d =
     map ev_id (take 100 (sort_key ev_id (filter (\<lambda>e. cleanup_where d now e \<and> \<not> locked (ev_id e)) (events d))))"

definition delete_attempts :: "string list \<Rightarrow> db \<Rightarrow> unit \<times> db" where
  "delete_attempts ids d = ((), d\<lparr>attempts := filter (\<lambda>a. at_event a \<notin> set ids) (attempts d)\<rparr>)"

definition delete_events :: "string list \<Rightarrow> db \<Rightarrow> unit \<times> db" where
  "delete_events ids d = ((), d\<lparr>events := filter (\<lambda>e. ev_id e \<notin> set ids) (events d)\<rparr>)"

definition stale_sessions :: "time \<Rightarrow> db \<Rightarrow> string list" where
  "stale_sessions now d =
     take 100 (map ss_id (filter (\<lambda>s. ss_expires s \<le> now \<and>
       \<not> list_ex (\<lambda>e. ev_sandbox e = Some (ss_id s)) (events d)) (sessions d)))"

definition delete_sessions :: "time \<Rightarrow> db \<Rightarrow> unit \<times> db" where
  "delete_sessions now d =
     ((), d\<lparr>sessions := filter (\<lambda>s. ss_id s \<notin> set (stale_sessions now d)) (sessions d)\<rparr>)"

definition Cleanup :: "(nat \<Rightarrow> net) \<Rightarrow> (nat \<Rightarrow> time) \<Rightarrow> (string \<Rightarrow> bool) \<Rightarrow> db \<Rightarrow> (sandbox_error + unit) \<times> db" where
  "Cleanup nets clock locked d =
     transaction (nets 7)
       (and_then (admission nets clock d) (\<lambda>d1.
        and_then (query_row (nets 3) (cleanup_ids locked (clock 1)) d1) (\<lambda>ids.
        and_then (exec (nets 4) (delete_attempts ids) d1) (\<lambda>(_, d2).
        and_then (exec (nets 5) (delete_events ids) d2) (\<lambda>(_, d3).
        exec (nets 6) (delete_sessions (clock 2)) d3))))) d"

section \<open>What cleanup keeps and removes\<close>

lemma store_ok_delete_attempts: "store_ok d \<Longrightarrow> store_ok (d\<lparr>attempts := filter P (attempts d)\<rparr>)"
  by (auto simp: store_ok_def schema_defs lifecycle_ok_def history_ok_def list_all_iff distinct_map_filter
      split: option.splits)

lemma store_ok_delete_events:
  assumes "store_ok d" and "\<And>a e. a \<in> set (attempts d) \<Longrightarrow> e \<in> set (events d) \<Longrightarrow> at_event a = ev_id e \<Longrightarrow> P e"
  shows "store_ok (d\<lparr>events := filter P (events d)\<rparr>)"
proof -
  have "at_event a \<in> ev_id ` {e \<in> set (events d). P e}" if a: "a \<in> set (attempts d)" for a
  proof -
    from a assms(1) obtain e where "e \<in> set (events d)" "at_event a = ev_id e"
      by (auto simp: store_ok_def schema_defs list_all_iff)
    with assms(2) [OF a] show ?thesis by blast
  qed
  with assms(1) show ?thesis
    by (auto simp: store_ok_def schema_defs lifecycle_ok_def history_ok_def list_all_iff distinct_map_filter
        split: option.splits)
qed

lemma store_ok_delete_sessions:
  assumes "store_ok d" and "\<And>e s. e \<in> set (events d) \<Longrightarrow> s \<in> set (sessions d) \<Longrightarrow> ev_sandbox e = Some (ss_id s) \<Longrightarrow> P s"
  shows "store_ok (d\<lparr>sessions := filter P (sessions d)\<rparr>)"
proof -
  have "sid \<in> ss_id ` {s \<in> set (sessions d). P s}" if e: "e \<in> set (events d)" "ev_sandbox e = Some sid" for e sid
  proof -
    have "schema_ok d" using assms(1) by (simp add: store_ok_def)
    from schema_ok_sandbox_session [OF this e] assms(2) e show ?thesis by blast
  qed
  with assms(1) show ?thesis
    by (auto simp: store_ok_def schema_defs lifecycle_ok_def history_ok_def list_all_iff distinct_map_filter
        split: option.splits)
qed

text \<open>The states a cleanup goes through.\<close>

definition swept1 :: "string list \<Rightarrow> db \<Rightarrow> db" where "swept1 ids d = snd (delete_attempts ids d)"
definition swept2 :: "string list \<Rightarrow> db \<Rightarrow> db" where "swept2 ids d = snd (delete_events ids (swept1 ids d))"
definition swept3 :: "time \<Rightarrow> string list \<Rightarrow> db \<Rightarrow> db" where
  "swept3 now ids d = snd (delete_sessions now (swept2 ids d))"

lemmas swept_defs = swept1_def swept2_def swept3_def delete_attempts_def delete_events_def delete_sessions_def

lemma stale_sessions_unused:
  assumes "distinct (map ss_id (sessions d))"
    and "e \<in> set (events d)" and "s \<in> set (sessions d)" and "ev_sandbox e = Some (ss_id s)"
  shows "ss_id s \<notin> set (stale_sessions now d)"
proof
  assume "ss_id s \<in> set (stale_sessions now d)"
  then obtain s' where "s' \<in> set (sessions d)" "ss_id s' = ss_id s"
    "\<not> list_ex (\<lambda>e. ev_sandbox e = Some (ss_id s')) (events d)"
    by (auto simp: stale_sessions_def dest!: in_set_takeD)
  with assms(2,4) show False by (auto simp: list_ex_iff)
qed

lemma swept_ok:
  assumes "store_ok d"
  shows "store_ok (swept1 ids d)" and "store_ok (swept2 ids d)" and "store_ok (swept3 now ids d)"
proof -
  show one: "store_ok (swept1 ids d)"
    using store_ok_delete_attempts [OF assms] by (simp add: swept1_def delete_attempts_def)
  show two: "store_ok (swept2 ids d)"
    using store_ok_delete_events [OF one, of "\<lambda>e. ev_id e \<notin> set ids"]
    by (simp add: swept2_def delete_events_def) (simp add: swept1_def delete_attempts_def)
  have dist: "distinct (map ss_id (sessions (swept2 ids d)))"
    using two by (simp add: store_ok_def schema_defs)
  show "store_ok (swept3 now ids d)"
    using store_ok_delete_sessions [OF two, of "\<lambda>s. ss_id s \<notin> set (stale_sessions now (swept2 ids d))"]
      stale_sessions_unused [OF dist, of _ _ now]
    by (simp add: swept3_def delete_sessions_def)
qed

lemma cleanup_ids_spec:
  assumes "i \<in> set (cleanup_ids locked now d)"
  shows "\<exists>e \<in> set (events d). ev_id e = i \<and> cleanup_where d now e \<and> \<not> locked i"
proof -
  let ?rows = "sort_key ev_id (filter (\<lambda>e. cleanup_where d now e \<and> \<not> locked (ev_id e)) (events d))"
  from assms obtain e where "e \<in> set (take 100 ?rows)" "ev_id e = i" by (auto simp: cleanup_ids_def)
  with in_set_takeD [of e 100 ?rows] show ?thesis by auto
qed

lemma cleanup_where_iff:
  "cleanup_where d now e \<longleftrightarrow>
     (\<exists>sid. ev_sandbox e = Some sid \<and> session_expired d now sid) \<and> (\<forall>l. ev_lease e = Some l \<longrightarrow> l \<le> now)"
  by (auto simp: cleanup_where_def split: option.splits)

text \<open>A prefix of a sorted list passes nothing smaller over.\<close>

lemma sorted_take_smaller:
  fixes f :: "'a \<Rightarrow> 'b :: linorder"
  assumes "x \<in> set xs" and "y \<in> set (take n (sort_key f xs))" and "f x < f y"
  shows "x \<in> set (take n (sort_key f xs))"
proof (rule ccontr)
  let ?s = "sort_key f xs"
  assume "x \<notin> set (take n ?s)"
  moreover have "x \<in> set (take n ?s @ drop n ?s)" using assms(1) by simp
  ultimately have "x \<in> set (drop n ?s)" by (simp only: set_append Un_iff) simp
  moreover have "sorted (map f (take n ?s) @ map f (drop n ?s))"
    by (simp only: append_take_drop_id sorted_sort_key flip: map_append)
  ultimately have "f y \<le> f x" using assms(2) by (auto simp: sorted_append)
  with assms(3) show False by simp
qed

lemma cleanup_ids_ordered:
  assumes "i \<in> set (cleanup_ids locked now d)" and "e \<in> set (events d)" and "cleanup_where d now e"
    and "\<not> locked (ev_id e)" and "ev_id e < i"
  shows "ev_id e \<in> set (cleanup_ids locked now d)"
proof -
  let ?rows = "filter (\<lambda>e. cleanup_where d now e \<and> \<not> locked (ev_id e)) (events d)"
  obtain x where "x \<in> set (take 100 (sort_key ev_id ?rows))" "ev_id x = i" using assms(1) by (auto simp: cleanup_ids_def)
  with sorted_take_smaller [of e ?rows x 100 ev_id] assms(2-5) show ?thesis by (simp add: cleanup_ids_def)
qed

lemma cleanup_ids_all:
  assumes "schema_ok d" and "card (set (cleanup_ids locked now d)) < 100"
    and "e \<in> set (events d)" and "cleanup_where d now e" and "\<not> locked (ev_id e)"
  shows "ev_id e \<in> set (cleanup_ids locked now d)"
proof -
  let ?rows = "sort_key ev_id (filter (\<lambda>e. cleanup_where d now e \<and> \<not> locked (ev_id e)) (events d))"
  have "distinct (map ev_id (events d))" using assms(1) by (simp add: schema_defs)
  then have "distinct (map ev_id ?rows)"
    by (simp add: distinct_map) (simp add: inj_on_def)
  then have "distinct (cleanup_ids locked now d)"
    unfolding cleanup_ids_def take_map [symmetric] by (rule distinct_take)
  then have "length (take 100 ?rows) < 100" using assms(2) by (simp add: distinct_card) (simp add: cleanup_ids_def)
  then have "take 100 ?rows = ?rows" by simp
  with assms(3-5) show ?thesis by (simp add: cleanup_ids_def)
qed

lemma length_cleanup_ids: "length (cleanup_ids locked now d) \<le> 100"
  by (simp add: cleanup_ids_def)

lemma cleanup_budget [simp]:
  "session_expired (d\<lparr>budget := b\<rparr>) = session_expired d"
  "cleanup_where (d\<lparr>budget := b\<rparr>) = cleanup_where d"
  "cleanup_ids locked now (d\<lparr>budget := b\<rparr>) = cleanup_ids locked now d"
proof -
  show expired: "session_expired (d\<lparr>budget := b\<rparr>) = session_expired d"
    by (simp add: session_expired_def fun_eq_iff)
  show one: "cleanup_where (d\<lparr>budget := b\<rparr>) = cleanup_where d"
    unfolding cleanup_where_def [abs_def] expired ..
  show "cleanup_ids locked now (d\<lparr>budget := b\<rparr>) = cleanup_ids locked now d"
    unfolding cleanup_ids_def one by simp
qed

lemma Cleanup_cases:
  assumes "Cleanup nets clock locked d = (r, d')"
  obtains (rolled_back) e where "r = Inl e" and "d' = d"
  | (committed) b where "budget d = Some b"
      and "d' = swept3 (clock 2) (cleanup_ids locked (clock 1) d) (d\<lparr>budget := Some (refresh_budget (clock 0) b)\<rparr>)"
proof -
  define body where "body = and_then (admission nets clock d) (\<lambda>d1.
        and_then (query_row (nets 3) (cleanup_ids locked (clock 1)) d1) (\<lambda>ids.
        and_then (exec (nets 4) (delete_attempts ids) d1) (\<lambda>(_, d2).
        and_then (exec (nets 5) (delete_events ids) d2) (\<lambda>(_, d3).
        exec (nets 6) (delete_sessions (clock 2)) d3))))"
  have "transaction (nets 7) body d = (r, d')" using assms by (simp add: Cleanup_def body_def)
  then show ?thesis
  proof (cases rule: transaction_cases)
    case (committed x)
    then obtain d1 ids where steps: "admission nets clock d = Inr d1" "ids = cleanup_ids locked (clock 1) d1"
      and "d' = swept3 (clock 2) ids d1"
      by (auto simp: body_def and_then_Inr_iff query_row_def query_def exec_Inr swept1_def swept2_def swept3_def
          split: if_splits)
    with admission_Inr [OF steps(1)] show ?thesis by (auto intro: that(2))
  qed (rule that(1))
qed

lemma Cleanup_schema:
  assumes "schema_ok d" and "Cleanup nets clock locked d = (r, d')"
  shows "schema_ok d'"
proof -
  from assms(2) show ?thesis unfolding Cleanup_def
    by (cases rule: transaction_cases) (use assms(1) in \<open>auto simp: and_then_Inr_iff exec_Inr split: prod.splits\<close>)
qed

lemma Cleanup_inv:
  assumes "store_ok d" and "Cleanup nets clock locked d = (r, d')"
  shows "store_ok d' \<and> (tenancy_ok d \<longrightarrow> tenancy_ok d')"
  using assms(2)
proof (cases rule: Cleanup_cases)
  case (committed b)
  have "store_ok (d\<lparr>budget := Some (refresh_budget (clock 0) b)\<rparr>)"
    using assms(1) committed(1) by (intro store_ok_budget refresh_budget_check store_ok_budgetD)
  from swept_ok(3) [OF this] show ?thesis
    by (simp add: committed(2)) (auto simp: tenancy_ok_def swept_defs)
qed (use assms(1) in simp)

text \<open>
  C19: cleanup removes only what it may.  An event that disappears belonged to an expired visitor
  session, was not locked and held no running lease; at most 100 go at a time, with exactly their
  attempts, and in the order of their identifiers: none that could go and comes before one that goes is
  passed over, and a cleanup that succeeds and removes fewer than 100 leaves none behind.  Operator
  events and their history stay.  A session that disappears had expired and has no event left.
\<close>

theorem Cleanup_safe:
  assumes "store_ok d" and "Cleanup nets clock locked d = (r, d')"
  shows "(\<exists>gone. events d' = filter (\<lambda>e. ev_id e \<notin> gone) (events d) \<and> card gone \<le> 100 \<and>
      attempts d' = filter (\<lambda>a. at_event a \<notin> gone) (attempts d) \<and>
      (\<forall>i \<in> gone. \<not> locked i \<and> (\<exists>e \<in> set (events d). ev_id e = i \<and> ev_sandbox e \<noteq> None \<and> abandoned d (clock 1) e)) \<and>
      (\<forall>e \<in> set (events d). abandoned d (clock 1) e \<and> \<not> locked (ev_id e) \<and>
         ((\<exists>i \<in> gone. ev_id e < i) \<or> r = Inr () \<and> card gone < 100) \<longrightarrow> ev_id e \<in> gone)) \<and>
    (\<forall>s \<in> set (sessions d) - set (sessions d'). ss_expires s \<le> clock 2 \<and>
       (\<forall>e \<in> set (events d'). ev_sandbox e \<noteq> Some (ss_id s)))"
  using assms(2)
proof (cases rule: Cleanup_cases)
  case (rolled_back e)
  then show ?thesis by (auto intro: exI [of _ "{}"])
next
  case (committed b)
  let ?ids = "cleanup_ids locked (clock 1) d"
  let ?d1 = "d\<lparr>budget := Some (refresh_budget (clock 0) b)\<rparr>"
  have gone: "\<not> locked i \<and> (\<exists>e \<in> set (events d). ev_id e = i \<and> ev_sandbox e \<noteq> None \<and> abandoned d (clock 1) e)"
    if "i \<in> set ?ids" for i
    using cleanup_ids_spec [OF that] unfolding abandoned_iff by (auto simp: cleanup_where_iff)
  have "schema_ok d" using assms(1) by (simp add: store_ok_def)
  then have first: "ev_id e \<in> set ?ids" if "e \<in> set (events d)" "abandoned d (clock 1) e" "\<not> locked (ev_id e)"
      "(\<exists>i \<in> set ?ids. ev_id e < i) \<or> r = Inr () \<and> card (set ?ids) < 100" for e
    using that cleanup_ids_ordered cleanup_ids_all unfolding abandoned_iff by blast
  have card: "card (set ?ids) \<le> 100"
    using card_length [of ?ids] length_cleanup_ids [of locked "clock 1" d] by linarith
  have kept: "events d' = filter (\<lambda>e. ev_id e \<notin> set ?ids) (events d)"
    "attempts d' = filter (\<lambda>a. at_event a \<notin> set ?ids) (attempts d)"
    by (simp_all add: committed(2) swept_defs)
  have sess: "ss_expires s \<le> clock 2 \<and> (\<forall>e \<in> set (events d'). ev_sandbox e \<noteq> Some (ss_id s))"
    if s: "s \<in> set (sessions d) - set (sessions d')" for s
  proof -
    have "ss_id s \<in> set (stale_sessions (clock 2) (swept2 ?ids ?d1))"
      using s by (auto simp: committed(2) swept3_def delete_sessions_def) (auto simp: swept_defs)
    then obtain s' where s': "s' \<in> set (sessions d)" "ss_id s' = ss_id s" "ss_expires s' \<le> clock 2"
      "\<forall>e \<in> set (events (swept2 ?ids ?d1)). ev_sandbox e \<noteq> Some (ss_id s')"
      by (auto simp: stale_sessions_def list_ex_iff dest!: in_set_takeD) (auto simp: swept_defs)
    have "distinct (map ss_id (sessions d))" using assms(1) by (simp add: store_ok_def schema_defs)
    then have "s' = s" using s s' distinct_map_inj by fastforce
    moreover have "events d' = events (swept2 ?ids ?d1)" by (simp add: committed(2) swept_defs)
    ultimately show ?thesis using s' by simp
  qed
  show ?thesis
    using gone first card kept sess by (intro conjI exI [of _ "set ?ids"]) blast+
qed

lemma Cleanup_run:
  assumes "store_ok d" and "budget d = Some b" and "\<forall>k. nets k = Done"
  shows "Cleanup nets clock locked d =
    (Inr (), swept3 (clock 2) (cleanup_ids locked (clock 1) d) (d\<lparr>budget := Some (refresh_budget (clock 0) b)\<rparr>))"
proof -
  let ?d1 = "d\<lparr>budget := Some (refresh_budget (clock 0) b)\<rparr>"
  let ?ids = "cleanup_ids locked (clock 1) d"
  have d1: "store_ok ?d1"
    using assms(1,2) by (intro store_ok_budget refresh_budget_check store_ok_budgetD)
  have adm: "admission nets clock d = Inr ?d1" by (rule admission_Done [OF assms])
  have ok: "schema_ok (swept1 ?ids ?d1)" "schema_ok (swept2 ?ids ?d1)" "schema_ok (swept3 (clock 2) ?ids ?d1)"
    using swept_ok [OF d1] by (simp_all add: store_ok_def)
  have run: "exec Done (delete_attempts ?ids) ?d1 = Inr ((), swept1 ?ids ?d1)"
    "exec Done (delete_events ?ids) (swept1 ?ids ?d1) = Inr ((), swept2 ?ids ?d1)"
    "exec Done (delete_sessions (clock 2)) (swept2 ?ids ?d1) = Inr ((), swept3 (clock 2) ?ids ?d1)"
    using ok by (simp_all add: exec_Done swept1_def swept2_def swept3_def)
      (simp_all add: delete_attempts_def delete_events_def delete_sessions_def)
  show ?thesis
    using assms(3) by (simp add: Cleanup_def adm query_row_def query_def run transaction_def commit_def del: One_nat_def)
qed

text \<open>
  Cleanup never fails on the constraints of the schema, and when at most 100 events qualify none of
  them is left.
\<close>

theorem Cleanup_progress:
  assumes "store_ok d" and "budget d \<noteq> None" and "\<forall>k. nets k = Done"
    and "length (filter (\<lambda>e. abandoned d (clock 1) e \<and> \<not> locked (ev_id e)) (events d)) \<le> 100"
  shows "\<exists>d'. Cleanup nets clock locked d = (Inr (), d') \<and>
    (\<forall>e \<in> set (events d'). abandoned d (clock 1) e \<longrightarrow> locked (ev_id e))"
proof -
  from assms(2) obtain b where b: "budget d = Some b" by blast
  let ?d1 = "d\<lparr>budget := Some (refresh_budget (clock 0) b)\<rparr>"
  let ?ids = "cleanup_ids locked (clock 1) d"
  have "Cleanup nets clock locked d = (Inr (), swept3 (clock 2) ?ids ?d1)"
    by (rule Cleanup_run [OF assms(1) b assms(3)])
  moreover have "set ?ids = ev_id ` {e \<in> set (events d). cleanup_where d (clock 1) e \<and> \<not> locked (ev_id e)}"
    using assms(4) by (simp add: cleanup_ids_def abandoned_iff del: One_nat_def)
  then have "\<not> cleanup_where d (clock 1) e \<or> locked (ev_id e)"
    if "e \<in> set (events (swept3 (clock 2) ?ids ?d1))" for e
    using that by (auto simp: swept_defs simp del: One_nat_def)
  ultimately show ?thesis unfolding abandoned_iff by blast
qed

section \<open>The properties on a concrete sandbox\<close>

theorem Cleanup_safe_witness:
  "\<exists>d'. Cleanup (\<lambda>_. Done) (\<lambda>_. hour) (\<lambda>_. False) sample_sandbox = (Inr (), d') \<and> events sample_sandbox \<noteq> [] \<and> events d' = []"
proof -
  obtain b where b: "budget sample_sandbox = Some b" by simp
  then obtain d' where run: "Cleanup (\<lambda>_. Done) (\<lambda>_. hour) (\<lambda>_. False) sample_sandbox = (Inr (), d')"
    using Cleanup_run [OF sample_sandbox_ok(1) b, of "\<lambda>_. Done" "\<lambda>_. hour" "\<lambda>_. False"] by blast
  obtain gone where gone: "events d' = filter (\<lambda>e. ev_id e \<notin> gone) (events sample_sandbox)"
    "\<forall>i \<in> gone. \<exists>e \<in> set (events sample_sandbox). ev_id e = i"
    "\<forall>e \<in> set (events sample_sandbox). abandoned sample_sandbox hour e \<and> card gone < 100 \<longrightarrow> ev_id e \<in> gone"
    using Cleanup_safe [OF sample_sandbox_ok(1) run] by blast
  have "gone \<subseteq> {''e''}" using gone(2) by auto
  then have "card gone < 100" using card_mono [of "{''e''}" gone] by simp
  moreover have "abandoned sample_sandbox hour e" if "e \<in> set (events sample_sandbox)" for e
    using that by (auto simp: abandoned_def duration_defs)
  ultimately have "events d' = []" using gone(1,3) by (simp add: filter_empty_conv)
  with run show ?thesis by simp
qed

theorem Cleanup_progress_witness:
  "\<exists>d'. Cleanup (\<lambda>_. Done) (\<lambda>_. hour) (\<lambda>_. False) sample_sandbox = (Inr (), d') \<and>
     (\<forall>e \<in> set (events d'). \<not> abandoned sample_sandbox hour e)"
  using Cleanup_progress [OF sample_sandbox_ok(1), of "\<lambda>_. Done" "\<lambda>_. hour" "\<lambda>_. False"] by simp

end
