(* ===== verification/Relay_System.thy ===== *)
theory Relay_System
  imports Delivery_Run Sandbox_Cleanup
begin

text \<open>
  The whole relay as a step relation.  The API, the workers, the visitors' handlers and the cleanup
  run concurrently in several processes and meet in the database; each step is one call of a
  store operation with arbitrary arguments, clock readings and failures, and a worker may use a
  claim it was handed at any later time, or never.

  The state is the database, the claims handed out so far and the claim identifiers drawn so far.
  Two facts about the environment are part of the steps: a claim identifier, drawn at random, is
  not drawn twice, and the operator's source key does not start like a visitor's.
\<close>

record system =
  sy_db :: db
  sy_claims :: "claimed_event list"
  sy_drawn :: "string list"

inductive relay_step :: "system \<Rightarrow> system \<Rightarrow> bool" where
  accept: "Accept nets clock later publisher receipt (sy_db s) = (r, d', pubs) \<Longrightarrow>
     \<not> has_prefix (rc_source receipt) ''sandbox:'' \<Longrightarrow>
     relay_step s (s\<lparr>sy_db := d'\<rparr>)"
| replay: "Replay nets now later publisher i k (sy_db s) = (r, d', pubs) \<Longrightarrow>
     \<not> has_prefix k ''sandbox:'' \<Longrightarrow>
     relay_step s (s\<lparr>sy_db := d'\<rparr>)"
| claim: "Claim random n locked now lease (sy_db s) = (r, d') \<Longrightarrow>
     (\<forall>cid. NewUUID random = Some cid \<longrightarrow> cid \<notin> set (sy_drawn s)) \<Longrightarrow>
     relay_step s (s\<lparr>sy_db := d',
       sy_claims := (case r of Inr (Some c) \<Rightarrow> c # sy_claims s | _ \<Rightarrow> sy_claims s),
       sy_drawn := (case NewUUID random of None \<Rightarrow> sy_drawn s | Some cid \<Rightarrow> cid # sy_drawn s)\<rparr>)"
| record_attempt: "c \<in> set (sy_claims s) \<Longrightarrow> Record nets c att (sy_db s) = (r, d') \<Longrightarrow>
     relay_step s (s\<lparr>sy_db := d'\<rparr>)"
| create: "Create nets clock sid expiry (sy_db s) = (r', d') \<Longrightarrow>
     relay_step s (s\<lparr>sy_db := d'\<rparr>)"
| submit: "Submit random nets clock publisher sid sc (sy_db s) = (r'', d', pubs) \<Longrightarrow>
     relay_step s (s\<lparr>sy_db := d'\<rparr>)"
| sandbox_replay: "Sandbox_Replay nets clock publisher sid i (sy_db s) = (r', d', pubs) \<Longrightarrow>
     relay_step s (s\<lparr>sy_db := d'\<rparr>)"
| cleanup: "Cleanup nets clock locked (sy_db s) = (r', d') \<Longrightarrow>
     relay_step s (s\<lparr>sy_db := d'\<rparr>)"

definition initial :: "time \<Rightarrow> system" where
  "initial t = \<lparr> sy_db = empty_db t, sy_claims = [], sy_drawn = [] \<rparr>"

inductive reachable :: "system \<Rightarrow> bool" where
  start: "reachable (initial t)"
| step: "reachable s \<Longrightarrow> relay_step s s' \<Longrightarrow> reachable s'"

section \<open>Leases\<close>

text \<open>
  Every operation but a claim leaves the leases alone or drops some: a row that is leased
  afterwards was leased to the same claim before, with the same counters.
\<close>

definition same_lease :: "event_row \<Rightarrow> event_row \<Rightarrow> bool" where
  "same_lease e e' \<longleftrightarrow> ev_id e' = ev_id e \<and> ev_state e = Delivering \<and> ev_claim e' = ev_claim e \<and>
     ev_attempts e' = ev_attempts e \<and> ev_replays e' = ev_replays e \<and> ev_created e' = ev_created e \<and>
     ev_sandbox e' = ev_sandbox e"

definition leases_kept :: "db \<Rightarrow> db \<Rightarrow> bool" where
  "leases_kept d d' \<longleftrightarrow>
     (\<forall>e' \<in> set (events d'). ev_state e' = Delivering \<longrightarrow> (\<exists>e \<in> set (events d). same_lease e e'))"

lemma leases_kept_refl [simp]: "leases_kept d d"
  by (auto simp: leases_kept_def same_lease_def)

lemma leases_kept_map:
  assumes "\<And>e. e \<in> set (events d) \<Longrightarrow> ev_state (f e) = Delivering \<Longrightarrow> same_lease e (f e)"
    and "events d' = map f (events d)"
  shows "leases_kept d d'"
  using assms by (auto simp: leases_kept_def)

lemma leases_kept_append:
  "events d' = events d @ [e] \<Longrightarrow> ev_state e \<noteq> Delivering \<Longrightarrow> leases_kept d d'"
  by (auto simp: leases_kept_def same_lease_def)

lemma leases_kept_sub: "set (events d') \<subseteq> set (events d) \<Longrightarrow> leases_kept d d'"
  by (auto simp: leases_kept_def same_lease_def)

lemma leases_kept_consistent:
  "leases_kept d d' \<Longrightarrow> claim_consistent d c \<Longrightarrow> claim_consistent d' c"
  by (fastforce simp: leases_kept_def claim_consistent_def same_lease_def holds_claim_def)

lemma Accept_leases: "Accept nets clock later publisher receipt d = (r, d', pubs) \<Longrightarrow> leases_kept d d'"
  by (erule Accept_cases) (auto intro: leases_kept_append)

lemma Replay_leases:
  assumes "Replay nets now later publisher i k d = (r, d', pubs)"
  shows "leases_kept d d'"
  using assms
proof (cases rule: Replay_cases)
  case applied
  then show ?thesis
    by (intro leases_kept_map [of d "replay_row i k now"])
      (auto simp: replay_statement_eq replay_row_def same_lease_def split: if_splits)
qed simp

lemma Record_leases:
  assumes "schema_ok d" and "Record nets c att d = (r, d')"
  shows "leases_kept d d'"
  using assms
proof (cases rule: Record_cases)
  case committed
  then show ?thesis
    by (intro leases_kept_map [of d "record_row c att"])
      (auto simp: recorded_def record_row_def same_lease_def split: if_splits)
qed simp

lemma Create_leases: "Create nets clock sid expiry d = (r, d') \<Longrightarrow> leases_kept d d'"
  by (erule Create_cases) (auto intro: leases_kept_sub)

lemma Submit_leases:
  assumes "schema_ok d" and "Submit random nets clock publisher sid sc d = (r, d', pubs)"
  shows "leases_kept d d'"
  by (rule Submit_cases [OF assms]) (auto intro!: leases_kept_append simp: sandbox_row_def)

lemma Sandbox_Replay_leases:
  assumes "Sandbox_Replay nets clock publisher sid i d = (r, d', pubs)"
  shows "leases_kept d d'"
  using assms
proof (cases rule: Sandbox_Replay_cases)
  case (replayed e b)
  then show ?thesis
    by (intro leases_kept_map [of d "sandbox_replay_row i (clock 2)"])
      (auto simp: sandbox_replay_row_def same_lease_def split: if_splits)
qed simp

lemma Cleanup_leases:
  assumes "Cleanup nets clock locked d = (r, d')"
  shows "leases_kept d d'"
  using assms
proof (cases rule: Cleanup_cases)
  case (committed b)
  then show ?thesis by (intro leases_kept_sub) (auto simp: swept_defs)
qed simp

section \<open>The invariant\<close>

definition system_ok :: "system \<Rightarrow> bool" where
  "system_ok s \<longleftrightarrow> store_ok (sy_db s) \<and> tenancy_ok (sy_db s) \<and>
     (\<forall>c \<in> set (sy_claims s). claim_consistent (sy_db s) c \<and> ce_claim c \<in> set (sy_drawn s)) \<and>
     (\<forall>e \<in> set (events (sy_db s)). \<forall>cid. ev_claim e = Some cid \<longrightarrow> cid \<in> set (sy_drawn s))"

lemma leases_kept_claims:
  assumes "leases_kept d d'" and "schema_ok d'" and "e' \<in> set (events d')" and "ev_claim e' = Some cid"
  shows "\<exists>e \<in> set (events d). ev_claim e = Some cid"
proof -
  have "event_check e'" using assms(2,3) by (rule schema_ok_event_check)
  then have "ev_state e' = Delivering" using assms(4) by (simp add: event_check_def)
  with assms(1,3,4) show ?thesis by (fastforce simp: leases_kept_def same_lease_def)
qed

lemma system_ok_kept:
  assumes "system_ok s" and "leases_kept (sy_db s) d'" and "store_ok d'" and "tenancy_ok d'"
  shows "system_ok (s\<lparr>sy_db := d'\<rparr>)"
proof -
  have "schema_ok d'" using assms(3) by (simp add: store_ok_def)
  then have "cid \<in> set (sy_drawn s)" if "e' \<in> set (events d')" "ev_claim e' = Some cid" for e' cid
    using leases_kept_claims [OF assms(2) _ that] assms(1) by (auto simp: system_ok_def)
  moreover have "claim_consistent d' c" if "c \<in> set (sy_claims s)" for c
    using assms(1,2) that leases_kept_consistent by (auto simp: system_ok_def)
  ultimately show ?thesis using assms by (auto simp: system_ok_def)
qed

lemma tenancy_row_updates [simp]:
  "tenancy_row (finish_event c a e) = tenancy_row e" "tenancy_row (take_lease l cid e) = tenancy_row e"
  "tenancy_row (retire e) = tenancy_row e"
  by (cases "ev_sandbox e"; simp add: tenancy_row_def visitor_row_def finish_event_def take_lease_def retire_def)+

lemma Accept_tenancy:
  assumes "Accept nets clock later publisher receipt d = (r, d', pubs)" and "tenancy_ok d"
    and "\<not> has_prefix (rc_source receipt) ''sandbox:''"
  shows "tenancy_ok d'"
  using assms(1)
proof (cases rule: Accept_cases)
  case stored
  with assms(2,3) show ?thesis by (auto simp: tenancy_ok_def tenancy_row_def receipt_row_def)
qed (use assms(2) in simp_all)

lemma Replay_tenancy:
  assumes "Replay nets now later publisher i k d = (r, d', pubs)" and "tenancy_ok d"
    and "\<not> has_prefix k ''sandbox:''"
  shows "tenancy_ok d'"
  using assms(1)
proof (cases rule: Replay_cases)
  case applied
  have "tenancy_row (replay_row i k now e)" if e: "e \<in> set (events d)" for e
  proof (cases "replay_where i k e")
    case True
    then have "ev_source e = k" by (simp add: replay_where_def)
    then have "ev_sandbox e = None"
      using tenancy_okD [OF assms(2) e] assms(3)
      by (auto simp: tenancy_row_def visitor_row_def split: option.splits)
    with \<open>ev_source e = k\<close> assms(3) show ?thesis
      by (simp add: tenancy_row_def replay_row_def replay_event_def)
  qed (use tenancy_okD [OF assms(2) e] in \<open>simp add: replay_row_def\<close>)
  then show ?thesis using applied by (simp add: replay_statement_eq tenancy_ok_def)
qed (use assms(2) in simp)

lemma Record_tenancy:
  assumes "schema_ok d" and "Record nets c att d = (r, d')" and "tenancy_ok d"
  shows "tenancy_ok d'"
  using assms(1,2)
proof (cases rule: Record_cases)
  case committed
  have "tenancy_row (record_row c att e) = tenancy_row e" for e by (simp add: record_row_def)
  with committed assms(3) show ?thesis by (simp add: tenancy_ok_def recorded_def)
qed (use assms(3) in simp)

lemma Claim_tenancy:
  assumes "schema_ok d" and "Claim random n locked now lease d = (r, d')" and "tenancy_ok d"
  shows "tenancy_ok d'"
  using assms(1,2)
proof (cases rule: Claim_cases)
  case (applied cid)
  have "tenancy_row (claim_row locked now' l cid d e)" if "tenancy_row e" for e now' l
    using that by (simp add: claim_row_def)
  with applied assms(3) show ?thesis by (auto simp: tenancy_ok_def)
qed (use assms(3) in simp)

text \<open>A claim under a fresh identifier drops leases or replaces one by its own.\<close>

lemma Claim_rows:
  assumes "schema_ok d" and "Claim random n locked now lease d = (r, d')" and "e' \<in> set (events d')"
    and "ev_state e' = Delivering"
  shows "(\<exists>e \<in> set (events d). same_lease e e') \<or> ev_claim e' = NewUUID random"
  using assms(1,2)
proof (cases rule: Claim_cases)
  case (applied cid)
  then obtain e where e: "e \<in> set (events d)"
    "e' = claim_row locked (pg_time now) (pg_time (now + lease)) cid d e"
    using assms(3) by auto
  from assms(1) e(1) show ?thesis
  proof (cases rule: claim_row_cases [where locked = locked and now = "pg_time now" and
        l = "pg_time (now + lease)" and cid = cid])
    case leased
    with e applied(1) show ?thesis by simp
  next
    case retired
    with e assms(4) show ?thesis by simp
  next
    case unchanged
    with e assms(4) show ?thesis by (auto simp: same_lease_def)
  qed
qed (use assms(3,4) in \<open>auto simp: same_lease_def\<close>)

lemma system_ok_claim:
  assumes "system_ok s" and "Claim random n locked now lease (sy_db s) = (r, d')"
    and fresh: "\<forall>cid. NewUUID random = Some cid \<longrightarrow> cid \<notin> set (sy_drawn s)"
  shows "system_ok (s\<lparr>sy_db := d',
       sy_claims := (case r of Inr (Some c) \<Rightarrow> c # sy_claims s | _ \<Rightarrow> sy_claims s),
       sy_drawn := (case NewUUID random of None \<Rightarrow> sy_drawn s | Some cid \<Rightarrow> cid # sy_drawn s)\<rparr>)"
    (is "system_ok ?s'")
proof -
  let ?drawn = "set (case NewUUID random of None \<Rightarrow> sy_drawn s | Some cid \<Rightarrow> cid # sy_drawn s)"
  have d: "store_ok (sy_db s)" "schema_ok (sy_db s)" "tenancy_ok (sy_db s)"
    using assms(1) by (simp_all add: system_ok_def store_ok_def)
  note d' = Claim_inv [OF d(1) assms(2)] Claim_tenancy [OF d(2) assms(2) d(3)]
  have rows: "(\<exists>e \<in> set (events (sy_db s)). same_lease e e') \<or> ev_claim e' = NewUUID random"
    if "e' \<in> set (events d')" "ev_state e' = Delivering" for e'
    by (rule Claim_rows [OF d(2) assms(2) that])
  have drawn: "cid \<in> ?drawn" if e': "e' \<in> set (events d')" "ev_claim e' = Some cid" for e' cid
  proof -
    have "schema_ok d'" using d'(1) by (simp add: store_ok_def)
    then have "event_check e'" using e'(1) by (rule schema_ok_event_check)
    then have "ev_state e' = Delivering" using e'(2) by (simp add: event_check_def)
    with rows e' assms(1) show ?thesis
      by (fastforce simp: system_ok_def same_lease_def split: option.splits)
  qed
  have old: "claim_consistent d' c \<and> ce_claim c \<in> ?drawn" if c: "c \<in> set (sy_claims s)" for c
  proof -
    have known: "claim_consistent (sy_db s) c" "ce_claim c \<in> set (sy_drawn s)"
      using assms(1) c by (simp_all add: system_ok_def)
    have "\<exists>e \<in> set (events (sy_db s)). same_lease e e'" if "e' \<in> set (events d')" "holds_claim c e'" for e'
      using rows [OF that(1)] that(2) fresh known(2) by (auto simp: holds_claim_def)
    with known(1) have "claim_consistent d' c"
      by (fastforce simp: claim_consistent_def same_lease_def holds_claim_def)
    with known(2) show ?thesis by (auto split: option.splits)
  qed
  have new: "claim_consistent d' c \<and> ce_claim c \<in> ?drawn" if r: "r = Inr (Some c)" for c
  proof -
    have "Some (ce_claim c) = NewUUID random"
      using d(2) assms(2)
    proof (cases rule: Claim_cases)
      case (applied cid)
      then have "ce_claim c = cid"
        using r by (cases "candidate locked (pg_time now) (sy_db s)") auto
      with applied(1) show ?thesis by simp
    qed (use r in simp)
    with Claim_consistent [OF d(2)] assms(2) r show ?thesis by (auto split: option.splits)
  qed
  have "claim_consistent d' c \<and> ce_claim c \<in> ?drawn" if c: "c \<in> set (sy_claims ?s')" for c
  proof -
    have "c \<in> set (sy_claims s) \<or> r = Inr (Some c)"
      using c by (auto split: sum.splits option.splits)
    with old new show ?thesis by blast
  qed
  with d' drawn show ?thesis by (auto simp: system_ok_def)
qed

lemma relay_step_ok:
  assumes "relay_step s s'" and "system_ok s"
  shows "system_ok s'"
proof -
  have d: "store_ok (sy_db s)" "schema_ok (sy_db s)" "tenancy_ok (sy_db s)"
    using assms(2) by (simp_all add: system_ok_def store_ok_def)
  from assms(1) show ?thesis
  proof cases
    case (accept nets clock later publisher receipt r d' pubs)
    show ?thesis unfolding accept(1)
      by (rule system_ok_kept [OF assms(2) Accept_leases [OF accept(2)] Accept_inv [OF d(1) accept(2)]
            Accept_tenancy [OF accept(2) d(3) accept(3)]])
  next
    case (replay nets now later publisher i k r d' pubs)
    show ?thesis unfolding replay(1)
      by (rule system_ok_kept [OF assms(2) Replay_leases [OF replay(2)] Replay_inv [OF d(1) replay(2)]
            Replay_tenancy [OF replay(2) d(3) replay(3)]])
  next
    case (claim random n locked now lease r d')
    show ?thesis unfolding claim(1) by (rule system_ok_claim [OF assms(2) claim(2,3)])
  next
    case (record_attempt c nets att r d')
    then have "claim_consistent (sy_db s) c" using assms(2) by (simp add: system_ok_def)
    then show ?thesis unfolding record_attempt(1)
      by (intro system_ok_kept [OF assms(2) Record_leases [OF d(2) record_attempt(3)]]
            Record_inv [OF d(1) _ record_attempt(3)] Record_tenancy [OF d(2) record_attempt(3) d(3)])
  next
    case (create nets clock sid expiry r' d')
    show ?thesis unfolding create(1)
      using system_ok_kept [OF assms(2) Create_leases [OF create(2)]] Create_inv [OF d(1) create(2)] d(3) by blast
  next
    case (submit random nets clock publisher sid sc r'' d' pubs)
    show ?thesis unfolding submit(1)
      using system_ok_kept [OF assms(2) Submit_leases [OF d(2) submit(2)]] Submit_inv [OF d(1) submit(2)] d(3)
      by blast
  next
    case (sandbox_replay nets clock publisher sid i r' d' pubs)
    show ?thesis unfolding sandbox_replay(1)
      using system_ok_kept [OF assms(2) Sandbox_Replay_leases [OF sandbox_replay(2)]]
        Sandbox_Replay_inv [OF d(1) sandbox_replay(2)] d(3) by blast
  next
    case (cleanup nets clock locked r' d')
    show ?thesis unfolding cleanup(1)
      using system_ok_kept [OF assms(2) Cleanup_leases [OF cleanup(2)]] Cleanup_inv [OF d(1) cleanup(2)] d(3)
      by blast
  qed
qed

lemma reachable_ok: "reachable s \<Longrightarrow> system_ok s"
proof (induction rule: reachable.induct)
  case (start t)
  then show ?case by (simp add: system_ok_def initial_def tenancy_ok_def) (simp add: empty_db_def)
next
  case (step s s')
  then show ?case using relay_step_ok by blast
qed

section \<open>The lifecycle contract\<close>

text \<open>
  The abstract specification: what an event's state, attempt number and replay generation may do
  in one step, as \<open>docs/delivery-contract.md\<close> lists it.
\<close>

type_synonym life = "event_state \<times> int \<times> int"

inductive contract_step :: "life \<Rightarrow> life \<Rightarrow> bool" where
  first_attempt: "contract_step (Pending, 0, g) (Delivering, 1, g)"
| next_attempt: "1 \<le> n \<Longrightarrow> n < 8 \<Longrightarrow> contract_step (Retry_Scheduled, n, g) (Delivering, n + 1, g)"
| lease_recovery: "contract_step (Delivering, n, g) (Delivering, n, g)"
| delivered: "contract_step (Delivering, n, g) (Delivered, n, g)"
| retry_later: "n < 8 \<Longrightarrow> contract_step (Delivering, n, g) (Retry_Scheduled, n, g)"
| given_up: "contract_step (Delivering, n, g) (Dead_Lettered, n, g)"
| aged_pending: "contract_step (Pending, n, g) (Dead_Lettered, n, g)"
| aged_retry: "contract_step (Retry_Scheduled, n, g) (Dead_Lettered, n, g)"
| replayed: "g < 16 \<Longrightarrow> contract_step (Dead_Lettered, n, g) (Pending, 0, g + 1)"

inductive_simps contract_step_simps [simp]:
  "contract_step (Pending, n, g) l" "contract_step (Retry_Scheduled, n, g) l"
  "contract_step (Delivering, n, g) l" "contract_step (Dead_Lettered, n, g) l"
  "contract_step (Delivered, n, g) l"

definition life :: "event_row \<Rightarrow> life" where
  "life e = (ev_state e, ev_attempts e, ev_replays e)"

definition row_refines :: "event_row \<Rightarrow> event_row \<Rightarrow> bool" where
  "row_refines e e' \<longleftrightarrow> ev_id e' = ev_id e \<and> event_key e' = event_key e \<and> ev_body e' = ev_body e \<and>
     ev_sha e' = ev_sha e \<and> ev_dest e' = ev_dest e \<and> ev_created e' = ev_created e \<and>
     ev_sandbox e' = ev_sandbox e \<and> (e' = e \<or> contract_step (life e) (life e'))"

lemma row_refines_refl [simp]: "row_refines e e"
  by (simp add: row_refines_def)

definition db_refines :: "db \<Rightarrow> db \<Rightarrow> bool" where
  "db_refines d d' \<longleftrightarrow>
     (\<forall>e' \<in> set (events d'). (\<exists>e \<in> set (events d). row_refines e e') \<or>
        life e' = (Pending, 0, 0) \<and> ev_id e' \<notin> ev_id ` set (events d)) \<and>
     (\<forall>e \<in> set (events d). ev_sandbox e = None \<longrightarrow>
        (\<exists>e' \<in> set (events d'). row_refines e e') \<and>
        (\<exists>new. event_attempts d' (ev_id e) = event_attempts d (ev_id e) @ new))"

lemma db_refines_map:
  assumes "\<And>e. e \<in> set (events d) \<Longrightarrow> row_refines e (f e)" and "events d' = map f (events d)"
    and "\<exists>new. attempts d' = attempts d @ new"
  shows "db_refines d d'"
  using assms by (force simp: db_refines_def event_attempts_def)

lemma db_refines_same: "events d' = events d \<Longrightarrow> attempts d' = attempts d \<Longrightarrow> db_refines d d'"
  by (rule db_refines_map [where f = "\<lambda>e. e"]) simp_all

lemma db_refines_append:
  "events d' = events d @ [e] \<Longrightarrow> attempts d' = attempts d \<Longrightarrow> life e = (Pending, 0, 0) \<Longrightarrow>
     ev_id e \<notin> ev_id ` set (events d) \<Longrightarrow> db_refines d d'"
  by (fastforce simp: db_refines_def event_attempts_def)

lemma Accept_refines:
  assumes "Accept nets clock later publisher receipt d = (r, d', pubs)"
  shows "db_refines d d'"
  using assms
proof (cases rule: Accept_cases)
  case stored
  then have "rc_id receipt \<notin> ev_id ` set (events d)" by (simp add: schema_defs)
  with stored(1) show ?thesis
    by (intro db_refines_append [where e = "receipt_row clock receipt"]) (simp_all add: life_def receipt_row_def)
qed (simp_all add: db_refines_same)

lemma replay_refines: "replay_where i k e \<Longrightarrow> row_refines e (replay_event now e)"
  by (simp add: replay_where_def row_refines_def replay_event_def life_def event_key_def)

lemma Replay_refines:
  assumes "Replay nets now later publisher i k d = (r, d', pubs)"
  shows "db_refines d d'"
  using assms
proof (cases rule: Replay_cases)
  case applied
  then show ?thesis
    by (intro db_refines_map [where f = "replay_row i k now"])
      (auto simp: replay_statement_eq replay_row_def replay_refines)
qed (simp add: db_refines_same)

lemma take_lease_refines:
  assumes "candidate_where d now e" and "lifecycle_row e"
  shows "row_refines e (take_lease l cid e)"
proof -
  have same: "ev_sha (take_lease l cid e) = ev_sha e" by (simp add: take_lease_def)
  have "life (take_lease l cid e) =
      (Delivering, if ev_state e = Delivering then ev_attempts e else ev_attempts e + 1, ev_replays e)"
    by (simp add: life_def take_lease_def)
  moreover have "ev_state e = Pending \<and> ev_attempts e = 0 \<or> ev_state e = Delivering \<or>
      ev_state e = Retry_Scheduled \<and> 1 \<le> ev_attempts e \<and> ev_attempts e < 8"
    using assms by (auto simp: candidate_where_def waiting_def lifecycle_row_def)
  ultimately have "contract_step (life e) (life (take_lease l cid e))"
    by (auto simp: life_def)
  then show ?thesis by (simp add: row_refines_def same)
qed

lemma retire_refines: "expired_where now e \<Longrightarrow> row_refines e (retire e)"
  by (auto simp: expired_where_def waiting_def row_refines_def retire_def life_def event_key_def)

lemma Claim_refines:
  assumes "schema_ok d" and "lifecycle_ok d" and "Claim random n locked now lease d = (r, d')"
  shows "db_refines d d'"
  using assms(1,3)
proof (cases rule: Claim_cases)
  case (applied cid)
  let ?f = "claim_row locked (pg_time now) (pg_time (now + lease)) cid d"
  have "row_refines e (?f e)" if e: "e \<in> set (events d)" for e
    using assms(1) e
  proof (cases rule: claim_row_cases [where locked = locked and now = "pg_time now" and
        l = "pg_time (now + lease)" and cid = cid])
    case leased
    then show ?thesis using take_lease_refines lifecycle_okD [OF assms(2) e] by simp
  qed (simp_all add: retire_refines)
  with applied(2) show ?thesis by (intro db_refines_map [where f = ?f]) simp_all
qed (simp add: db_refines_same)

lemma finish_refines:
  assumes "holds_claim c e" and "uint (ce_attempt c) = ev_attempts e"
  shows "row_refines e (finish_event c att e)"
proof -
  have "record_state c att = Retry_Scheduled \<Longrightarrow> ev_attempts e < 8"
    using assms(2) by (auto simp: record_state_def CanRetryAt_def CanRetry_iff split: if_splits)
  moreover have "record_state c att = Delivered \<or> record_state c att = Retry_Scheduled \<or> record_state c att = Dead_Lettered"
    by (simp add: record_state_def)
  ultimately show ?thesis
    using assms(1) by (auto simp: row_refines_def finish_event_def life_def event_key_def holds_claim_def)
qed

lemma Record_refines:
  assumes "schema_ok d" and "claim_consistent d c" and "Record nets c att d = (r, d')"
  shows "db_refines d d'"
  using assms(1,3)
proof (cases rule: Record_cases)
  case committed
  have "row_refines e (record_row c att e)" if "e \<in> set (events d)" for e
    using that assms(2) finish_refines by (simp add: record_row_def claim_consistent_def)
  with committed(1) show ?thesis
    by (intro db_refines_map [where f = "record_row c att"]) (simp_all add: recorded_def)
qed (simp add: db_refines_same)

lemma Create_refines: "Create nets clock sid expiry d = (r, d') \<Longrightarrow> db_refines d d'"
  by (erule Create_cases) (auto intro: db_refines_same)

lemma Submit_refines:
  assumes "schema_ok d" and "Submit random nets clock publisher sid sc d = (r, d', pubs)"
  shows "db_refines d d'"
  using assms
proof (cases rule: Submit_cases)
  case (stored i b)
  then have "i \<notin> ev_id ` set (events d)" by (simp add: schema_defs)
  with stored(7) show ?thesis
    by (intro db_refines_append [where e = "sandbox_row clock i sid sc"]) (simp_all add: life_def sandbox_row_def)
qed (simp add: db_refines_same)

lemma sandbox_replay_refines:
  "ev_state e = Dead_Lettered \<Longrightarrow> ev_replays e < 2 \<Longrightarrow> row_refines e (sandbox_replay_event now e)"
  by (simp add: row_refines_def sandbox_replay_event_def life_def event_key_def)

lemma Sandbox_Replay_refines:
  assumes "schema_ok d" and "Sandbox_Replay nets clock publisher sid i d = (r, d', pubs)"
  shows "db_refines d d'"
  using assms(2)
proof (cases rule: Sandbox_Replay_cases)
  case (replayed e b)
  have "row_refines x (sandbox_replay_row i (clock 2) x)" if x: "x \<in> set (events d)" for x
  proof (cases "ev_id x = i")
    case True
    then have "x = e" using schema_ok_same_id [OF assms(1) x replayed(1)] replayed(2) by simp
    with True replayed(4,5) show ?thesis by (simp add: sandbox_replay_row_def sandbox_replay_refines)
  qed (simp add: sandbox_replay_row_def)
  with replayed(7) show ?thesis
    by (intro db_refines_map [where f = "sandbox_replay_row i (clock 2)"]) simp_all
qed (simp add: db_refines_same)

lemma Cleanup_refines:
  assumes "schema_ok d" and "Cleanup nets clock locked d = (r, d')"
  shows "db_refines d d'"
  using assms(2)
proof (cases rule: Cleanup_cases)
  case (committed b)
  let ?ids = "cleanup_ids locked (clock 1) d"
  have d': "events d' = filter (\<lambda>e. ev_id e \<notin> set ?ids) (events d)"
    "attempts d' = filter (\<lambda>a. at_event a \<notin> set ?ids) (attempts d)"
    using committed(2) by (simp_all add: swept_defs)
  have kept: "ev_id e \<notin> set ?ids" if e: "e \<in> set (events d)" "ev_sandbox e = None" for e
  proof
    assume "ev_id e \<in> set ?ids"
    then obtain e' where e': "e' \<in> set (events d)" "ev_id e' = ev_id e" "cleanup_where d (clock 1) e'"
      using cleanup_ids_spec by blast
    then have "e' = e" using schema_ok_same_id [OF assms(1) _ e(1)] by simp
    with e' e(2) show False by (simp add: cleanup_where_def)
  qed
  have att: "event_attempts d' (ev_id e) = event_attempts d (ev_id e)" if "ev_id e \<notin> set ?ids" for e
    using that by (auto simp: event_attempts_def d' intro!: filter_cong)
  show ?thesis
    unfolding db_refines_def
  proof (intro conjI ballI impI)
    fix e assume e: "e \<in> set (events d)" "ev_sandbox e = None"
    then show "\<exists>e' \<in> set (events d'). row_refines e e'"
      using kept d'(1) by (intro bexI [of _ e]) simp_all
    show "\<exists>new. event_attempts d' (ev_id e) = event_attempts d (ev_id e) @ new"
      using att [OF kept [OF e]] by simp
  next
    fix e' assume "e' \<in> set (events d')"
    then have "e' \<in> set (events d)" using d'(1) by simp
    then show "(\<exists>e \<in> set (events d). row_refines e e') \<or>
        life e' = (Pending, 0, 0) \<and> ev_id e' \<notin> ev_id ` set (events d)"
      by (blast intro: row_refines_refl)
  qed
qed (simp add: db_refines_same)

lemma relay_step_refines:
  assumes "reachable s" and "relay_step s s'"
  shows "db_refines (sy_db s) (sy_db s')"
proof -
  have ok: "system_ok s" using assms(1) by (rule reachable_ok)
  then have d: "schema_ok (sy_db s)" "lifecycle_ok (sy_db s)"
    by (simp_all add: system_ok_def store_ok_def)
  from assms(2) show ?thesis
  proof cases
    case (record_attempt c nets att r d')
    then have "claim_consistent (sy_db s) c" using ok by (simp add: system_ok_def)
    with record_attempt Record_refines [OF d(1)] show ?thesis by simp
  qed (simp_all add: Accept_refines Replay_refines Claim_refines [OF d] Create_refines Submit_refines [OF d(1)]
      Sandbox_Replay_refines [OF d(1)] Cleanup_refines [OF d(1)])
qed

text \<open>
  C1: every step of the reachable relay implements the delivery contract.  Each stored event is new and
  pending, or an event stored before whose identity, body, destination and age are unchanged and
  whose state, attempt number and generation moved as the contract allows; no event of the
  operator disappears, and its attempt history only grows.
\<close>

theorem relay_implements_contract:
  assumes "reachable s" and "relay_step s s'"
  shows "db_refines (sy_db s) (sy_db s')"
  using assms by (rule relay_step_refines)

lemma reachable_steps: "relay_step\<^sup>*\<^sup>* s s' \<Longrightarrow> reachable s \<Longrightarrow> reachable s'"
  by (induction rule: rtranclp_induct) (auto intro: reachable.step)

lemma operator_row: "tenancy_row e \<Longrightarrow> \<not> has_prefix (ev_source e) ''sandbox:'' \<Longrightarrow> ev_sandbox e = None"
  by (auto simp: tenancy_row_def visitor_row_def split: option.splits)

text \<open>What the operator stored stays: the same event, under the same key and with the same digest.\<close>

lemma operator_event_later:
  assumes "relay_step\<^sup>*\<^sup>* s s'" and "reachable s" and "e \<in> set (events (sy_db s))" and "ev_sandbox e = None"
  shows "\<exists>e' \<in> set (events (sy_db s')). ev_id e' = ev_id e \<and> event_key e' = event_key e \<and> ev_sha e' = ev_sha e \<and> ev_sandbox e' = None"
  using assms(1)
proof (induction rule: rtranclp_induct)
  case base
  with assms(3,4) show ?case by blast
next
  case (step s1 s2)
  then obtain e1 where e1: "e1 \<in> set (events (sy_db s1))" "ev_sandbox e1 = None"
    "ev_id e1 = ev_id e" "event_key e1 = event_key e" "ev_sha e1 = ev_sha e" by blast
  have "db_refines (sy_db s1) (sy_db s2)"
    by (rule relay_step_refines [OF reachable_steps [OF step(1) assms(2)] step(2)])
  with e1(1,2) obtain e2 where "e2 \<in> set (events (sy_db s2))" "row_refines e1 e2" by (auto simp: db_refines_def)
  with e1 show ?case by (intro bexI [of _ e2]) (simp_all add: row_refines_def)
qed

text \<open>
  C2: every reachable database satisfies the schema, the lifecycle and the history invariant: attempts
  recorded in a generation never run past the counter, and the running attempt is not recorded
  yet.  Every claim in a worker's hands that is still current agrees with its row.
\<close>

theorem relay_invariant:
  assumes "reachable s"
  shows "store_ok (sy_db s) \<and> tenancy_ok (sy_db s) \<and>
    (\<forall>c \<in> set (sy_claims s). claim_consistent (sy_db s) c)"
  using reachable_ok [OF assms] by (simp add: system_ok_def)

lemma card_numbers:
  assumes "distinct (map f xs)" and "f ` set xs \<subseteq> S" and "finite S" and "card S \<le> n"
  shows "length xs \<le> n"
proof -
  have "length xs = card (f ` set xs)"
    using assms(1) by (metis distinct_card length_map set_map)
  also have "\<dots> \<le> card S" using assms(2,3) by (intro card_mono)
  finally show ?thesis using assms(4) by simp
qed

text \<open>The keys and the ranges of the columns alone bound the history of an event.\<close>

lemma schema_attempt_bounds:
  assumes "schema_ok d"
  shows "length (filter (\<lambda>a. at_event a = i \<and> at_replay a = g) (attempts d)) \<le> 8"
    "length (event_attempts d i) \<le> 136"
proof -
  let ?a = "attempts d"
  have keys: "distinct (map attempt_key ?a)" and check: "\<forall>a \<in> set ?a. attempt_check a"
    using assms by (simp_all add: schema_defs list_all_iff)
  have inj: "distinct (map (\<lambda>a. (at_replay a, at_number a)) (event_attempts d i))"
    using keys by (auto simp: distinct_map inj_on_def attempt_key_def event_attempts_def)
  have inj2: "distinct (map at_number (filter (\<lambda>a. at_event a = i \<and> at_replay a = g) ?a))"
    using keys by (auto simp: distinct_map inj_on_def attempt_key_def)
  show "length (filter (\<lambda>a. at_event a = i \<and> at_replay a = g) ?a) \<le> 8"
    by (rule card_numbers [OF inj2, of "{1..8}"]) (use check in \<open>auto simp: attempt_check_def\<close>)
  show "length (event_attempts d i) \<le> 136"
    by (rule card_numbers [OF inj, of "{0..16} \<times> {1..8}"])
      (use check in \<open>auto simp: attempt_check_def event_attempts_def\<close>)
qed

text \<open>The numbers that the attempts of an event may have, by its generation and its counter.\<close>

lemma current_attempts:
  assumes "store_ok d" and "e \<in> set (events d)"
  defines "done \<equiv> ev_attempts e - (if ev_state e = Delivering then 1 else 0)"
  shows "distinct (map (\<lambda>a. (at_replay a, at_number a)) (event_attempts d (ev_id e)))"
    "int (length (filter (\<lambda>a. at_replay a = ev_replays e) (event_attempts d (ev_id e)))) \<le> done"
    "int (length (event_attempts d (ev_id e))) \<le> 8 * ev_replays e + done"
proof -
  let ?as = "event_attempts d (ev_id e)" and ?key = "\<lambda>a. (at_replay a, at_number a)"
  have ok: "schema_ok d" "lifecycle_row e" "event_check e"
    using assms(1,2) by (auto simp: store_ok_def intro: lifecycle_okD schema_ok_event_check)
  have nonneg: "0 \<le> done" "0 \<le> ev_replays e" using ok(2,3) by (auto simp: done_def lifecycle_row_def event_check_def)
  show inj: "distinct (map ?key ?as)"
    using ok(1) by (auto simp: schema_defs distinct_map inj_on_def attempt_key_def event_attempts_def)
  have row: "0 \<le> at_replay a \<and> 1 \<le> at_number a \<and> at_number a \<le> 8 \<and>
      (at_replay a < ev_replays e \<or> at_replay a = ev_replays e \<and> at_number a \<le> done)" if "a \<in> set ?as" for a
  proof -
    have a: "a \<in> set (attempts d)" "at_event a = ev_id e" using that by (auto simp: event_attempts_def)
    then have "attempt_check a" using ok(1) by (simp add: schema_defs list_all_iff)
    moreover have "attempt_behind e a" using assms(1,2) a by (auto simp: store_ok_def intro: history_okD)
    ultimately show ?thesis by (auto simp: attempt_check_def attempt_behind_def done_def split: if_splits)
  qed
  let ?now = "{ev_replays e} \<times> {1..done}" and ?before = "{0..<ev_replays e} \<times> {1..8::int}"
  have "int (card ?now) = done" using nonneg by (simp add: card_cartesian_product)
  moreover have "int (length (filter (\<lambda>a. at_replay a = ev_replays e) ?as)) \<le> int (card ?now)"
    unfolding of_nat_le_iff
    by (intro card_numbers [OF distinct_map_filter [OF inj], where S = ?now]) (auto dest: row)
  ultimately show "int (length (filter (\<lambda>a. at_replay a = ev_replays e) ?as)) \<le> done" by simp
  have "int (card (?before \<union> ?now)) \<le> 8 * ev_replays e + done"
    using card_Un_le [of ?before ?now] \<open>int (card ?now) = done\<close> nonneg by (simp add: card_cartesian_product)
  moreover have "length ?as \<le> card (?before \<union> ?now)"
    by (intro card_numbers [OF inj, of "?before \<union> ?now"]) (use row in \<open>fastforce simp: not_less\<close>)+
  ultimately show "int (length ?as) \<le> 8 * ev_replays e + done" by simp
qed

text \<open>
  C16: no event is sent more often than the contract allows.  The recorded attempts of an event have pairwise
  different pairs of generation and number; the current generation has at most as many as its counter says,
  one less while an attempt is running, and a past one at most eight, which makes 136 at most in all;
  and once eight are recorded in the current generation the event is delivered or dead-lettered, so
  that only a replay makes it due again.
\<close>

theorem relay_attempt_bounds:
  assumes "reachable s" and "e \<in> set (events (sy_db s))"
  defines "recorded_now \<equiv> length (filter (\<lambda>a. at_replay a = ev_replays e) (event_attempts (sy_db s) (ev_id e)))"
  shows "distinct (map (\<lambda>a. (at_replay a, at_number a)) (event_attempts (sy_db s) (ev_id e))) \<and>
    int recorded_now \<le> ev_attempts e - (if ev_state e = Delivering then 1 else 0) \<and>
    int (length (event_attempts (sy_db s) (ev_id e))) \<le>
      8 * ev_replays e + ev_attempts e - (if ev_state e = Delivering then 1 else 0) \<and>
    (\<forall>g. length (filter (\<lambda>a. at_event a = ev_id e \<and> at_replay a = g) (attempts (sy_db s))) \<le> 8) \<and>
    length (event_attempts (sy_db s) (ev_id e)) \<le> 136 \<and>
    (recorded_now = 8 \<longrightarrow> ev_state e = Delivered \<or> ev_state e = Dead_Lettered)"
proof -
  have ok: "store_ok (sy_db s)" using reachable_ok [OF assms(1)] by (simp add: system_ok_def)
  note now = current_attempts [OF ok assms(2), folded recorded_now_def]
  have "lifecycle_row e" "event_check e"
    using ok assms(2) by (auto simp: store_ok_def intro: lifecycle_okD schema_ok_event_check)
  then have "ev_attempts e \<le> 8" "ev_state e = Pending \<Longrightarrow> ev_attempts e = 0" "ev_state e = Retry_Scheduled \<Longrightarrow> ev_attempts e \<le> 7"
    by (auto simp: lifecycle_row_def event_check_def)
  with now(2) have "recorded_now = 8 \<longrightarrow> ev_state e = Delivered \<or> ev_state e = Dead_Lettered"
    by (cases "ev_state e") (auto split: if_splits)
  moreover have "length (event_attempts (sy_db s) (ev_id e)) \<le> 136"
    "\<forall>g. length (filter (\<lambda>a. at_event a = ev_id e \<and> at_replay a = g) (attempts (sy_db s))) \<le> 8"
    using schema_attempt_bounds ok by (simp_all add: store_ok_def)
  ultimately show ?thesis using now by simp
qed

text \<open>
  C11: in the reachable relay a worker that still holds its claim can record what it sent, whatever other
  processes did since the claim: when the database answers, the response has a status from 100 to
  599, the worker's clock did not step back between its two readings and the attempt identifier is
  new, the transaction commits.
\<close>

theorem relay_records_current:
  assumes "reachable s" and "c \<in> set (sy_claims s)" and "e \<in> set (events (sy_db s))"
    and "ev_id e = ce_id c \<and> ev_state e = Delivering \<and> ev_claim e = Some (ce_claim c)"
    and "\<forall>k. nets k = Done"
    and "\<forall>rq resp. sv_do env rq = Some resp \<longrightarrow> 100 \<le> rs_status resp \<and> rs_status resp \<le> 599"
    and "sv_now env 0 \<le> sv_now env 1"
    and "an_id (fst (Send sender env c)) \<notin> at_id ` set (attempts (sy_db s))"
  shows "\<exists>d'. Record nets c (fst (Send sender env c)) (sy_db s) = (Inr (), d') \<and>
    (\<exists>e' \<in> set (events d'). ev_id e' = ev_id e \<and> ev_state e' \<noteq> Delivering \<and> ev_claim e' = None \<and> ev_lease e' = None \<and>
       ev_attempts e' = ev_attempts e \<and> ev_replays e' = ev_replays e) \<and>
    (\<exists>a. attempts d' = attempts (sy_db s) @ [a] \<and> at_event a = ev_id e \<and> at_number a = ev_attempts e \<and>
       at_replay a = ev_replays e \<and> at_outcome a = an_outcome (fst (Send sender env c)))"
proof -
  have holds: "holds_claim c e" using assms(4) by (simp add: holds_claim_def)
  let ?att = "fst (Send sender env c)"
  have ok: "store_ok (sy_db s)" "claim_consistent (sy_db s) c"
    using reachable_ok [OF assms(1)] assms(2) by (simp_all add: system_ok_def)
  have current: "claim_current (sy_db s) c" using assms(3) holds by (auto simp: claim_current_def)
  have check: "event_check e" "lifecycle_row e"
    using ok(1) assms(3) by (auto simp: store_ok_def dest: schema_ok_event_check lifecycle_okD)
  have counters: "uint (ce_attempt c) = ev_attempts e \<and> uint (ce_replay c) = ev_replays e"
    using ok(2) assms(3) holds by (auto simp: claim_consistent_def)
  then have num: "uint (ce_replay c) \<le> 16 \<and> 1 \<le> uint (ce_attempt c) \<and> uint (ce_attempt c) \<le> 8"
    using check assms(4) by (auto simp: event_check_def lifecycle_row_def holds_claim_def)
  have row: "attempt_check (attempt_row_of c ?att)"
    by (rule attempt_row_check [OF Send_shape Send_excerpt])
      (use num Send_status [of env sender c] Send_times [OF assms(7)] assms(6) in auto)
  have "Record nets c ?att (sy_db s) = (Inr (), recorded c ?att (sy_db s))"
    by (rule Record_done [OF ok(1) current ok(2) row assms(8,5)])
  moreover have "finish_event c ?att e \<in> set (events (recorded c ?att (sy_db s)))"
    using assms(3) holds by (auto simp: recorded_def record_row_def intro!: image_eqI [of _ _ e])
  ultimately show ?thesis
    using counters assms(4)
    by (intro exI [of _ "recorded c ?att (sy_db s)"] conjI bexI [of _ "finish_event c ?att e"])
      (simp_all add: finish_event_def recorded_def attempt_row_of_def)
qed

section \<open>The properties on a concrete run\<close>

lemma sample_Accept:
  "Accept (\<lambda>_. Done) (\<lambda>_. 0) (empty_db 0) None sample_receipt (empty_db 0) =
     (Inr \<lparr> ac_id = ''e'', ac_duplicate = False \<rparr>, sample_db, [])"
proof -
  have "Accept (\<lambda>_. Done) (\<lambda>_. 0) (empty_db 0) None sample_receipt (empty_db 0) =
      (Inr \<lparr> ac_id = rc_id sample_receipt, ac_duplicate = False \<rparr>,
       (empty_db 0)\<lparr>events := events (empty_db 0) @ [sample_event]\<rparr>, [])"
    using Accept_fresh [OF store_ok_empty sample_receipt_ok, of 0 "\<lambda>_. Done" "\<lambda>_. 0" "empty_db 0" None]
    by (simp add: sample_receipt_row empty_db_def AfterCommit_def)
  then show ?thesis by (simp add: sample_db_def sample_receipt_def empty_db_def)
qed

definition sample_system :: system where
  "sample_system = \<lparr> sy_db = sample_leased, sy_claims = [claimed_of sample_cid sample_taken],
     sy_drawn = [sample_cid] \<rparr>"

lemma sample_step: "relay_step (initial 0) ((initial 0)\<lparr>sy_db := sample_db\<rparr>)"
proof (rule relay_step.accept)
  show "Accept (\<lambda>_. Done) (\<lambda>_. 0) (empty_db 0) None sample_receipt (sy_db (initial 0)) =
      (Inr \<lparr> ac_id = ''e'', ac_duplicate = False \<rparr>, sample_db, [])"
    by (simp add: initial_def sample_Accept)
  show "\<not> has_prefix (rc_source sample_receipt) ''sandbox:''" by (simp add: sample_receipt_def)
qed

lemma sample_reachable: "reachable sample_system"
proof -
  let ?s = "(initial 0)\<lparr>sy_db := sample_db\<rparr>"
  have "reachable ?s" by (rule reachable.step [OF reachable.start sample_step])
  moreover have "relay_step ?s sample_system"
    using relay_step.claim [of "Some (replicate 16 0)" Done "\<lambda>_. False" 0 "30 * second" ?s]
    by (simp add: sample_Claim sample_uuid sample_system_def sample_leased_def initial_def)
  ultimately show ?thesis by (rule reachable.step)
qed

theorem relay_implements_contract_witness:
  "db_refines (empty_db 0) sample_db"
  using relay_implements_contract [OF reachable.start sample_step] by (simp add: initial_def)

theorem relay_invariant_witness:
  "claim_consistent sample_leased (claimed_of sample_cid sample_taken) \<and> history_ok sample_leased"
  using relay_invariant [OF sample_reachable] by (simp add: sample_system_def store_ok_def)

theorem relay_attempt_bounds_witness:
  "sample_taken \<in> set (events sample_leased) \<and> event_attempts sample_leased (ev_id sample_taken) = []"
proof -
  have "sample_taken \<in> set (events (sy_db sample_system))" by (simp add: sample_system_def sample_leased_def)
  note bounds = relay_attempt_bounds [OF sample_reachable this]
  have "ev_attempts sample_taken = 1" "ev_replays sample_taken = 0" "ev_state sample_taken = Delivering"
    by (simp_all add: sample_taken_def take_lease_def sample_event_def)
  with bounds show ?thesis by (simp add: sample_system_def) (simp add: sample_leased_def)
qed

theorem relay_records_current_witness:
  "\<exists>d'. Record (\<lambda>_. Done) (claimed_of sample_cid sample_taken) sample_attempt sample_leased = (Inr (), d') \<and>
     length (attempts d') = 1"
proof -
  let ?c = "claimed_of sample_cid sample_taken"
  have att: "fst (Send sample_sender sample_env ?c) = sample_attempt" by (simp add: sample_attempt_def)
  have none: "attempts (sy_db sample_system) = []"
    by (simp add: sample_system_def sample_leased_def sample_db_def empty_db_def)
  have holds: "ev_id sample_taken = ce_id ?c \<and> ev_state sample_taken = Delivering \<and>
      ev_claim sample_taken = Some (ce_claim ?c)"
    by (simp add: sample_taken_def)
  have c: "?c \<in> set (sy_claims sample_system)" "sample_taken \<in> set (events (sy_db sample_system))"
    by (simp_all add: sample_system_def sample_leased_def)
  have env: "\<forall>k. (\<lambda>_. Done) (k :: nat) = Done"
    "\<forall>rq resp. sv_do sample_env rq = Some resp \<longrightarrow> 100 \<le> rs_status resp \<and> rs_status resp \<le> 599"
    "sv_now sample_env 0 \<le> sv_now sample_env 1"
    by (simp_all add: sample_env_def)
  have fresh: "an_id (fst (Send sample_sender sample_env ?c)) \<notin> at_id ` set (attempts (sy_db sample_system))"
    by (simp add: none)
  obtain d' a where "Record (\<lambda>_. Done) ?c sample_attempt (sy_db sample_system) = (Inr (), d')"
    "attempts d' = attempts (sy_db sample_system) @ [a]"
    using relay_records_current [OF sample_reachable c holds env fresh] unfolding att by blast
  then show ?thesis using none by (simp add: sample_system_def)
qed

end
