(* ===== verification/Netguard.thy ===== *)
theory Netguard
  imports Relay_Prelude
begin

unbundle bit_operations_syntax

text \<open>
  The outbound dialer of \<open>internal/netguard/dialer.go\<close>, with the parts of \<open>net/netip\<close> and \<open>net\<close>
  that it decides by: the classification of addresses, \<open>Prefix.Contains\<close> and \<open>SplitHostPort\<close>.

  The name service and the operating system are arguments: \<open>lookup host\<close> is the answer of
  \<open>LookupNetIP\<close> (\<open>None\<close> for an error) and \<open>dial network address port\<close> the connection that the
  underlying dialer makes to a literal address, if it succeeds.
\<close>

section \<open>Addresses\<close>

text \<open>An address as \<open>netip.Addr\<close> has it; the string is the zone of an IPv6 address.\<close>

datatype addr = Zero_Addr | Addr4 "32 word" | Addr6 "128 word" string

definition Is4In6 :: "addr \<Rightarrow> bool" where
  "Is4In6 a = (case a of Addr6 w _ \<Rightarrow> drop_bit 32 w = 0xffff | _ \<Rightarrow> False)"

definition Unmap :: "addr \<Rightarrow> addr" where
  "Unmap a = (if Is4In6 a then (case a of Addr6 w _ \<Rightarrow> Addr4 (ucast w) | _ \<Rightarrow> a) else a)"

definition IsValid :: "addr \<Rightarrow> bool" where
  "IsValid a = (a \<noteq> Zero_Addr)"

definition IsLoopback :: "addr \<Rightarrow> bool" where
  "IsLoopback a = (case Unmap a of
     Zero_Addr \<Rightarrow> False | Addr4 w \<Rightarrow> drop_bit 24 w = 127 | Addr6 w _ \<Rightarrow> w = 1)"

definition IsMulticast :: "addr \<Rightarrow> bool" where
  "IsMulticast a = (case Unmap a of
     Zero_Addr \<Rightarrow> False | Addr4 w \<Rightarrow> drop_bit 28 w = 0xe | Addr6 w _ \<Rightarrow> drop_bit 120 w = 0xff)"

definition IsLinkLocalUnicast :: "addr \<Rightarrow> bool" where
  "IsLinkLocalUnicast a = (case Unmap a of
     Zero_Addr \<Rightarrow> False | Addr4 w \<Rightarrow> drop_bit 16 w = 0xa9fe | Addr6 w _ \<Rightarrow> drop_bit 118 w = 0x3fa)"

definition IsPrivate :: "addr \<Rightarrow> bool" where
  "IsPrivate a = (case Unmap a of
     Zero_Addr \<Rightarrow> False
   | Addr4 w \<Rightarrow> drop_bit 24 w = 10 \<or> drop_bit 20 w = 0xac1 \<or> drop_bit 16 w = 0xc0a8
   | Addr6 w _ \<Rightarrow> drop_bit 121 w = 0x7e)"

definition IsGlobalUnicast :: "addr \<Rightarrow> bool" where
  "IsGlobalUnicast a =
     (if a = Zero_Addr then False
      else
        let ip = Unmap a
        in if ip = Addr4 0 \<or> ip = Addr4 0xffffffff then False
           else ip \<noteq> Addr6 0 [] \<and> \<not> IsLoopback ip \<and> \<not> IsMulticast ip \<and> \<not> IsLinkLocalUnicast ip)"

text \<open>
  \<open>Contains\<close> of an IPv4 prefix: an IPv6 address, an IPv4-mapped one included, is never in it.
\<close>

definition Contains4 :: "32 word \<Rightarrow> nat \<Rightarrow> addr \<Rightarrow> bool" where
  "Contains4 prefix bits a =
     (case a of Addr4 w \<Rightarrow> drop_bit (32 - bits) (w XOR prefix) = 0 | _ \<Rightarrow> False)"

definition addr4 :: "32 word \<Rightarrow> 32 word \<Rightarrow> 32 word \<Rightarrow> 32 word \<Rightarrow> 32 word" where
  "addr4 a b c d = (push_bit 24 a OR push_bit 16 b OR push_bit 8 c OR d)"

section \<open>The dialer\<close>

definition maximum_resolved_addresses :: nat where
  "maximum_resolved_addresses = 16"

record dialer =
  di_allow_private :: bool

definition NewDialer :: "bool \<Rightarrow> duration \<Rightarrow> dialer option" where
  "NewDialer allow_private timeout =
     (if timeout \<le> 0 then None else Some \<lparr> di_allow_private = allow_private \<rparr>)"

definition allowed :: "dialer \<Rightarrow> addr \<Rightarrow> bool" where
  "allowed d address =
     (if di_allow_private d then True
      else if \<not> IsValid address \<or> \<not> IsGlobalUnicast address then False
      else if IsPrivate address \<or> IsLoopback address \<or> IsLinkLocalUnicast address then False
      else if Contains4 (addr4 100 64 0 0) 10 address then False
      else \<not> Contains4 (addr4 198 18 0 0) 15 address)"

fun index_of :: "char \<Rightarrow> string \<Rightarrow> nat option" where
  "index_of c [] = None"
| "index_of c (x # s) = (if x = c then Some 0 else map_option Suc (index_of c s))"

definition last_index_of :: "char \<Rightarrow> string \<Rightarrow> nat option" where
  "last_index_of c s = map_option (\<lambda>i. length s - 1 - i) (index_of c (rev s))"

text \<open>\<open>net.SplitHostPort\<close>: \<open>None\<close> where it reports an address error.\<close>

definition SplitHostPort :: "string \<Rightarrow> (string \<times> string) option" where
  "SplitHostPort hostport =
     (case last_index_of CHR '':'' hostport of
        None \<Rightarrow> None
      | Some i \<Rightarrow>
          let checked = (\<lambda>host j k.
            if CHR ''['' \<in> set (drop j hostport) \<or> CHR '']'' \<in> set (drop k hostport) then None
            else Some (host, drop (i + 1) hostport))
          in if hd hostport = CHR ''[''
             then (case index_of CHR '']'' hostport of
                     None \<Rightarrow> None
                   | Some e \<Rightarrow>
                       if e + 1 = length hostport \<or> e + 1 \<noteq> i then None
                       else checked (take (e - 1) (drop 1 hostport)) 1 (e + 1))
             else let host = take i hostport
                  in if CHR '':'' \<in> set host then None else checked host 0 0)"

datatype dial_error =
    Split_Failed
  | Resolve_Failed
  | Invalid_Address_Count
  | Prohibited_Address
  | Dial_Failed nat

text \<open>The result, and the addresses that a connection was attempted to, in order.\<close>

fun dial_each ::
  "(string \<Rightarrow> addr \<Rightarrow> string \<Rightarrow> 'c option) \<Rightarrow> string \<Rightarrow> string \<Rightarrow> nat \<Rightarrow> addr list \<Rightarrow> (dial_error + 'c) \<times> addr list" where
  "dial_each dial network port failed [] = (Inl (Dial_Failed failed), [])"
| "dial_each dial network port failed (a # as) =
     (case dial network a port of
        Some connection \<Rightarrow> (Inr connection, [a])
      | None \<Rightarrow> (let (r, tried) = dial_each dial network port (Suc failed) as in (r, a # tried)))"

definition DialContext ::
  "(string \<Rightarrow> addr list option) \<Rightarrow> (string \<Rightarrow> addr \<Rightarrow> string \<Rightarrow> 'c option) \<Rightarrow> dialer \<Rightarrow> string \<Rightarrow> string \<Rightarrow>
   (dial_error + 'c) \<times> addr list" where
  "DialContext lookup dial d network address =
     (case SplitHostPort address of
        None \<Rightarrow> (Inl Split_Failed, [])
      | Some (host, port) \<Rightarrow>
          (case lookup host of
             None \<Rightarrow> (Inl Resolve_Failed, [])
           | Some addresses \<Rightarrow>
               if length addresses = 0 \<or> length addresses > maximum_resolved_addresses
               then (Inl Invalid_Address_Count, [])
               else if \<exists>a \<in> set addresses. \<not> allowed d a then (Inl Prohibited_Address, [])
               else dial_each dial network port 0 addresses))"

section \<open>What may be dialled\<close>

lemma xor_word_0: "a XOR b = 0 \<longleftrightarrow> a = (b :: 32 word)"
  by (metis xor.right_neutral xor_self_eq xor.assoc xor.left_neutral)

lemma Unmap_simps [simp]: "Unmap Zero_Addr = Zero_Addr" "Unmap (Addr4 w) = Addr4 w"
  by (simp_all add: Unmap_def Is4In6_def)

text \<open>The IPv4 blocks that the contract prohibits: first address and prefix length.\<close>

definition prohibited_blocks :: "(32 word \<times> nat) list" where
  "prohibited_blocks =
     [(addr4 0 0 0 0, 32), (addr4 255 255 255 255, 32), (addr4 127 0 0 0, 8), (addr4 224 0 0 0, 4),
      (addr4 169 254 0 0, 16), (addr4 10 0 0 0, 8), (addr4 172 16 0 0, 12), (addr4 192 168 0 0, 16),
      (addr4 100 64 0 0, 10), (addr4 198 18 0 0, 15)]"

definition in_block :: "32 word \<Rightarrow> 32 word \<times> nat \<Rightarrow> bool" where
  "in_block w block \<longleftrightarrow> drop_bit (32 - snd block) w = drop_bit (32 - snd block) (fst block)"

lemma allowed_IPv4:
  "allowed \<lparr> di_allow_private = False \<rparr> (Addr4 w) \<longleftrightarrow> (\<forall>block \<in> set prohibited_blocks. \<not> in_block w block)"
  by (auto simp: allowed_def IsValid_def IsGlobalUnicast_def IsPrivate_def IsLoopback_def IsMulticast_def
      IsLinkLocalUnicast_def Contains4_def prohibited_blocks_def in_block_def xor_word_0 addr4_def Let_def)

text \<open>
  Outside the development override an IPv4 address is dialled only if it lies in none of the
  prohibited blocks: this-host, broadcast, loopback, multicast, link-local with the metadata
  service, the three private ranges, carrier NAT and benchmarking; every other one may be.
\<close>

theorem allowed_IPv4_blocks:
  "allowed \<lparr> di_allow_private = False \<rparr> (Addr4 w) \<longleftrightarrow> (\<forall>block \<in> set prohibited_blocks. \<not> in_block w block)"
  by (rule allowed_IPv4)

theorem allowed_IPv4_blocks_witness:
  "allowed \<lparr> di_allow_private = False \<rparr> (Addr4 (addr4 93 184 216 34)) \<and>
   \<not> allowed \<lparr> di_allow_private = False \<rparr> (Addr4 (addr4 169 254 169 254))"
  unfolding allowed_IPv4_blocks by (simp add: prohibited_blocks_def in_block_def addr4_def)

text \<open>
  The addresses outside the internal networks: in no prohibited block as an IPv4 address, in none of the
  first eight in IPv4-mapped form, and as an IPv6 address not unspecified, loopback, multicast
  (\<open>ff00::/8\<close>), link-local (\<open>fe80::/10\<close>) or private (\<open>fc00::/7\<close>).
\<close>

definition outside_internal :: "addr \<Rightarrow> bool" where
  "outside_internal a \<longleftrightarrow>
     (case Unmap a of
        Zero_Addr \<Rightarrow> False
      | Addr4 w \<Rightarrow> \<forall>block \<in> set (take 8 prohibited_blocks). \<not> in_block w block
      | Addr6 w zone \<Rightarrow> (zone = [] \<longrightarrow> w \<noteq> 0) \<and> w \<noteq> 1 \<and> drop_bit 120 w \<noteq> 0xff \<and> drop_bit 118 w \<noteq> 0x3fa \<and>
          drop_bit 121 w \<noteq> 0x7e) \<and>
     (case a of Addr4 w \<Rightarrow> \<forall>block \<in> set prohibited_blocks. \<not> in_block w block | _ \<Rightarrow> True)"

lemma allowed_outside_internal:
  assumes "allowed \<lparr> di_allow_private = False \<rparr> a"
  shows "outside_internal a"
proof (cases a)
  case (Addr4 w)
  have "set (take 8 prohibited_blocks) \<subseteq> set prohibited_blocks" by (rule set_take_subset)
  with Addr4 assms allowed_IPv4 [of w] show ?thesis by (auto simp: outside_internal_def)
next
  case (Addr6 w zone)
  note a = this
  have unicast: "IsGlobalUnicast a" and public: "\<not> IsPrivate a" using assms by (auto simp: allowed_def split: if_splits)
  show ?thesis
  proof (cases "Unmap a")
    case (Addr4 v)
    have "v \<noteq> 0 \<and> v \<noteq> 0xffffffff \<and> \<not> IsLoopback (Addr4 v) \<and> \<not> IsMulticast (Addr4 v) \<and> \<not> IsLinkLocalUnicast (Addr4 v)"
      using unicast by (auto simp: IsGlobalUnicast_def Addr4 Let_def split: if_splits)
    moreover have "drop_bit 24 v \<noteq> 10 \<and> drop_bit 20 v \<noteq> 0xac1 \<and> drop_bit 16 v \<noteq> 0xc0a8"
      using public by (simp add: IsPrivate_def Addr4)
    ultimately show ?thesis
      by (simp add: outside_internal_def Addr4) (simp add: a IsLoopback_def IsMulticast_def IsLinkLocalUnicast_def
          prohibited_blocks_def in_block_def addr4_def)
  next
    case (Addr6 v z)
    then have same: "Unmap (Addr6 v z) = Addr6 v z"
      using a by (auto simp: Unmap_def Is4In6_def split: if_splits)
    have "(z = [] \<longrightarrow> v \<noteq> 0) \<and> \<not> IsLoopback (Addr6 v z) \<and> \<not> IsMulticast (Addr6 v z) \<and> \<not> IsLinkLocalUnicast (Addr6 v z)"
      using unicast by (auto simp: IsGlobalUnicast_def Addr6 Let_def split: if_splits)
    moreover have "drop_bit 121 v \<noteq> 0x7e" using public by (simp add: IsPrivate_def Addr6)
    ultimately show ?thesis
      by (simp add: outside_internal_def Addr6) (simp add: a IsLoopback_def IsMulticast_def IsLinkLocalUnicast_def same)
  next
    case Zero_Addr
    with a show ?thesis by (auto simp: Unmap_def split: if_splits)
  qed
qed (use assms in \<open>simp add: allowed_def IsValid_def\<close>)

text \<open>The IPv4-mapped IPv6 form of an IPv4 address.\<close>

definition mapped :: "32 word \<Rightarrow> addr" where
  "mapped w = Addr6 (push_bit 32 0xffff OR ucast w) []"

lemma Unmap_mapped [simp]: "Unmap (mapped w) = Addr4 w"
proof -
  have high: "drop_bit 32 (push_bit 32 0xffff OR (ucast w :: 128 word)) = 0xffff"
  proof -
    have "drop_bit 32 (ucast w :: 128 word) = 0"
      by (rule bit_word_eqI) (auto simp: bit_simps dest: bit_imp_le_length)
    moreover have "drop_bit 32 (push_bit 32 0xffff :: 128 word) = 0xffff" by simp
    ultimately show ?thesis by (simp only: drop_bit_or or.right_neutral)
  qed
  have "(ucast (push_bit 32 0xffff :: 128 word) :: 32 word) = 0" by simp
  moreover have "(ucast (ucast w :: 128 word) :: 32 word) = w"
    by (rule bit_word_eqI) (auto simp: bit_simps)
  ultimately have "(ucast (push_bit 32 0xffff OR (ucast w :: 128 word)) :: 32 word) = w"
    by (simp only: unsigned_or_eq or.left_neutral)
  with high show ?thesis by (simp add: Unmap_def Is4In6_def mapped_def)
qed

text \<open>
  C40: The same destination in IPv4-mapped form escapes two of the blocks: an address of the carrier NAT
  or the benchmarking range is refused as an IPv4 address and admitted in its mapped form.
\<close>

theorem allowed_mapped_bypass:
  assumes "in_block w (addr4 100 64 0 0, 10) \<or> in_block w (addr4 198 18 0 0, 15)"
  shows "\<not> allowed \<lparr> di_allow_private = False \<rparr> (Addr4 w) \<and> allowed \<lparr> di_allow_private = False \<rparr> (mapped w)"
proof -
  have blocks: "drop_bit 22 w = 401 \<or> drop_bit 17 w = 25353"
    using assms by (simp add: in_block_def addr4_def)
  have "drop_bit 22 w = 792" if "drop_bit 17 w = 25353"
    using arg_cong [OF that, of "drop_bit 5"] by simp
  with blocks have high: "drop_bit 22 w = 401 \<or> drop_bit 22 w = 792" by blast
  have "drop_bit 16 w \<noteq> 43518" "drop_bit 16 w \<noteq> 49320" "drop_bit 20 w \<noteq> 2753"
    using high by (auto dest: arg_cong [of "drop_bit 16 w" _ "drop_bit 6"] arg_cong [of "drop_bit 20 w" _ "drop_bit 2"])
  moreover have "drop_bit 24 w \<noteq> 10" "drop_bit 24 w \<noteq> 127" "drop_bit 28 w \<noteq> 14"
    using high by (auto dest: arg_cong [of "drop_bit 22 w" _ "drop_bit 2"] arg_cong [of "drop_bit 22 w" _ "drop_bit 6"])
  moreover have "w \<noteq> 0" "w \<noteq> 4294967295" using high by auto
  ultimately have "allowed \<lparr> di_allow_private = False \<rparr> (mapped w)"
    by (simp add: allowed_def IsValid_def IsGlobalUnicast_def IsPrivate_def IsLoopback_def IsMulticast_def
        IsLinkLocalUnicast_def Let_def) (simp add: mapped_def Contains4_def)
  moreover have "\<not> allowed \<lparr> di_allow_private = False \<rparr> (Addr4 w)"
    using blocks by (auto simp: allowed_def Contains4_def xor_word_0 addr4_def)
  ultimately show ?thesis by blast
qed

theorem allowed_mapped_bypass_witness:
  "\<not> allowed \<lparr> di_allow_private = False \<rparr> (Addr4 (addr4 100 64 0 1)) \<and>
   allowed \<lparr> di_allow_private = False \<rparr> (mapped (addr4 100 64 0 1))"
  by (rule allowed_mapped_bypass) (simp add: in_block_def addr4_def)

section \<open>What is dialled\<close>

lemma dial_each_props:
  assumes "dial_each dial network port k as = (r, tried)"
  shows "tried = take (length tried) as" and "length tried \<le> length as"
    and "\<forall>c. r = Inr c \<longrightarrow> tried \<noteq> [] \<and> dial network (last tried) port = Some c"
    and "\<forall>a \<in> set (butlast tried). dial network a port = None"
    and "\<forall>e. r = Inl e \<longrightarrow> tried = as \<and> (\<forall>a \<in> set as. dial network a port = None)"
  using assms
  by (induction as arbitrary: k r tried) (auto split: option.splits prod.splits if_splits)

lemma dial_each_failed: "dial_each dial network port k as = (Inl e, tried) \<Longrightarrow> e = Dial_Failed (k + length as)"
proof (induction as arbitrary: k tried)
  case (Cons a as)
  then obtain t where "dial_each dial network port (Suc k) as = (Inl e, t)" by (auto split: option.splits prod.splits)
  from Cons.IH [OF this] show ?case by simp
qed simp

text \<open>Whatever the destination and the resolver's answer, only allowed addresses are dialled.\<close>

lemma DialContext_allowed:
  assumes "a \<in> set (snd (DialContext lookup dial d network address))"
  shows "allowed d a"
proof -
  have each: "b \<in> set as" if "b \<in> set (snd (dial_each dial network port k as))" for b port k as
    using that dial_each_props(1) by (metis prod.collapse in_set_takeD)
  show ?thesis
    using assms by (auto simp: DialContext_def split: option.splits if_splits dest!: each)
qed

text \<open>
  C38: the dialer fails closed.  If any resolved address is prohibited, or there are none or more than
  sixteen, no connection is attempted at all; otherwise the addresses are tried in order until
  one answers, each of them allowed, and the connection returned is that last one's.  The dialer
  gives up only when it has tried every address and none has answered.
\<close>

theorem DialContext_fails_closed:
  assumes "SplitHostPort address = Some (host, port)" and "lookup host = Some addresses"
    and "DialContext lookup dial d network address = (r, tried)"
  shows "tried = take (length tried) addresses \<and> (\<forall>a \<in> set tried. allowed d a) \<and> length tried \<le> 16 \<and>
    (addresses = [] \<or> length addresses > 16 \<or> (\<exists>a \<in> set addresses. \<not> allowed d a) \<longrightarrow>
       tried = [] \<and> (r = Inl Invalid_Address_Count \<or> r = Inl Prohibited_Address)) \<and>
    (addresses \<noteq> [] \<and> length addresses \<le> 16 \<and> (\<forall>a \<in> set addresses. allowed d a) \<longrightarrow>
       (\<forall>e. r = Inl e \<longrightarrow> tried = addresses \<and> e = Dial_Failed (length addresses) \<and>
          (\<forall>a \<in> set addresses. dial network a port = None)) \<and>
       ((\<exists>a \<in> set addresses. dial network a port \<noteq> None) \<longrightarrow> (\<exists>c. r = Inr c))) \<and>
    (\<forall>c. r = Inr c \<longrightarrow> tried \<noteq> [] \<and> dial network (last tried) port = Some c \<and>
       (\<forall>a \<in> set (butlast tried). dial network a port = None))"
proof (cases "addresses = [] \<or> length addresses > 16 \<or> (\<exists>a \<in> set addresses. \<not> allowed d a)")
  case True
  with assms have "tried = []" "r = Inl Invalid_Address_Count \<or> r = Inl Prohibited_Address"
    by (auto simp: DialContext_def maximum_resolved_addresses_def split: if_splits)
  moreover have "\<not> (addresses \<noteq> [] \<and> length addresses \<le> 16 \<and> (\<forall>a \<in> set addresses. allowed d a))" using True by auto
  ultimately show ?thesis by auto
next
  case False
  with assms have each: "dial_each dial network port 0 addresses = (r, tried)"
    by (auto simp: DialContext_def maximum_resolved_addresses_def)
  note props = dial_each_props [OF each]
  have "allowed d a" if "a \<in> set tried" for a
    using that props(1) False by (metis in_set_takeD)
  moreover have "e = Dial_Failed (length addresses)" if "r = Inl e" for e
    using dial_each_failed [of dial network port 0 addresses e tried] each that by simp
  moreover have "\<exists>c. r = Inr c" if "a \<in> set addresses" "dial network a port \<noteq> None" for a
    using props(5) that by (cases r) auto
  ultimately show ?thesis using props False by fastforce
qed

theorem DialContext_fails_closed_witness:
  "snd (DialContext (\<lambda>_. Some [Addr4 (addr4 10 0 0 1)]) (\<lambda>_ _ _. Some ())
     \<lparr> di_allow_private = False \<rparr> ''tcp'' ''example.com:443'') = []"
proof -
  obtain r tried where run: "DialContext (\<lambda>_. Some [Addr4 (addr4 10 0 0 1)]) (\<lambda>_ _ _. Some ())
     \<lparr> di_allow_private = False \<rparr> ''tcp'' ''example.com:443'' = (r, tried)"
    by fastforce
  have "SplitHostPort ''example.com:443'' = Some (''example.com'', ''443'')"
    by (simp add: SplitHostPort_def last_index_of_def)
  note closed = DialContext_fails_closed [OF this refl run]
  have "\<not> allowed \<lparr> di_allow_private = False \<rparr> (Addr4 (addr4 10 0 0 1))"
    by (simp add: allowed_def IsPrivate_def addr4_def)
  with closed run show ?thesis by simp
qed

text \<open>A destination of the usual form is split at its last colon, brackets removed.\<close>

lemma index_of_None: "index_of c s = None \<longleftrightarrow> c \<notin> set s"
  by (induction s) auto

lemma index_of_append: "c \<notin> set a \<Longrightarrow> index_of c (a @ c # b) = Some (length a)"
  by (induction a) auto

lemma last_index_of_append:
  assumes "c \<notin> set b"
  shows "last_index_of c (a @ c # b) = Some (length a)"
proof -
  have "index_of c (rev b @ c # rev a) = Some (length (rev b))"
    using assms by (intro index_of_append) simp
  then show ?thesis by (simp add: last_index_of_def)
qed

lemma SplitHostPort_plain:
  assumes "set host \<inter> set '':[]'' = {}" and "set port \<inter> set '':[]'' = {}"
  shows "SplitHostPort (host @ '':'' @ port) = Some (host, port)"
proof -
  have "last_index_of CHR '':'' (host @ CHR '':'' # port) = Some (length host)"
    using assms by (intro last_index_of_append) auto
  moreover have "hd (host @ CHR '':'' # port) \<noteq> CHR ''[''"
    using assms by (cases host) auto
  ultimately show ?thesis using assms by (auto simp: SplitHostPort_def Let_def)
qed

end
