(* ===== verification/Go_Json.thy ===== *)
theory Go_Json
  imports Go_Utf8
begin

text \<open>
  The parts of Go's \<open>encoding/json\<close> that the relay calls: \<open>json.Valid\<close>, and the reading of a text
  into a value that \<open>json.Unmarshal\<close> and a \<open>Decoder\<close> then match against the fields of a struct.
  Texts are Go strings, that is, sequences of bytes.

  The reader is a recursive descent over the grammar with the two counters of the definitions:
  \<open>depth\<close> is the number of open objects and arrays, which Go limits, and \<open>fuel\<close> bounds the
  recursion; \<open>json_read_more_fuel\<close> shows that twice the length of the text is always enough.
\<close>

section \<open>Values and lexical parts\<close>

datatype json =
    J_Null
  | J_Bool bool
  | J_Number string
  | J_String string
  | J_Array "json list"
  | J_Object "(string \<times> json) list"

definition text_of :: "bytes \<Rightarrow> string" where
  "text_of bs = map (\<lambda>b. char_of (unat b)) bs"

definition json_space :: "char \<Rightarrow> bool" where
  "json_space c \<longleftrightarrow> c = CHR '' '' \<or> c = CHR 0x09 \<or> c = CHR 0x0D \<or> c = CHR 0x0A"

definition skip_space :: "string \<Rightarrow> string" where
  "skip_space s = dropWhile json_space s"

definition is_digit :: "char \<Rightarrow> bool" where
  "is_digit c = char_between CHR ''0'' CHR ''9'' c"

text \<open>One or more digits, the longest such prefix.\<close>

definition some_digits :: "string \<Rightarrow> (string \<times> string) option" where
  "some_digits s =
     (let ds = takeWhile is_digit s in if ds = [] then None else Some (ds, dropWhile is_digit s))"

definition number_sign :: "string \<Rightarrow> string \<times> string" where
  "number_sign s = (case s of c # r \<Rightarrow> if c = CHR ''-'' then ([c], r) else ([], s) | [] \<Rightarrow> ([], s))"

definition number_int :: "string \<Rightarrow> (string \<times> string) option" where
  "number_int s =
     (case s of
        [] \<Rightarrow> None
      | c # r \<Rightarrow> if c = CHR ''0'' then Some ([c], r) else some_digits s)"

definition number_frac :: "string \<Rightarrow> (string \<times> string) option" where
  "number_frac s =
     (case s of
        [] \<Rightarrow> Some ([], s)
      | c # r \<Rightarrow>
          if c = CHR ''.'' then map_option (\<lambda>(ds, t). (c # ds, t)) (some_digits r)
          else Some ([], s))"

definition number_exp :: "string \<Rightarrow> (string \<times> string) option" where
  "number_exp s =
     (case s of
        [] \<Rightarrow> Some ([], s)
      | c # r \<Rightarrow>
          if c = CHR ''e'' \<or> c = CHR ''E''
          then let (sign, t) = (case r of x # y \<Rightarrow> if x = CHR ''-'' \<or> x = CHR ''+'' then ([x], y) else ([], r)
                                | [] \<Rightarrow> ([], r))
               in map_option (\<lambda>(ds, u). (c # sign @ ds, u)) (some_digits t)
          else Some ([], s))"

text \<open>A number literal at the front, in the grammar of JSON, and what follows it.\<close>

definition json_number :: "string \<Rightarrow> (string \<times> string) option" where
  "json_number s =
     (let (sign, s1) = number_sign s in
      Option.bind (number_int s1) (\<lambda>(i, s2).
      Option.bind (number_frac s2) (\<lambda>(f, s3).
      Option.bind (number_exp s3) (\<lambda>(e, s4).
      Some (sign @ i @ f @ e, s4)))))"

section \<open>String literals\<close>

definition encode_rune :: "nat \<Rightarrow> string" where
  "encode_rune r = map char_of
     (if r < 0x80 then [r]
      else if r < 0x800 then [0xC0 + r div 64, 0x80 + r mod 64]
      else if r < 0x10000 then [0xE0 + r div 4096, 0x80 + r div 64 mod 64, 0x80 + r mod 64]
      else [0xF0 + r div 262144, 0x80 + r div 4096 mod 64, 0x80 + r div 64 mod 64, 0x80 + r mod 64])"

definition replacement_text :: string where
  "replacement_text = map char_of [0xEF :: nat, 0xBF, 0xBD]"

definition hex4 :: "string \<Rightarrow> (nat \<times> string) option" where
  "hex4 s =
     (case map unhex (take 4 s) of
        [Some a, Some b, Some c, Some d] \<Rightarrow> Some (((a * 16 + b) * 16 + c) * 16 + d, drop 4 s)
      | _ \<Rightarrow> None)"

text \<open>What follows a backslash and the \<open>u\<close>: a surrogate that is no half of a pair is replaced.\<close>

definition unicode_escape :: "string \<Rightarrow> (string \<times> string) option" where
  "unicode_escape s =
     (case hex4 s of
        None \<Rightarrow> None
      | Some (r, t) \<Rightarrow>
          if 0xD800 \<le> r \<and> r < 0xE000
          then (case (if take 2 t = [CHR 0x5C, CHR ''u''] then hex4 (drop 2 t) else None) of
                  None \<Rightarrow> Some (replacement_text, t)
                | Some (r2, u) \<Rightarrow>
                    if r < 0xDC00 \<and> 0xDC00 \<le> r2 \<and> r2 < 0xE000
                    then Some (encode_rune ((r - 0xD800) * 1024 + (r2 - 0xDC00) + 0x10000), u)
                    else Some (replacement_text, t))
          else Some (encode_rune r, t))"

definition escape_code :: "char \<Rightarrow> char option" where
  "escape_code c =
     (if c = CHR 0x22 \<or> c = CHR 0x5C \<or> c = CHR ''/'' then Some c
      else if c = CHR ''b'' then Some (CHR 0x08)
      else if c = CHR ''f'' then Some (CHR 0x0C)
      else if c = CHR ''n'' then Some (CHR 0x0A)
      else if c = CHR ''r'' then Some (CHR 0x0D)
      else if c = CHR ''t'' then Some (CHR 0x09)
      else None)"

text \<open>One unit of a string literal: an escape, or the rune at the front, replaced if it is invalid.\<close>

definition json_unit :: "string \<Rightarrow> (string \<times> string) option" where
  "json_unit s =
     (case s of
        [] \<Rightarrow> None
      | c # r \<Rightarrow>
          if c = CHR 0x5C
          then (case r of
                  [] \<Rightarrow> None
                | e # t \<Rightarrow>
                    if e = CHR ''u'' then unicode_escape t
                    else map_option (\<lambda>x. ([x], t)) (escape_code e))
          else if (of_char c :: nat) < 0x20 then None
          else let n = rune_width (bytes_of s)
               in if n = 0 then Some (replacement_text, r) else Some (take n s, drop n s))"

lemma hex4_rest: "hex4 s = Some (r, t) \<Longrightarrow> t = drop 4 s"
  by (auto simp: hex4_def split: list.splits option.splits)

lemma json_unit_shrinks:
  assumes "json_unit s = Some (u, t)"
  shows "length t < length s"
proof (cases s)
  case (Cons c r)
  have "length y \<le> length x" if "unicode_escape x = Some (v, y)" for x y v
    using that by (auto simp: unicode_escape_def split: option.splits if_splits dest!: hex4_rest)
  moreover have "length (drop (rune_width (bytes_of s)) s) < length s" if "rune_width (bytes_of s) \<noteq> 0"
    using that Cons by simp
  ultimately show ?thesis
    using assms Cons
    by (fastforce simp: json_unit_def Let_def split: list.splits if_splits option.splits)
qed (use assms in \<open>simp add: json_unit_def\<close>)

text \<open>The rest of a string literal after the opening quote: its decoded value, and what follows it.\<close>

function json_string :: "string \<Rightarrow> (string \<times> string) option" where
  "json_string s =
     (case s of
        [] \<Rightarrow> None
      | c # r \<Rightarrow>
          if c = CHR 0x22 then Some ([], r)
          else (case json_unit s of
                  None \<Rightarrow> None
                | Some (u, t) \<Rightarrow> map_option (\<lambda>(v, w). (u @ v, w)) (json_string t)))"
  by pat_completeness auto
termination by (relation "measure length") (auto dest: json_unit_shrinks)

declare json_string.simps [simp del]

section \<open>The reader\<close>

definition maximum_nesting :: nat where
  "maximum_nesting = 10000"

definition literal :: "string \<Rightarrow> json \<Rightarrow> string \<Rightarrow> (json \<times> string) option" where
  "literal word v s =
     (if take (length word) s = word then Some (v, drop (length word) s) else None)"

definition expect :: "char \<Rightarrow> string \<Rightarrow> string option" where
  "expect c s = (case skip_space s of [] \<Rightarrow> None | x # r \<Rightarrow> if x = c then Some r else None)"

fun read_value :: "nat \<Rightarrow> nat \<Rightarrow> string \<Rightarrow> (json \<times> string) option"
  and read_members :: "nat \<Rightarrow> nat \<Rightarrow> string \<Rightarrow> ((string \<times> json) list \<times> string) option"
  and read_elements :: "nat \<Rightarrow> nat \<Rightarrow> string \<Rightarrow> (json list \<times> string) option" where
  "read_value 0 depth s = None"
| "read_value (Suc fuel) depth s =
     (case skip_space s of
        [] \<Rightarrow> None
      | c # r \<Rightarrow>
          if c = CHR ''{'' then
            if depth \<ge> maximum_nesting then None
            else (case expect CHR ''}'' r of
                    Some t \<Rightarrow> Some (J_Object [], t)
                  | None \<Rightarrow> map_option (\<lambda>(ms, t). (J_Object ms, t)) (read_members fuel (Suc depth) r))
          else if c = CHR ''['' then
            if depth \<ge> maximum_nesting then None
            else (case expect CHR '']'' r of
                    Some t \<Rightarrow> Some (J_Array [], t)
                  | None \<Rightarrow> map_option (\<lambda>(vs, t). (J_Array vs, t)) (read_elements fuel (Suc depth) r))
          else if c = CHR 0x22 then map_option (\<lambda>(v, t). (J_String v, t)) (json_string r)
          else if c = CHR ''t'' then literal ''true'' (J_Bool True) (c # r)
          else if c = CHR ''f'' then literal ''false'' (J_Bool False) (c # r)
          else if c = CHR ''n'' then literal ''null'' J_Null (c # r)
          else map_option (\<lambda>(n, t). (J_Number n, t)) (json_number (c # r)))"
| "read_members 0 depth s = None"
| "read_members (Suc fuel) depth s =
     (case expect CHR 0x22 s of
        None \<Rightarrow> None
      | Some s1 \<Rightarrow>
          (case json_string s1 of
             None \<Rightarrow> None
           | Some (k, s2) \<Rightarrow>
               (case expect CHR '':'' s2 of
                  None \<Rightarrow> None
                | Some s3 \<Rightarrow>
                    (case read_value fuel depth s3 of
                       None \<Rightarrow> None
                     | Some (v, s4) \<Rightarrow>
                         (case expect CHR '','' s4 of
                            Some s5 \<Rightarrow> map_option (\<lambda>(ms, t). ((k, v) # ms, t)) (read_members fuel depth s5)
                          | None \<Rightarrow> map_option (\<lambda>t. ([(k, v)], t)) (expect CHR ''}'' s4))))))"
| "read_elements 0 depth s = None"
| "read_elements (Suc fuel) depth s =
     (case read_value fuel depth s of
        None \<Rightarrow> None
      | Some (v, s1) \<Rightarrow>
          (case expect CHR '','' s1 of
             Some s2 \<Rightarrow> map_option (\<lambda>(vs, t). (v # vs, t)) (read_elements fuel depth s2)
           | None \<Rightarrow> map_option (\<lambda>t. ([v], t)) (expect CHR '']'' s1)))"

text \<open>The value of a whole text, if it is one value with space around it.\<close>

definition json_read :: "string \<Rightarrow> json option" where
  "json_read s =
     (case read_value (Suc (2 * length s)) 0 s of
        None \<Rightarrow> None
      | Some (v, t) \<Rightarrow> if skip_space t = [] then Some v else None)"

definition json_Valid :: "bytes \<Rightarrow> bool" where
  "json_Valid body = (json_read (text_of body) \<noteq> None)"

section \<open>Enough fuel\<close>

lemma length_skip_space: "length (skip_space s) \<le> length s"
  by (simp add: skip_space_def length_dropWhile_le)

lemma expect_shrinks: "expect c s = Some t \<Longrightarrow> length t < length s"
  using length_skip_space [of s] by (auto simp: expect_def split: list.splits if_splits)

lemma json_string_shrinks: "json_string s = Some (v, t) \<Longrightarrow> length t < length s"
proof (induction s arbitrary: v rule: json_string.induct)
  case (1 s)
  show ?case
  proof (cases s)
    case (Cons c r)
    show ?thesis
    proof (cases "c = CHR 0x22")
      case True
      with 1(2) have "json_string (CHR 0x22 # r) = Some (v, t)" using Cons by simp
      with True Cons show ?thesis by (simp add: json_string.simps [of "CHR 0x22 # r"])
    next
      case False
      with 1(2) Cons obtain u x w where u: "json_unit s = Some (u, x)" and w: "json_string x = Some (w, t)"
        by (auto simp: json_string.simps [of "c # r"] split: option.splits)
      from 1(1) [OF Cons False u refl w] json_unit_shrinks [OF u] show ?thesis by simp
    qed
  qed (use 1(2) in \<open>simp add: json_string.simps [of "[]"]\<close>)
qed

lemma some_digits_shrinks: "some_digits s = Some (ds, t) \<Longrightarrow> length t < length s"
proof -
  assume *: "some_digits s = Some (ds, t)"
  then have "ds = takeWhile is_digit s" "t = dropWhile is_digit s" "ds \<noteq> []"
    by (auto simp: some_digits_def Let_def split: if_splits)
  moreover have "length (takeWhile is_digit s) + length (dropWhile is_digit s) = length s"
    by (metis length_append takeWhile_dropWhile_id)
  ultimately show ?thesis by (cases "takeWhile is_digit s") auto
qed

lemma json_number_shrinks: "json_number s = Some (n, t) \<Longrightarrow> length t < length s"
proof -
  assume *: "json_number s = Some (n, t)"
  obtain sign s1 where sign: "number_sign s = (sign, s1)" by fastforce
  with * obtain i s2 f s3 e where i: "number_int s1 = Some (i, s2)" and f: "number_frac s2 = Some (f, s3)"
    and e: "number_exp s3 = Some (e, t)"
    by (auto simp: json_number_def bind_eq_Some_conv)
  have "length s1 \<le> length s" using sign by (auto simp: number_sign_def split: list.splits if_splits)
  moreover have "length s2 < length s1"
    using i by (auto simp: number_int_def split: list.splits if_splits dest!: some_digits_shrinks)
  moreover have "length s3 \<le> length s2"
    using f some_digits_shrinks by (fastforce simp: number_frac_def split: list.splits if_splits)
  moreover have "length t \<le> length s3"
    using e some_digits_shrinks by (fastforce simp: number_exp_def Let_def split: list.splits if_splits)
  ultimately show ?thesis by linarith
qed

lemma literal_shrinks: "literal w v s = Some (x, t) \<Longrightarrow> w \<noteq> [] \<Longrightarrow> s \<noteq> [] \<Longrightarrow> length t < length s"
  by (auto simp: literal_def split: if_splits)

lemma skip_space_Cons: "skip_space s = c # r \<Longrightarrow> length r < length s"
  using length_skip_space [of s] by simp

lemma read_shrinks:
  "read_value fuel depth s = Some (v, t) \<Longrightarrow> length t < length s"
  "read_members fuel depth s = Some (ms, t) \<Longrightarrow> length t < length s"
  "read_elements fuel depth s = Some (vs, t) \<Longrightarrow> length t < length s"
proof (induction fuel depth s and fuel depth s and fuel depth s arbitrary: v t and ms t and vs t
    rule: read_value_read_members_read_elements.induct)
  case (2 fuel depth s)
  then show ?case
    by (fastforce split: list.splits if_splits option.splits
        dest: skip_space_Cons expect_shrinks json_string_shrinks json_number_shrinks literal_shrinks)
next
  case (4 fuel depth s)
  then show ?case
    by (fastforce split: option.splits dest: expect_shrinks json_string_shrinks)
next
  case (6 fuel depth s)
  then show ?case
    by (fastforce split: option.splits dest: expect_shrinks)
qed simp_all

lemma read_fuel_step:
  "2 * length s < fuel \<Longrightarrow> read_value fuel depth s = read_value (Suc fuel) depth s"
  "2 * length s < fuel \<Longrightarrow> read_members fuel depth s = read_members (Suc fuel) depth s"
  "2 * length s + 1 < fuel \<Longrightarrow> read_elements fuel depth s = read_elements (Suc fuel) depth s"
proof (induction fuel depth s and fuel depth s and fuel depth s rule: read_value_read_members_read_elements.induct)
  case (2 fuel depth s)
  show ?case
  proof (cases "skip_space s")
    case (Cons c r)
    have r: "2 * length r < fuel" "2 * length r + 1 < fuel"
      using skip_space_Cons [OF Cons] 2(3) by simp_all
    show ?thesis
    proof (cases "c = CHR ''{'' \<and> depth < maximum_nesting \<and> expect CHR ''}'' r = None")
      case True
      with 2(1) [OF Cons] r(1) show ?thesis
        by (simp only: read_value.simps Cons list.case if_True option.case) simp
    next
      case no_object: False
      show ?thesis
      proof (cases "c = CHR ''['' \<and> depth < maximum_nesting \<and> expect CHR '']'' r = None")
        case True
        with 2(2) [OF Cons] r(2) show ?thesis
          by (simp only: read_value.simps Cons list.case option.case) simp
      next
        case False
        show ?thesis
        proof (cases "c = CHR ''{'' \<or> c = CHR ''[''")
          case True
          with False no_object show ?thesis
            by (simp only: read_value.simps Cons list.case) (elim disjE;
              auto simp del: read_members.simps(2) read_elements.simps(2) split: option.split)
        qed (simp add: read_value.simps Cons)
      qed
    qed
  qed simp
next
  case (4 fuel depth s)
  show ?case
  proof (cases "expect CHR 0x22 s")
    case (Some s1)
    then have l1: "length s1 < length s" by (rule expect_shrinks)
    show ?thesis
    proof (cases "json_string s1")
      case str: (Some p)
      obtain k s2 where p: "p = (k, s2)" by (cases p)
      with str have l2: "length s2 < length s1" by (auto dest: json_string_shrinks)
      show ?thesis
      proof (cases "expect CHR '':'' s2")
        case s3: (Some s3)
        then have l3: "length s3 < length s2" by (rule expect_shrinks)
        have v: "read_value fuel depth s3 = read_value (Suc fuel) depth s3"
          using 4(1) [OF Some str p [symmetric] s3] 4(3) l1 l2 l3 by simp
        show ?thesis
        proof (cases "read_value fuel depth s3")
          case val: (Some q)
          obtain x s4 where q: "q = (x, s4)" by (cases q)
          with val have l4: "length s4 < length s3" by (auto dest: read_shrinks)
          show ?thesis
          proof (cases "expect CHR '','' s4")
            case s5: (Some s5)
            then have l5: "length s5 < length s4" by (rule expect_shrinks)
            have "read_members fuel depth s5 = read_members (Suc fuel) depth s5"
              using 4(2) [OF Some str p [symmetric] s3 val q [symmetric] s5] 4(3) l1 l2 l3 l4 l5 by simp
            with Some str p s3 val v q s5 show ?thesis by (simp only: read_members.simps option.case prod.case)
          qed (use Some str p s3 val v q in \<open>simp only: read_members.simps option.case prod.case\<close>)
        qed (use Some str p s3 v in \<open>simp only: read_members.simps option.case prod.case\<close>)
      qed (use Some str p in \<open>simp only: read_members.simps option.case prod.case\<close>)
    qed (use Some in \<open>simp only: read_members.simps option.case\<close>)
  qed (simp only: read_members.simps option.case)
next
  case (6 fuel depth s)
  have v: "read_value fuel depth s = read_value (Suc fuel) depth s" using 6(1,3) by simp
  show ?case
  proof (cases "read_value fuel depth s")
    case val: (Some q)
    obtain x s1 where q: "q = (x, s1)" by (cases q)
    with val have l1: "length s1 < length s" by (auto dest: read_shrinks)
    show ?thesis
    proof (cases "expect CHR '','' s1")
      case s2: (Some s2)
      then have l2: "length s2 < length s1" by (rule expect_shrinks)
      have "read_elements fuel depth s2 = read_elements (Suc fuel) depth s2"
        using 6(2) [OF val q [symmetric] s2] 6(3) l1 l2 by simp
      with val v q s2 show ?thesis by (simp only: read_elements.simps option.case prod.case)
    qed (use val v q in \<open>simp only: read_elements.simps option.case prod.case\<close>)
  qed (use v in \<open>simp only: read_elements.simps option.case\<close>)
qed simp_all

text \<open>Any fuel from twice the length on gives the same value.\<close>

lemma json_read_more_fuel:
  assumes "2 * length s < fuel"
  shows "read_value fuel 0 s = read_value (Suc (2 * length s)) 0 s"
proof -
  have "read_value (Suc (2 * length s) + n) 0 s = read_value (Suc (2 * length s)) 0 s" for n
  proof (induction n)
    case (Suc n)
    with read_fuel_step(1) [of s "Suc (2 * length s) + n" 0] show ?case by (simp only: add_Suc_right)
  qed simp
  from this [of "fuel - Suc (2 * length s)"] show ?thesis using assms by simp
qed

section \<open>Reading into a struct\<close>

text \<open>
  A member belongs to the field whose name it has up to case.  Case folding is Unicode's: besides
  the ASCII letters, the long s and the Kelvin sign fold to letters that a name can have.  No other
  folding of a non-ASCII character yields an ASCII character, so those are left as they are.
\<close>

function fold_name :: "string \<Rightarrow> string" where
  "fold_name [] = []"
| "fold_name (c # s) =
     (if c = CHR 0xC5 \<and> take 1 s = [CHR 0xBF] then CHR ''S'' # fold_name (drop 1 s)
      else if c = CHR 0xE2 \<and> take 2 s = [CHR 0x84, CHR 0xAA] then CHR ''K'' # fold_name (drop 2 s)
      else (if char_between CHR ''a'' CHR ''z'' c then char_of ((of_char c :: nat) - 32) else c) # fold_name s)"
  by pat_completeness auto
termination by (relation "measure length") auto

definition names_field :: "string \<Rightarrow> string \<Rightarrow> bool" where
  "names_field key name \<longleftrightarrow> fold_name key = fold_name name"

text \<open>
  The members are matched in their order, so that a later one wins.  \<open>None\<close> is an error: where Go
  goes on after one to report it at the end, the target is not used by the program.
\<close>

fun read_fields :: "(string \<times> json \<Rightarrow> 'a \<Rightarrow> 'a option) \<Rightarrow> (string \<times> json) list \<Rightarrow> 'a \<Rightarrow> 'a option" where
  "read_fields field [] a = Some a"
| "read_fields field (m # ms) a =
     (case field m a of None \<Rightarrow> None | Some b \<Rightarrow> read_fields field ms b)"

definition read_struct :: "(string \<times> json \<Rightarrow> 'a \<Rightarrow> 'a option) \<Rightarrow> json \<Rightarrow> 'a \<Rightarrow> 'a option" where
  "read_struct field v a =
     (case v of J_Null \<Rightarrow> Some a | J_Object ms \<Rightarrow> read_fields field ms a | _ \<Rightarrow> None)"

text \<open>A value for a field of type \<open>string\<close>, \<open>uint8\<close> or \<open>json.Number\<close>; \<open>null\<close> changes nothing.\<close>

definition string_field :: "json \<Rightarrow> string \<Rightarrow> string option" where
  "string_field v old = (case v of J_Null \<Rightarrow> Some old | J_String s \<Rightarrow> Some s | _ \<Rightarrow> None)"

definition uint8_field :: "json \<Rightarrow> nat \<Rightarrow> nat option" where
  "uint8_field v old =
     (case v of
        J_Null \<Rightarrow> Some old
      | J_Number n \<Rightarrow> (case parse_uint 64 n of None \<Rightarrow> None | Some k \<Rightarrow> if k < 256 then Some k else None)
      | _ \<Rightarrow> None)"

definition number_field :: "json \<Rightarrow> string \<Rightarrow> string option" where
  "number_field v old =
     (case v of
        J_Null \<Rightarrow> Some old
      | J_Number n \<Rightarrow> Some n
      | J_String s \<Rightarrow> (case json_number s of Some (_, []) \<Rightarrow> Some s | _ \<Rightarrow> None)
      | _ \<Rightarrow> None)"

section \<open>Literals without escapes\<close>

definition plain :: "char \<Rightarrow> bool" where
  "plain c \<longleftrightarrow> 0x20 \<le> (of_char c :: nat) \<and> (of_char c :: nat) < 0x80 \<and> c \<noteq> CHR 0x22 \<and> c \<noteq> CHR 0x5C"

lemma json_string_quote [simp]: "json_string (CHR 0x22 # t) = Some ([], t)"
  by (simp add: json_string.simps [of "CHR 0x22 # t"])

lemma json_string_plain_Cons:
  assumes "plain c"
  shows "json_string (c # s) = map_option (\<lambda>(v, w). (c # v, w)) (json_string s)"
proof -
  have "rune_width (bytes_of (c # s)) = 1"
    using assms by (simp add: rune_width_def bytes_of_def plain_def unat_of_char)
  with assms have "json_unit (c # s) = Some ([c], s)" by (simp add: json_unit_def plain_def)
  with assms show ?thesis by (simp add: json_string.simps [of "c # s"] plain_def)
qed

lemma json_string_plain: "list_all plain s \<Longrightarrow> json_string (s @ CHR 0x22 # t) = Some (s, t)"
  by (induction s) (simp_all add: json_string_plain_Cons)

lemma text_of_bytes_of [simp]: "text_of (bytes_of s) = s"
  by (simp add: text_of_def bytes_of_def comp_def unat_of_char)

text \<open>A reading with less fuel that succeeds is the reading.\<close>

declare read_value.simps(2) [simp del] read_members.simps(2) [simp del] read_elements.simps(2) [simp del]

lemma read_value_Some_step:
  "read_value fuel depth s = Some r \<Longrightarrow> read_value (Suc fuel) depth s = Some r"
  "read_members fuel depth s = Some p \<Longrightarrow> read_members (Suc fuel) depth s = Some p"
  "read_elements fuel depth s = Some q \<Longrightarrow> read_elements (Suc fuel) depth s = Some q"
proof (induction fuel depth s and fuel depth s and fuel depth s arbitrary: r and p and q
    rule: read_value_read_members_read_elements.induct)
  case (2 fuel depth s)
  then show ?case
    by (simp only: read_value.simps) (auto split: list.splits if_splits option.splits)
next
  case (4 fuel depth s)
  then show ?case
    by (simp only: read_members.simps) (fastforce split: option.splits prod.splits)
next
  case (6 fuel depth s)
  then show ?case
    by (simp only: read_elements.simps) (fastforce split: option.splits prod.splits)
qed simp_all

lemma read_value_Some_more:
  assumes "read_value fuel depth s = Some r" and "fuel \<le> more"
  shows "read_value more depth s = Some r"
proof -
  have "read_value (fuel + n) depth s = Some r" for n
    by (induction n) (simp_all add: assms(1) read_value_Some_step)
  from this [of "more - fuel"] assms(2) show ?thesis by simp
qed

lemma json_readI:
  assumes "read_value fuel 0 s = Some (v, t)" and "skip_space t = []"
  shows "json_read s = Some v"
proof -
  have "read_value (Suc (2 * length s)) 0 s = read_value (fuel + Suc (2 * length s)) 0 s"
    by (intro json_read_more_fuel [symmetric]) simp
  also have "\<dots> = Some (v, t)" by (rule read_value_Some_more [OF assms(1)]) simp
  finally show ?thesis using assms(2) by (simp add: json_read_def)
qed

lemmas read_simps = read_value.simps read_members.simps read_elements.simps

text \<open>An object with one string member.\<close>

definition one_member :: "string \<Rightarrow> string \<Rightarrow> string" where
  "one_member k v = ''{'' @ [CHR 0x22] @ k @ [CHR 0x22] @ '':'' @ [CHR 0x22] @ v @ [CHR 0x22] @ ''}''"

lemma length_one_member [simp]: "length (one_member k v) = length k + length v + 7"
  by (simp add: one_member_def)

lemma json_read_member:
  assumes "list_all plain k" and "list_all plain v"
  shows "json_read (one_member k v) = Some (J_Object [(k, J_String v)])"
proof (rule json_readI [of 5 _ _ "[]"])
  show "read_value 5 0 (one_member k v) = Some (J_Object [(k, J_String v)], [])"
    using json_string_plain [OF assms(1), of "'':'' @ [CHR 0x22] @ v @ [CHR 0x22] @ ''}''"]
      json_string_plain [OF assms(2), of "''}''"]
    by (simp add: one_member_def eval_nat_numeral read_simps expect_def skip_space_def json_space_def maximum_nesting_def)
qed (simp add: skip_space_def)

end
