(* ===== verification/Notification_Queue.thy ===== *)
theory Notification_Queue
  imports Notification Go_Json
begin

text \<open>
  The receiving side of \<open>internal/notification/queue.go\<close>: what counts as a hint (\<open>validMessage\<close>) and
  how a received batch is collected (\<open>Receive\<close>).  The queue service is an argument: its answer to a
  receive call, \<open>None\<close> for an error or an empty result.
\<close>

section \<open>Messages\<close>

definition maximumBodyBytes :: nat where
  "maximumBodyBytes = 1024"

record message =
  ms_version :: nat
  ms_event :: string

text \<open>A message of the service; the fields are pointers.\<close>

record sqs_item =
  it_body :: "string option"
  it_handle :: "string option"

definition message_field :: "string \<times> json \<Rightarrow> message \<Rightarrow> message option" where
  "message_field member m =
     (let (key, v) = member in
      if names_field key ''version''
        then map_option (\<lambda>n. m\<lparr>ms_version := n\<rparr>) (uint8_field v (ms_version m))
      else if names_field key ''event_id''
        then map_option (\<lambda>s. m\<lparr>ms_event := s\<rparr>) (string_field v (ms_event m))
      else Some m)"

definition unmarshal_message :: "string \<Rightarrow> message option" where
  "unmarshal_message body =
     Option.bind (json_read body) (\<lambda>v. read_struct message_field v \<lparr> ms_version = 0, ms_event = [] \<rparr>)"

definition validMessage :: "sqs_item \<Rightarrow> bool" where
  "validMessage item =
     (case (it_body item, it_handle item) of
        (Some body, Some handle) \<Rightarrow>
          if length body > maximumBodyBytes \<or> length handle = 0 then False
          else if length handle > 2048 then False
          else (case unmarshal_message body of
                  None \<Rightarrow> False
                | Some value \<Rightarrow> ms_version value = 1 \<and> ValidUUID (ms_event value))
      | _ \<Rightarrow> False)"

section \<open>The queue\<close>

definition New :: "bool \<Rightarrow> string \<Rightarrow> string option" where
  "New client_present queueURL =
     (if \<not> client_present then None else if queueURL = [] then None else Some queueURL)"

definition collect :: "sqs_item \<Rightarrow> batch \<Rightarrow> batch" where
  "collect item b =
     (if validMessage item = False then b
      else b\<lparr>bt_handles := (bt_handles b)[bt_count b := the (it_handle item)], bt_count := bt_count b + 1\<rparr>)"

definition Receive :: "(string \<Rightarrow> sqs_item list option) \<Rightarrow> string \<Rightarrow> batch option" where
  "Receive ReceiveMessage url =
     (case ReceiveMessage url of
        None \<Rightarrow> None
      | Some messages \<Rightarrow>
          if length messages > BatchSize then None
          else Some (fold collect messages empty_batch))"

section \<open>What a batch holds\<close>

lemma validMessage_handle: "validMessage item \<Longrightarrow> \<exists>h. it_handle item = Some h \<and> h \<noteq> [] \<and> length h \<le> 2048"
  by (auto simp: validMessage_def split: option.splits if_splits)

definition collected :: "sqs_item list \<Rightarrow> batch \<Rightarrow> bool" where
  "collected items b \<longleftrightarrow> length (bt_handles b) = BatchSize \<and>
     bt_count b = length (filter validMessage items) \<and>
     take (bt_count b) (bt_handles b) = map (the \<circ> it_handle) (filter validMessage items)"

lemma collected_count_le: "collected items b \<Longrightarrow> bt_count b \<le> length items"
  using length_filter_le [of validMessage items] by (auto simp: collected_def simp del: length_filter_le)

lemma collected_step:
  assumes "collected items b" and "length items < BatchSize"
  shows "collected (items @ [item]) (collect item b)"
proof -
  have "bt_count b \<le> length items" using assms(1) by (rule collected_count_le)
  with assms have "bt_count b < length (bt_handles b)" unfolding collected_def by linarith
  moreover have "length (filter validMessage items) < BatchSize"
    using length_filter_le [of validMessage items] assms(2) by linarith
  ultimately show ?thesis
    using assms(1) by (auto simp: collected_def collect_def take_Suc_conv_app_nth)
qed

lemma collected_fold:
  "collected done b \<Longrightarrow> length done + length items \<le> BatchSize \<Longrightarrow> collected (done @ items) (fold collect items b)"
proof (induction items arbitrary: "done" b)
  case (Cons item items)
  from Cons.IH [OF collected_step [OF Cons.prems(1), of item]] Cons.prems(2) show ?case by simp
qed simp

lemma Receive_collected:
  assumes "Receive rcv url = Some b"
  obtains messages where "rcv url = Some messages" and "length messages \<le> BatchSize" and "collected messages b"
proof -
  have "collected [] empty_batch" by (simp add: collected_def empty_batch_def)
  from collected_fold [OF this] assms that show thesis
    by (auto simp: Receive_def split: option.splits if_splits)
qed

text \<open>
  Receiving and acknowledging.  For every answer of the queue service, the batch that a cycle
  receives is acknowledged without a panic, and the deletion names exactly the receipt handles of
  the valid messages, in their order and under distinct identifiers; an invalid message is left to
  the redrive policy.  Success is reported exactly when there was nothing to delete or the service
  confirmed every entry.
\<close>

theorem Receive_Acknowledge:
  assumes "Receive rcv url = Some b"
  shows "\<exists>messages ok entries. rcv url = Some messages \<and> length messages \<le> 10 \<and>
    Acknowledge del url b = Some (ok, entries) \<and>
    map (Some \<circ> snd) entries = map it_handle (filter validMessage messages) \<and>
    distinct (map fst entries) \<and>
    (ok \<longleftrightarrow> entries = [] \<or> del url entries = Some (0, length entries))"
proof -
  obtain messages where m: "rcv url = Some messages" "length messages \<le> BatchSize" "collected messages b"
    using assms by (rule Receive_collected)
  have count: "bt_count b \<le> BatchSize" using collected_count_le [OF m(3)] m(2) by simp
  obtain ok entries where ack: "Acknowledge del url b = Some (ok, entries)" "distinct (map fst entries)"
    "map snd entries = take (bt_count b) (bt_handles b)"
    "ok \<longleftrightarrow> bt_count b = 0 \<or> del url entries = Some (0, bt_count b)"
    using Acknowledge_exact [OF count, of del url] m(3) unfolding collected_def by blast
  have handles: "map snd entries = map (the \<circ> it_handle) (filter validMessage messages)"
    using ack(3) m(3) unfolding collected_def by metis
  then have "map Some (map snd entries) = map Some (map (the \<circ> it_handle) (filter validMessage messages))" by simp
  also have "\<dots> = map it_handle (filter validMessage messages)"
    by (auto dest: validMessage_handle)
  finally have "map (Some \<circ> snd) entries = map it_handle (filter validMessage messages)" by simp
  moreover have "length entries = bt_count b"
    using arg_cong [OF handles, of length] m(3) by (simp add: collected_def)
  ultimately show ?thesis using ack m by (auto simp: BatchSize_def)
qed

section \<open>A published hint is a valid message\<close>

lemma plain_uuid_char: "uuid_char_ok i c \<Longrightarrow> plain c"
  by (auto simp: uuid_char_ok_def plain_def Let_def char_between_def split: if_splits)

lemma plain_uuid_chars: "uuid_chars_ok i s \<Longrightarrow> list_all plain s"
  by (induction i s rule: uuid_chars_ok.induct) (auto simp: plain_uuid_char split: if_splits)

lemma read_message_body:
  assumes "list_all plain i"
  shows "json_read (message_body 1 i) = Some (J_Object [(''version'', J_Number ''1''), (''event_id'', J_String i)])"
proof (rule json_readI [of 5 _ _ "[]"])
  have "char_of (49 :: nat) = CHR ''1''" by code_simp
  then have "format_nat 1 = ''1''" by (simp add: format_nat.simps decimal_digit_def)
  then show "read_value 5 0 (message_body 1 i) =
      Some (J_Object [(''version'', J_Number ''1''), (''event_id'', J_String i)], [])"
    using json_string_plain [OF assms, of "''}''"]
    by (simp add: message_body_def eval_nat_numeral read_simps expect_def skip_space_def json_space_def maximum_nesting_def
        json_string_plain_Cons plain_def json_number_def number_sign_def number_int_def number_frac_def number_exp_def
        some_digits_def is_digit_def char_between_def)
qed (simp add: skip_space_def)

lemma message_body_valid:
  assumes "ValidUUID i" and "h \<noteq> []" and "length h \<le> 2048"
  shows "validMessage \<lparr> it_body = Some (message_body 1 i), it_handle = Some h \<rparr>"
    and "unmarshal_message (message_body 1 i) = Some \<lparr> ms_version = 1, ms_event = i \<rparr>"
proof -
  have len: "length i = 36" and "list_all plain i"
    using assms(1) by (auto simp: ValidUUID_def plain_uuid_chars split: if_splits)
  from read_message_body [OF this(2)]
  show msg: "unmarshal_message (message_body 1 i) = Some \<lparr> ms_version = 1, ms_event = i \<rparr>"
    by (simp add: unmarshal_message_def read_struct_def message_field_def names_field_def
        uint8_field_def string_field_def parse_uint_def digit_value_def char_between_def)
  have "length (format_nat 1) = 1" by (simp add: format_nat.simps)
  then have "length (message_body 1 i) = 63" by (simp add: message_body_def len)
  with msg assms show "validMessage \<lparr> it_body = Some (message_body 1 i), it_handle = Some h \<rparr>"
    by (simp add: validMessage_def maximumBodyBytes_def)
qed

text \<open>
  Hints survive the queue.  A hint is sent only for a well-formed identifier, and whatever the
  publisher sends is, when it comes back from the queue with a receipt handle, a valid message that
  carries the same identifier.
\<close>

theorem Publish_received:
  assumes "snd (Publish send url i) = [(url', body)]" and "h \<noteq> []" and "length h \<le> 2048"
  shows "ValidUUID i \<and> url' = url \<and> validMessage \<lparr> it_body = Some body, it_handle = Some h \<rparr> \<and>
    unmarshal_message body = Some \<lparr> ms_version = 1, ms_event = i \<rparr>"
  using assms(1) message_body_valid [OF _ assms(2,3)] by (auto simp: Publish_def Let_def split: if_splits)

section \<open>The properties on a concrete queue\<close>

definition sample_uuid_text :: string where
  "sample_uuid_text = ''0123abcd-0000-4000-8000-000000000001''"

lemma sample_uuid_text_valid: "ValidUUID sample_uuid_text"
  by (simp add: sample_uuid_text_def ValidUUID_def uuid_char_ok_def char_between_def)

theorem Publish_received_witness:
  "validMessage \<lparr> it_body = Some (message_body 1 sample_uuid_text), it_handle = Some ''h'' \<rparr>"
proof -
  have "snd (Publish (\<lambda>_ _. True) ''q'' sample_uuid_text) = [(''q'', message_body 1 sample_uuid_text)]"
    by (simp add: Publish_def sample_uuid_text_valid)
  from Publish_received [OF this, of "''h''"] show ?thesis by simp
qed

theorem Receive_Acknowledge_witness:
  "\<exists>b entries. Receive (\<lambda>_. Some [\<lparr> it_body = None, it_handle = Some ''p'' \<rparr>,
       \<lparr> it_body = Some (message_body 1 sample_uuid_text), it_handle = Some ''h'' \<rparr>]) ''q'' = Some b \<and>
     Acknowledge (\<lambda>_ entries. Some (0, length entries)) ''q'' b = Some (True, entries) \<and> map snd entries = [''h'']"
proof -
  let ?items = "[\<lparr> it_body = None, it_handle = Some ''p'' \<rparr>,
      \<lparr> it_body = Some (message_body 1 sample_uuid_text), it_handle = Some ''h'' \<rparr>]"
  have valid: "filter validMessage ?items = [\<lparr> it_body = Some (message_body 1 sample_uuid_text), it_handle = Some ''h'' \<rparr>]"
    using message_body_valid(1) [OF sample_uuid_text_valid, of "''h''"] by (simp add: validMessage_def [of "\<lparr> it_body = None, it_handle = x \<rparr>" for x])
  obtain b where b: "Receive (\<lambda>_. Some ?items) ''q'' = Some b" by (simp add: Receive_def BatchSize_def)
  obtain ok entries where "Acknowledge (\<lambda>_ entries. Some (0, length entries)) ''q'' b = Some (ok, entries)"
    "map (Some \<circ> snd) entries = map it_handle (filter validMessage ?items)" "ok"
    using Receive_Acknowledge [OF b, of "\<lambda>_ entries. Some (0, length entries)"] by auto
  with b show ?thesis unfolding valid by auto
qed

end
