(* ===== verification/Go_Http.thy ===== *)
theory Go_Http
  imports Delivery
begin

text \<open>
  The server side of \<open>net/http\<close> as the handlers of the relay use it: the request that a handler
  reads, the bounded readers for its body, and the method and path patterns of \<open>ServeMux\<close>.

  A path is the list of its segments, each already unescaped; it is clean, as \<open>ServeMux\<close> redirects
  every other path before a handler sees it.  Header names are in their canonical form.
\<close>

text \<open>
  A \<open>url.URL\<close>, as far as the program reads it; \<open>ul_user\<close> says whether there is user information.  The
  definitions take \<open>url.Parse\<close> as an argument, \<open>None\<close> where it fails.
\<close>

record url =
  ul_scheme :: string
  ul_user :: bool
  ul_host :: string
  ul_path :: string
  ul_raw_path :: string
  ul_query :: string
  ul_fragment :: string

record request =
  hr_method :: string
  hr_path :: "string list"
  hr_query :: string
  hr_headers :: "(string \<times> string) list"
  hr_body :: bytes
  hr_broken :: bool

definition header_values :: "string \<Rightarrow> request \<Rightarrow> string list" where
  "header_values name r = map snd (filter (\<lambda>(n, _). n = name) (hr_headers r))"

text \<open>\<open>Header.Get\<close>: the first value, or the empty string.\<close>

definition header_get :: "string \<Rightarrow> request \<Rightarrow> string" where
  "header_get name r = (case header_values name r of [] \<Rightarrow> [] | v # _ \<Rightarrow> v)"

definition url_path :: "request \<Rightarrow> string" where
  "url_path r = concat (map (\<lambda>s. ''/'' @ s) (hr_path r))"

text \<open>\<open>io.ReadAll\<close> behind a \<open>MaxBytesReader\<close>: \<open>hr_broken\<close> is a failure before the end of the body.\<close>

definition read_max :: "nat \<Rightarrow> request \<Rightarrow> bytes option" where
  "read_max n r = (if hr_broken r \<or> length (hr_body r) > n then None else Some (hr_body r))"

section \<open>Patterns\<close>

datatype segment = Lit string | Wild string

fun match_path :: "segment list \<Rightarrow> string list \<Rightarrow> (string \<times> string) list option" where
  "match_path [] [] = Some []"
| "match_path (Lit l # ps) (s # ss) = (if s = l then match_path ps ss else None)"
| "match_path (Wild n # ps) (s # ss) =
     (if s = [] then None else map_option ((#) (n, s)) (match_path ps ss))"
| "match_path _ _ = None"

definition match_method :: "string \<Rightarrow> string \<Rightarrow> bool" where
  "match_method pattern m \<longleftrightarrow> m = pattern \<or> (pattern = ''GET'' \<and> m = ''HEAD'')"

text \<open>
  A multiplexer of patterns no two of which match the same request: the handler of the matching
  pattern with the values of its wildcards, or the status with which \<open>ServeMux\<close> answers itself.
\<close>

fun serve_mux :: "(string \<times> segment list \<times> 'h) list \<Rightarrow> request \<Rightarrow> nat + 'h \<times> (string \<times> string) list" where
  "serve_mux [] r = Inl 404"
| "serve_mux ((m, ps, h) # rs) r =
     (case match_path ps (hr_path r) of
        None \<Rightarrow> serve_mux rs r
      | Some values \<Rightarrow>
          if match_method m (hr_method r) then Inr (h, values)
          else (case serve_mux rs r of Inl _ \<Rightarrow> Inl 405 | Inr x \<Rightarrow> Inr x))"

definition path_value :: "string \<Rightarrow> (string \<times> string) list \<Rightarrow> string" where
  "path_value name values = (case map_of values name of None \<Rightarrow> [] | Some v \<Rightarrow> v)"

lemma serve_mux_Inr: "serve_mux rs r = Inr (h, values) \<Longrightarrow> \<exists>m ps. (m, ps, h) \<in> set rs \<and>
    match_method m (hr_method r) \<and> match_path ps (hr_path r) = Some values"
proof (induction rs r rule: serve_mux.induct)
  case (2 m ps h' rs r)
  show ?case
  proof (cases "match_path ps (hr_path r)")
    case None
    with 2 show ?thesis by (auto 0 3)
  next
    case (Some vs)
    show ?thesis
    proof (cases "match_method m (hr_method r)")
      case True
      with Some 2(3) show ?thesis by auto
    next
      case False
      with Some 2(3) have "serve_mux rs r = Inr (h, values)" by (auto split: sum.splits)
      from 2(2) [OF Some False this] show ?thesis by auto
    qed
  qed
qed simp

lemma match_path_Some [simp]:
  "match_path [] ss = Some vs \<longleftrightarrow> ss = [] \<and> vs = []"
  "match_path (Lit l # ps) ss = Some vs \<longleftrightarrow> (\<exists>t. ss = l # t \<and> match_path ps t = Some vs)"
  "match_path (Wild n # ps) ss = Some vs \<longleftrightarrow>
     (\<exists>s t ws. ss = s # t \<and> s \<noteq> [] \<and> match_path ps t = Some ws \<and> vs = (n, s) # ws)"
  by (cases ss; auto)+

lemma serve_mux_Inl: "serve_mux rs r = Inl status \<Longrightarrow> status = 404 \<or> status = 405"
  by (induction rs r rule: serve_mux.induct) (auto split: option.splits if_splits sum.splits)

end
