(* ===== verification/Event_Api.thy ===== *)
theory Event_Api
  imports Go_Http Go_Json Pg_Store
begin

text \<open>
  The operator's HTTP API of \<open>internal/httpapi/api.go\<close> over the interface \<open>event.Store\<close>: signed receipt
  of events, the three views, the endpoint description and the replay.  A handler takes the
  request, the wildcards of its pattern and the state of the store, and returns its response and
  the state; \<open>now\<close> is the clock and \<open>random\<close> the randomness of the one call that uses it.

  A response is its status and the value that \<open>write_json\<close> hands to the encoder; the constructors of
  \<open>reply\<close> are those values.  A response of the multiplexer itself has no such value.
\<close>

section \<open>The interface to the store\<close>

record 's event_store =
  es_accept :: "receipt \<Rightarrow> 's \<Rightarrow> (store_error + accepted) \<times> 's"
  es_replay :: "string \<Rightarrow> string \<Rightarrow> 's \<Rightarrow> (store_error + unit) \<times> 's"
  es_overview :: "string \<Rightarrow> 's \<Rightarrow> store_error + overview"
  es_list :: "string \<Rightarrow> string \<Rightarrow> 16 word \<Rightarrow> 's \<Rightarrow> store_error + summary list"
  es_detail :: "string \<Rightarrow> string \<Rightarrow> 's \<Rightarrow> store_error + detail"

section \<open>The API\<close>

definition maximum_body_bytes :: nat where
  "maximum_body_bytes = 256 * 1024"

definition timestamp_window :: duration where
  "timestamp_window = 5 * minute"

record api =
  ap_source :: string
  ap_ingress :: bytes
  ap_dest :: string
  ap_token :: bytes

definition New :: "bool \<Rightarrow> string \<Rightarrow> bytes \<Rightarrow> string \<Rightarrow> bytes \<Rightarrow> api option" where
  "New store_present source_key ingress_secret destination_url operator_token =
     (if \<not> store_present then None
      else if source_key = [] then None
      else if length ingress_secret < 16 then None
      else if length operator_token < 16 then None
      else Some \<lparr> ap_source = source_key, ap_ingress = ingress_secret, ap_dest = destination_url,
                  ap_token = operator_token \<rparr>)"

datatype reply =
    Error_Reply string string
  | Accepted_Reply string bool
  | Overview_Reply overview
  | Events_Reply "summary list"
  | Detail_Reply detail
  | Endpoint_Reply string string bool
  | Replay_Reply string
  | Mux_Reply

type_synonym response = "nat \<times> reply"

definition authorized :: "api \<Rightarrow> string \<Rightarrow> bool" where
  "authorized a value =
     (let prefix = ''Bearer '' in
      if length value \<le> length prefix \<or> take (length prefix) value \<noteq> prefix then False
      else sha256 (bytes_of (drop (length prefix) value)) = sha256 (ap_token a))"

definition valid_timestamp :: "time \<Rightarrow> string \<Rightarrow> string option" where
  "valid_timestamp now raw =
     (case parse_int64 raw of
        None \<Rightarrow> None
      | Some seconds \<Rightarrow>
          let difference = time_sub now (from_unix seconds)
          in if difference < - timestamp_window then None
             else if difference > timestamp_window then None
             else Some raw)"

definition read_body :: "request \<Rightarrow> response + bytes" where
  "read_body r =
     (if header_get ''Content-Type'' r \<noteq> ''application/json''
      then Inl (415, Error_Reply ''unsupported_media_type'' ''Content type must be application/json.'')
      else (case read_max maximum_body_bytes r of
              None \<Rightarrow> Inl (413, Error_Reply ''payload_too_large'' ''Request body is too large.'')
            | Some body \<Rightarrow>
                if length body = 0 \<or> \<not> json_Valid body
                then Inl (400, Error_Reply ''invalid_request'' ''Request body must be valid JSON.'')
                else Inr body))"

definition valid_state :: "string \<Rightarrow> bool" where
  "valid_state value =
     list_ex (\<lambda>state. value = state)
       [''pending'', ''delivering'', ''delivered'', ''retry_scheduled'', ''dead_lettered'']"

definition valid_event_id :: "string \<Rightarrow> bool" where
  "valid_event_id value =
     (if length value < 1 \<or> length value > 128 then False
      else list_all (\<lambda>c. \<not> ((of_char c :: nat) < 0x20 \<or> (of_char c :: nat) > 0x7e)) value)"

definition invalid_signature :: response where
  "invalid_signature = (401, Error_Reply ''invalid_signature'' ''Request authentication failed.'')"

definition receipt_unavailable :: response where
  "receipt_unavailable = (503, Error_Reply ''receipt_unavailable'' ''Event receipt is unavailable.'')"

definition invalid_event_id :: response where
  "invalid_event_id = (400, Error_Reply ''invalid_request'' ''Event identifier is invalid.'')"

definition event_not_found :: response where
  "event_not_found = (404, Error_Reply ''event_not_found'' ''Event was not found.'')"

definition unauthorized :: response where
  "unauthorized = (401, Error_Reply ''unauthorized'' ''Authorization is required.'')"

definition accept :: "'s event_store \<Rightarrow> api \<Rightarrow> bytes option \<Rightarrow> string \<Rightarrow> bytes \<Rightarrow> 's \<Rightarrow> response \<times> 's" where
  "accept store a random external_id body s =
     (case NewUUID random of
        None \<Rightarrow> (receipt_unavailable, s)
      | Some i \<Rightarrow>
          (case es_accept store \<lparr> rc_id = i, rc_source = ap_source a, rc_external = external_id,
                  rc_body = body, rc_sha = sha256 body, rc_dest = ap_dest a \<rparr> s of
             (Inl Conflict_Error, s') \<Rightarrow>
               ((409, Error_Reply ''idempotency_conflict'' ''Event identifier conflicts with an existing event.''), s')
           | (Inl _, s') \<Rightarrow> (receipt_unavailable, s')
           | (Inr accepted, s') \<Rightarrow> ((202, Accepted_Reply (ac_id accepted) (ac_duplicate accepted)), s')))"

text \<open>\<open>Valid\<close> is the check of \<open>Signature\<close>; its panic is proved there never to happen.\<close>

definition events_post ::
  "'s event_store \<Rightarrow> api \<Rightarrow> time \<Rightarrow> bytes option \<Rightarrow> request \<Rightarrow> (string \<times> string) list \<Rightarrow> 's \<Rightarrow> response \<times> 's" where
  "events_post store a now random r values s =
     (if path_value ''source_key'' values \<noteq> ap_source a then (invalid_signature, s)
      else case read_body r of
        Inl response \<Rightarrow> (response, s)
      | Inr body \<Rightarrow>
          (case valid_timestamp now (header_get ''X-Relay-Timestamp'' r) of
             None \<Rightarrow> ((400, Error_Reply ''invalid_request'' ''Request timestamp is invalid.''), s)
           | Some timestamp \<Rightarrow>
               if Valid (ap_ingress a) timestamp body (header_get ''X-Relay-Signature'' r) \<noteq> Some True
               then (invalid_signature, s)
               else
                 let external_id = header_get ''X-Relay-Event-Id'' r
                 in if \<not> valid_event_id external_id then (invalid_event_id, s)
                    else if ap_dest a = [] then (receipt_unavailable, s)
                    else accept store a random external_id body s))"

definition require_authorization :: "api \<Rightarrow> request \<Rightarrow> bool" where
  "require_authorization a r = authorized a (header_get ''Authorization'' r)"

definition overview_get :: "'s event_store \<Rightarrow> api \<Rightarrow> request \<Rightarrow> 's \<Rightarrow> response" where
  "overview_get store a r s =
     (if \<not> require_authorization a r then unauthorized
      else case es_overview store (ap_source a) s of
        Inl _ \<Rightarrow> (503, Error_Reply ''read_unavailable'' ''Overview is unavailable.'')
      | Inr overview \<Rightarrow> (200, Overview_Reply overview))"

text \<open>\<open>state\<close> is what \<open>URL.Query().Get\<close> finds in the query.\<close>

definition events_get :: "'s event_store \<Rightarrow> api \<Rightarrow> request \<Rightarrow> string \<Rightarrow> 's \<Rightarrow> response" where
  "events_get store a r state s =
     (if \<not> require_authorization a r then unauthorized
      else if state \<noteq> [] \<and> \<not> valid_state state
      then (400, Error_Reply ''invalid_request'' ''Event state is invalid.'')
      else case es_list store (ap_source a) state 50 s of
        Inl _ \<Rightarrow> (503, Error_Reply ''read_unavailable'' ''Events are unavailable.'')
      | Inr summaries \<Rightarrow> (200, Events_Reply summaries))"

definition event_get :: "'s event_store \<Rightarrow> api \<Rightarrow> request \<Rightarrow> (string \<times> string) list \<Rightarrow> 's \<Rightarrow> response" where
  "event_get store a r values s =
     (if \<not> require_authorization a r then unauthorized
      else let event_id = path_value ''event_id'' values
           in if \<not> ValidUUID event_id then invalid_event_id
              else case es_detail store event_id (ap_source a) s of
                     Inr detail \<Rightarrow> (200, Detail_Reply detail)
                   | Inl Not_Found_Error \<Rightarrow> event_not_found
                   | Inl _ \<Rightarrow> (503, Error_Reply ''read_unavailable'' ''Event is unavailable.''))"

definition endpoint_get :: "api \<Rightarrow> request \<Rightarrow> response" where
  "endpoint_get a r =
     (if \<not> require_authorization a r then unauthorized
      else (200, Endpoint_Reply (ap_source a) (ap_dest a) (ap_dest a \<noteq> [])))"

definition events_replay_post ::
  "'s event_store \<Rightarrow> api \<Rightarrow> request \<Rightarrow> (string \<times> string) list \<Rightarrow> 's \<Rightarrow> response \<times> 's" where
  "events_replay_post store a r values s =
     (if \<not> authorized a (header_get ''Authorization'' r) then (unauthorized, s)
      else let event_id = path_value ''event_id'' values
           in if \<not> ValidUUID event_id then (invalid_event_id, s)
              else case es_replay store event_id (ap_source a) s of
                     (Inr _, s') \<Rightarrow> ((202, Replay_Reply event_id), s')
                   | (Inl Not_Found_Error, s') \<Rightarrow> (event_not_found, s')
                   | (Inl Invalid_State_Error, s') \<Rightarrow>
                       ((409, Error_Reply ''invalid_event_state'' ''Event cannot be replayed.''), s')
                   | (Inl _, s') \<Rightarrow> ((503, Error_Reply ''replay_unavailable'' ''Replay is unavailable.''), s'))"

section \<open>The routes\<close>

datatype route = Events_Post | Overview_Get | Events_Get | Event_Get | Events_Replay_Post | Endpoint_Get

definition routes :: "(string \<times> segment list \<times> route) list" where
  "routes =
     [(''POST'', [Lit ''v1'', Lit ''sources'', Wild ''source_key'', Lit ''events''], Events_Post),
      (''GET'', [Lit ''v1'', Lit ''overview''], Overview_Get),
      (''GET'', [Lit ''v1'', Lit ''events''], Events_Get),
      (''GET'', [Lit ''v1'', Lit ''events'', Wild ''event_id''], Event_Get),
      (''POST'', [Lit ''v1'', Lit ''events'', Wild ''event_id'', Lit ''replay''], Events_Replay_Post),
      (''GET'', [Lit ''v1'', Lit ''endpoint''], Endpoint_Get)]"

text \<open>\<open>query_state\<close> is \<open>URL.Query().Get(\"state\")\<close> on the raw query.\<close>

definition Handler ::
  "'s event_store \<Rightarrow> (string \<Rightarrow> string) \<Rightarrow> api \<Rightarrow> time \<Rightarrow> bytes option \<Rightarrow> request \<Rightarrow> 's \<Rightarrow> response \<times> 's" where
  "Handler store query_state a now random r s =
     (case serve_mux routes r of
        Inl status \<Rightarrow> ((status, Mux_Reply), s)
      | Inr (Events_Post, values) \<Rightarrow> events_post store a now random r values s
      | Inr (Overview_Get, _) \<Rightarrow> (overview_get store a r s, s)
      | Inr (Events_Get, _) \<Rightarrow> (events_get store a r (query_state (hr_query r)) s, s)
      | Inr (Event_Get, values) \<Rightarrow> (event_get store a r values s, s)
      | Inr (Events_Replay_Post, values) \<Rightarrow> events_replay_post store a r values s
      | Inr (Endpoint_Get, _) \<Rightarrow> (endpoint_get a r, s))"

section \<open>What the store promises\<close>

text \<open>
  \<open>stored s k\<close> is the identifier and the body digest of the event with key \<open>k\<close>, source and external
  identifier.
\<close>

locale accepting_store =
  fixes store_accept :: "receipt \<Rightarrow> 's \<Rightarrow> (store_error + accepted) \<times> 's"
    and inv :: "'s \<Rightarrow> bool"
    and stored :: "'s \<Rightarrow> string \<times> string \<Rightarrow> (string \<times> bytes) option"
  assumes accept_inv: "inv s \<Longrightarrow> store_accept receipt s = (r, s') \<Longrightarrow> inv s'"
    and accept_done: "inv s \<Longrightarrow> store_accept receipt s = (Inr a, s') \<Longrightarrow>
      stored s' (rc_source receipt, rc_external receipt) = Some (ac_id a, rc_sha receipt)"
    and accept_conflict: "inv s \<Longrightarrow> store_accept receipt s = (Inl Conflict_Error, s') \<Longrightarrow>
      \<exists>i sha. stored s' (rc_source receipt, rc_external receipt) = Some (i, sha) \<and> sha \<noteq> rc_sha receipt"
    and accept_others: "inv s \<Longrightarrow> store_accept receipt s = (r, s') \<Longrightarrow>
      k \<noteq> (rc_source receipt, rc_external receipt) \<or> stored s k \<noteq> None \<Longrightarrow> stored s' k = stored s k"
begin

lemma accept_outcome:
  assumes "inv s" and "es_accept store = store_accept" and "accept store a random external_id body s = ((status, reply), s')"
  shows "inv s' \<and>
    (status = 202 \<longrightarrow> (\<exists>i dup. reply = Accepted_Reply i dup \<and> stored s' (ap_source a, external_id) = Some (i, sha256 body))) \<and>
    (status = 409 \<longrightarrow> (\<exists>i sha. stored s' (ap_source a, external_id) = Some (i, sha) \<and> sha \<noteq> sha256 body)) \<and>
    status \<in> {202, 409, 503} \<and>
    (\<forall>k. k \<noteq> (ap_source a, external_id) \<or> stored s k \<noteq> None \<longrightarrow> stored s' k = stored s k)"
proof (cases "NewUUID random")
  case None
  with assms show ?thesis by (auto simp: accept_def receipt_unavailable_def)
next
  case (Some i)
  define receipt where "receipt = \<lparr> rc_id = i, rc_source = ap_source a, rc_external = external_id,
    rc_body = body, rc_sha = sha256 body, rc_dest = ap_dest a \<rparr>"
  obtain res s1 where res: "store_accept receipt s = (res, s1)" by fastforce
  have [simp]: "rc_source receipt = ap_source a" "rc_external receipt = external_id" "rc_sha receipt = sha256 body"
    by (simp_all add: receipt_def)
  have keeps: "inv s1" "\<forall>k. k \<noteq> (ap_source a, external_id) \<or> stored s k \<noteq> None \<longrightarrow> stored s1 k = stored s k"
    using accept_inv [OF assms(1) res] accept_others [OF assms(1) res] by auto
  show ?thesis
  proof (cases res)
    case (Inr acc)
    with Some res assms(2,3) have out: "s' = s1" "status = 202" "reply = Accepted_Reply (ac_id acc) (ac_duplicate acc)"
      by (simp_all add: accept_def receipt_def)
    with keeps accept_done [OF assms(1) res [unfolded Inr]] show ?thesis by auto
  next
    case (Inl e)
    show ?thesis
    proof (cases "e = Conflict_Error")
      case True
      with Some res assms(2,3) Inl have "s' = s1" "status = 409"
        by (simp_all add: accept_def receipt_def)
      with keeps accept_conflict [OF assms(1) res [unfolded Inl True]] show ?thesis by auto
    next
      case False
      with Some res assms(2,3) Inl have "s' = s1" "status = 503"
        by (auto simp: accept_def receipt_def receipt_unavailable_def split: store_error.splits)
      with keeps show ?thesis by auto
    qed
  qed
qed

end

text \<open>
  What authenticates a receipt: the source's path, a bounded JSON body, a timestamp within five
  minutes of the clock, and a signature over exactly this timestamp and body.
\<close>

definition authentic :: "api \<Rightarrow> time \<Rightarrow> request \<Rightarrow> (string \<times> string) list \<Rightarrow> bool" where
  "authentic a now r values \<longleftrightarrow>
     path_value ''source_key'' values = ap_source a \<and> \<not> hr_broken r \<and>
     hr_body r \<noteq> [] \<and> length (hr_body r) \<le> 262144 \<and> json_Valid (hr_body r) \<and>
     header_get ''Content-Type'' r = ''application/json'' \<and>
     (\<exists>seconds. parse_int64 (header_get ''X-Relay-Timestamp'' r) = Some seconds \<and>
        \<bar>now - from_unix seconds\<bar> \<le> 300 * second) \<and>
     Valid (ap_ingress a) (header_get ''X-Relay-Timestamp'' r) (hr_body r) (header_get ''X-Relay-Signature'' r) = Some True"

lemma valid_timestamp_iff:
  "valid_timestamp now raw = Some t \<longleftrightarrow>
     t = raw \<and> (\<exists>seconds. parse_int64 raw = Some seconds \<and> \<bar>now - from_unix seconds\<bar> \<le> 300 * second)"
  using time_sub_less [of "- timestamp_window" now] time_sub_greater [of timestamp_window now]
  by (auto simp: valid_timestamp_def timestamp_window_def min_duration_def max_duration_def duration_defs Let_def
      split: option.splits)

lemma read_body_iff:
  "read_body r = Inr body \<longleftrightarrow>
     body = hr_body r \<and> \<not> hr_broken r \<and> body \<noteq> [] \<and> length body \<le> 262144 \<and> json_Valid body \<and>
     header_get ''Content-Type'' r = ''application/json''"
  by (auto simp: read_body_def read_max_def maximum_body_bytes_def)

lemma events_post_authentic:
  assumes "authentic a now r values" and "valid_event_id (header_get ''X-Relay-Event-Id'' r)" and "ap_dest a \<noteq> []"
  shows "events_post store a now random r values s = accept store a random (header_get ''X-Relay-Event-Id'' r) (hr_body r) s"
proof -
  have "read_body r = Inr (hr_body r)"
    "valid_timestamp now (header_get ''X-Relay-Timestamp'' r) = Some (header_get ''X-Relay-Timestamp'' r)"
    using assms(1) by (auto simp: read_body_iff valid_timestamp_iff authentic_def)
  with assms show ?thesis by (simp add: events_post_def authentic_def Let_def)
qed

lemma events_post_cases:
  assumes "events_post store a now random r values s = ((status, reply), s')"
  obtains
    (refused) "s' = s" and "status \<in> {400, 401, 413, 415, 503}" and "\<exists>code text. reply = Error_Reply code text"
  | (accepted) "authentic a now r values" and "valid_event_id (header_get ''X-Relay-Event-Id'' r)" and "ap_dest a \<noteq> []"
      and "accept store a random (header_get ''X-Relay-Event-Id'' r) (hr_body r) s = ((status, reply), s')"
proof -
  let ?ok = "authentic a now r values \<and> valid_event_id (header_get ''X-Relay-Event-Id'' r) \<and> ap_dest a \<noteq> []"
  show thesis
  proof (cases ?ok)
    case True
    with assms show thesis by (intro accepted) (simp_all add: events_post_authentic)
  next
    case False
    have "s' = s \<and> status \<in> {400, 401, 413, 415, 503} \<and> (\<exists>code text. reply = Error_Reply code text)"
    proof (cases "read_body r")
      case (Inl response)
      with assms show ?thesis
        by (auto simp: events_post_def invalid_signature_def read_body_def split: if_splits option.splits)
    next
      case (Inr body)
      then have body: "body = hr_body r" "authentic a now r values \<longleftrightarrow> path_value ''source_key'' values = ap_source a \<and>
          valid_timestamp now (header_get ''X-Relay-Timestamp'' r) = Some (header_get ''X-Relay-Timestamp'' r) \<and>
          Valid (ap_ingress a) (header_get ''X-Relay-Timestamp'' r) (hr_body r) (header_get ''X-Relay-Signature'' r) = Some True"
        by (auto simp: authentic_def read_body_iff valid_timestamp_iff)
      have stamp: "t = header_get ''X-Relay-Timestamp'' r" if "valid_timestamp now (header_get ''X-Relay-Timestamp'' r) = Some t" for t
        using that by (simp add: valid_timestamp_iff)
      from False assms show ?thesis
        by (auto simp: events_post_def Inr body Let_def invalid_signature_def
            invalid_event_id_def receipt_unavailable_def split: if_splits option.splits dest: stamp)
    qed
    then show thesis by (intro refused) auto
  qed
qed

section \<open>The PostgreSQL store behind the interface\<close>

text \<open>
  The methods of the store with the answers of its connection, its clock and its publisher fixed.
  \<open>Accept\<close>, \<open>Replay\<close> and \<open>Detail\<close> read, after their first statement, the database that it left.
\<close>

definition pg_accept ::
  "(nat \<Rightarrow> net) \<Rightarrow> (nat \<Rightarrow> time) \<Rightarrow> (string \<Rightarrow> bool) option \<Rightarrow> receipt \<Rightarrow> db \<Rightarrow> (store_error + accepted) \<times> db" where
  "pg_accept nets clock publisher receipt d =
     (let (r, d', _) = Accept nets clock d publisher receipt d in (r, d'))"

definition pg_replay ::
  "(nat \<Rightarrow> net) \<Rightarrow> time \<Rightarrow> (string \<Rightarrow> bool) option \<Rightarrow> string \<Rightarrow> string \<Rightarrow> db \<Rightarrow> (store_error + unit) \<times> db" where
  "pg_replay nets now publisher event_id source_key d =
     (let (r, d', _) = Replay nets now d publisher event_id source_key d in (r, d'))"

definition pg_event_store ::
  "(nat \<Rightarrow> net) \<Rightarrow> (nat \<Rightarrow> time) \<Rightarrow> (string \<Rightarrow> bool) option \<Rightarrow> db event_store" where
  "pg_event_store nets clock publisher =
     \<lparr> es_accept = pg_accept nets clock publisher,
       es_replay = pg_replay nets (clock 0) publisher,
       es_overview = (\<lambda>source_key d. Overview (nets 0) source_key d),
       es_list = (\<lambda>source_key state limit d. List_events (nets 0) source_key state limit d),
       es_detail = (\<lambda>event_id source_key d. Detail nets d event_id source_key d) \<rparr>"

definition stored_event :: "db \<Rightarrow> string \<times> string \<Rightarrow> (string \<times> bytes) option" where
  "stored_event d k = map_option (\<lambda>e. (ev_id e, ev_sha e)) (find_key k d)"

lemma find_append: "List.find p (xs @ ys) = (case List.find p xs of Some x \<Rightarrow> Some x | None \<Rightarrow> List.find p ys)"
  by (induction xs) auto

lemma find_key_append:
  "find_key k (d\<lparr>events := events d @ [e]\<rparr>) =
     (case find_key k d of Some x \<Rightarrow> Some x | None \<Rightarrow> if event_key e = k then Some e else None)"
  by (auto simp: find_key_def find_append split: option.splits)

lemma pg_accept_cases:
  assumes "schema_ok d" and "pg_accept nets clock publisher receipt d = (r, d')"
  obtains
    (failed) "d' = d" and "\<exists>e. r = Inl (Db_Failed e)"
  | (existing) e where "d' = d" and "find_key (rc_source receipt, rc_external receipt) d = Some e"
      and "r = Inl (Db_Failed Unavailable) \<or>
        r = (if ev_sha e \<noteq> rc_sha receipt then Inl Conflict_Error else Inr \<lparr> ac_id = ev_id e, ac_duplicate = True \<rparr>)"
  | (added) "d' = d\<lparr>events := events d @ [receipt_row clock receipt]\<rparr>" and "schema_ok d'"
      and "find_key (rc_source receipt, rc_external receipt) d = None"
      and "r = Inr \<lparr> ac_id = rc_id receipt, ac_duplicate = False \<rparr> \<or> r = Inl (Db_Failed Unavailable)"
proof -
  obtain pubs where run: "Accept nets clock d publisher receipt d = (r, d', pubs)"
    using assms(2) by (auto simp: pg_accept_def split: prod.splits)
  then show thesis
  proof (cases rule: Accept_cases)
    case unchanged
    then show thesis by (intro failed)
  next
    case existing
    then obtain e where e: "find_key (rc_source receipt, rc_external receipt) d = Some e"
      by (cases "find_key (rc_source receipt, rc_external receipt) d") (auto simp: find_key_None)
    with existing have "r = Inl (Db_Failed Unavailable) \<or>
        r = (if ev_sha e \<noteq> rc_sha receipt then Inl Conflict_Error else Inr \<lparr> ac_id = ev_id e, ac_duplicate = True \<rparr>)"
      by (cases "nets 1") (simp_all add: accept_existing_def query_def)
    with existing e show thesis by (intro that(2))
  next
    case stored
    then have "(rc_source receipt, rc_external receipt) \<notin> event_key ` set (events d)"
      by (auto simp: schema_defs)
    with stored show thesis by (intro added) (auto simp: find_key_None)
  qed
qed

interpretation pg_receipts: accepting_store "pg_accept nets clock publisher" schema_ok stored_event
  for nets clock publisher
proof
  fix receipt s r s'
  assume s: "schema_ok s" and run: "pg_accept nets clock publisher receipt s = (r, s')"
  from s run show "schema_ok s'" by (cases rule: pg_accept_cases) (use s in auto)
  from s run show "k \<noteq> (rc_source receipt, rc_external receipt) \<or> stored_event s k \<noteq> None \<Longrightarrow>
      stored_event s' k = stored_event s k" for k
    by (cases rule: pg_accept_cases) (auto simp: stored_event_def find_key_append split: option.splits)
next
  fix receipt s a s'
  assume s: "schema_ok s" and run: "pg_accept nets clock publisher receipt s = (Inr a, s')"
  from s run show "stored_event s' (rc_source receipt, rc_external receipt) = Some (ac_id a, rc_sha receipt)"
    by (cases rule: pg_accept_cases) (auto simp: stored_event_def find_key_append split: if_splits)
next
  fix receipt s s'
  assume s: "schema_ok s" and run: "pg_accept nets clock publisher receipt s = (Inl Conflict_Error, s')"
  from s run show "\<exists>i sha. stored_event s' (rc_source receipt, rc_external receipt) = Some (i, sha) \<and> sha \<noteq> rc_sha receipt"
    by (cases rule: pg_accept_cases) (auto simp: stored_event_def split: if_splits)
qed

section \<open>What the API guarantees\<close>

lemma authorized_token:
  assumes "authorized a credentials"
  shows "\<exists>token. credentials = ''Bearer '' @ token \<and> token \<noteq> [] \<and> sha256 (bytes_of token) = sha256 (ap_token a)"
proof -
  have len: "length ''Bearer '' = 7" by simp
  from assms have "take 7 credentials = ''Bearer ''" "7 < length credentials"
    "sha256 (bytes_of (drop 7 credentials)) = sha256 (ap_token a)"
    unfolding authorized_def Let_def len by (auto split: if_splits)
  then show ?thesis by (metis append_take_drop_id drop_eq_Nil not_less)
qed

lemma Handler_credentials:
  assumes "Handler store query_state a now random r s = ((status, reply), s')"
    and "s' \<noteq> s \<or> status = 200 \<or> status = 202"
  shows "(\<exists>token. header_get ''Authorization'' r = ''Bearer '' @ token \<and> token \<noteq> [] \<and>
      sha256 (bytes_of token) = sha256 (ap_token a)) \<or>
    (hr_method r = ''POST'' \<and> hr_path r = [''v1'', ''sources'', ap_source a, ''events''] \<and>
     authentic a now r [(''source_key'', ap_source a)])"
proof (cases "serve_mux routes r")
    case (Inr p)
    obtain h vs where p: "p = (h, vs)" by fastforce
    show ?thesis
    proof (cases "h = Events_Post")
      case True
      with Inr p assms(1) have post: "events_post store a now random r vs s = ((status, reply), s')"
        by (simp add: Handler_def)
      from serve_mux_Inr [OF Inr [unfolded p]] True obtain m ps where mp:
        "(m, ps, Events_Post) \<in> set routes" "match_method m (hr_method r)" "match_path ps (hr_path r) = Some vs"
        by blast
      from mp(1) have "m = ''POST''" "ps = [Lit ''v1'', Lit ''sources'', Wild ''source_key'', Lit ''events'']"
        by (simp_all add: routes_def)
      with mp(2,3) obtain x where
        route: "hr_method r = ''POST''" "hr_path r = [''v1'', ''sources'', x, ''events'']" "vs = [(''source_key'', x)]"
        by (auto simp: match_method_def)
      from post have "authentic a now r vs"
        by (cases rule: events_post_cases) (use assms(2) in auto)
      moreover from this have "x = ap_source a" by (simp add: authentic_def path_value_def route(3))
      ultimately show ?thesis using route by auto
    next
      case False
      with Inr p assms have "authorized a (header_get ''Authorization'' r)"
        by (cases h) (auto simp: Handler_def overview_get_def events_get_def event_get_def endpoint_get_def
            events_replay_post_def require_authorization_def unauthorized_def split: if_splits)
      from authorized_token [OF this] show ?thesis by blast
    qed
  next
    case (Inl n)
    with assms serve_mux_Inl [OF Inl] show ?thesis by (auto simp: Handler_def)
qed

text \<open>What changes the store: a receipt with a fresh signature, or a replay with the operator's token.\<close>

lemma Handler_changes:
  assumes "Handler store query_state a now random r s = (response, s')" and "s' \<noteq> s"
  shows "hr_method r = ''POST'' \<and>
    ((\<exists>i token. hr_path r = [''v1'', ''events'', i, ''replay''] \<and> header_get ''Authorization'' r = ''Bearer '' @ token \<and> token \<noteq> [] \<and>
        sha256 (bytes_of token) = sha256 (ap_token a)) \<or>
     (hr_path r = [''v1'', ''sources'', ap_source a, ''events''] \<and> authentic a now r [(''source_key'', ap_source a)]))"
proof (cases "serve_mux routes r")
  case (Inr p)
  obtain h vs where p: "p = (h, vs)" by fastforce
  from serve_mux_Inr [OF Inr [unfolded p]] obtain m ps where
    mp: "(m, ps, h) \<in> set routes" "match_method m (hr_method r)" "match_path ps (hr_path r) = Some vs" by blast
  have "h = Events_Post \<or> h = Events_Replay_Post"
    using Inr p assms by (cases h) (auto simp: Handler_def)
  then show ?thesis
  proof
    assume h: "h = Events_Post"
    with mp obtain x where route: "hr_method r = ''POST''" "hr_path r = [''v1'', ''sources'', x, ''events'']" "vs = [(''source_key'', x)]"
      by (auto simp: routes_def match_method_def)
    obtain status reply where "events_post store a now random r vs s = ((status, reply), s')"
      using Inr p h assms(1) by (cases response) (simp add: Handler_def)
    then have "authentic a now r vs" by (cases rule: events_post_cases) (use assms(2) in auto)
    moreover from this have "x = ap_source a" by (simp add: authentic_def path_value_def route(3))
    ultimately show ?thesis using route by auto
  next
    assume h: "h = Events_Replay_Post"
    with mp obtain i where route: "hr_method r = ''POST''" "hr_path r = [''v1'', ''events'', i, ''replay'']"
      by (auto simp: routes_def match_method_def)
    have "authorized a (header_get ''Authorization'' r)"
      using Inr p h assms by (auto simp: Handler_def events_replay_post_def split: if_splits)
    from authorized_token [OF this] route show ?thesis by blast
  qed
qed (use assms in \<open>simp add: Handler_def\<close>)

text \<open>What a request does to the store: nothing, or one receipt or one replay under the configured source.\<close>

lemma Handler_state:
  assumes "Handler store query_state a now random r s = (response, s')"
  obtains (same) "s' = s"
  | (receipt) receipt where "rc_source receipt = ap_source a" and "s' = snd (es_accept store receipt s)"
  | (replay) i where "s' = snd (es_replay store i (ap_source a) s)"
proof -
  have accept: "snd (accept store a random external body s) = s \<or>
      (\<exists>receipt. rc_source receipt = ap_source a \<and> snd (accept store a random external body s) = snd (es_accept store receipt s))"
    for external body
  proof (cases "NewUUID random")
    case (Some i)
    let ?receipt = "\<lparr> rc_id = i, rc_source = ap_source a, rc_external = external,
                  rc_body = body, rc_sha = sha256 body, rc_dest = ap_dest a \<rparr>"
    have "snd (accept store a random external body s) = snd (es_accept store ?receipt s)"
      by (simp add: accept_def Some split: prod.split sum.split store_error.split)
    then show ?thesis by (intro disjI2 exI [of _ ?receipt]) simp
  qed (simp add: accept_def)
  have post: "snd (events_post store a now random r values s) = s \<or>
      (\<exists>receipt. rc_source receipt = ap_source a \<and> snd (events_post store a now random r values s) = snd (es_accept store receipt s))"
    for "values"
    using accept by (auto simp: events_post_def Let_def split: sum.split option.split)
  have replayed: "snd (events_replay_post store a r values s) = s \<or>
      snd (events_replay_post store a r values s) = snd (es_replay store (path_value ''event_id'' values) (ap_source a) s)" for "values"
    by (auto simp: events_replay_post_def Let_def split: prod.split sum.split store_error.split)
  have "s' = snd (Handler store query_state a now random r s)" by (simp add: assms)
  then have "s' = s \<or> (\<exists>receipt. rc_source receipt = ap_source a \<and> s' = snd (es_accept store receipt s)) \<or>
      (\<exists>i. s' = snd (es_replay store i (ap_source a) s))"
    using post replayed unfolding Handler_def by (fastforce split: sum.splits prod.splits route.splits)
  then show ?thesis using that by blast
qed

text \<open>
  The API changes nothing and discloses nothing without credentials.  A successful response, or
  any change of the database, needs either the operator's bearer token, or, on the path of the
  configured source, a fresh timestamp and a signature over exactly the body that was sent.
\<close>

theorem Handler_requires_credentials:
  assumes "Handler store query_state a now random r s = ((status, reply), s')"
    and "s' \<noteq> s \<or> status = 200 \<or> status = 202"
  shows "(\<exists>token. header_get ''Authorization'' r = ''Bearer '' @ token \<and> token \<noteq> [] \<and>
      sha256 (bytes_of token) = sha256 (ap_token a)) \<or>
    (hr_method r = ''POST'' \<and> hr_path r = [''v1'', ''sources'', ap_source a, ''events''] \<and>
     authentic a now r [(''source_key'', ap_source a)])"
  using assms by (rule Handler_credentials)

text \<open>
  C6: an acknowledged event is durable.  When the API answers a receipt with 202, the database holds the
  event it names under the source's key and the identifier that the client sent, with the digest of
  exactly the body that was sent; a first receipt has just been stored as a pending event with this
  body and the configured destination, a repeated one left the database alone.  No other outcome
  loses or changes an event.
\<close>

theorem events_post_durable:
  assumes "store_ok d"
    and "events_post (pg_event_store nets clock publisher) a now random r values d = ((status, reply), d')"
  shows "store_ok d' \<and> (\<exists>new. events d' = events d @ new \<and> length new \<le> 1) \<and>
    (status = 202 \<longrightarrow> (\<exists>e dup. reply = Accepted_Reply (ev_id e) dup \<and> e \<in> set (events d') \<and>
       ev_source e = ap_source a \<and> ev_external e = header_get ''X-Relay-Event-Id'' r \<and>
       ev_sha e = sha256 (hr_body r) \<and>
       (if dup then d' = d
        else ev_body e = hr_body r \<and> ev_dest e = ap_dest a \<and> ev_state e = Pending \<and> e \<notin> set (events d)))) \<and>
    (status = 409 \<longrightarrow> d' = d \<and> (\<exists>e \<in> set (events d). ev_source e = ap_source a \<and>
       ev_external e = header_get ''X-Relay-Event-Id'' r \<and> ev_sha e \<noteq> sha256 (hr_body r)))"
  using assms(2)
proof (cases rule: events_post_cases)
  case refused
  then have "status \<noteq> 202" "status \<noteq> 409" by auto
  with refused(1) assms(1) show ?thesis by simp
next
  case accepted
  have ok: "schema_ok d" using assms(1) by (simp add: store_ok_def)
  show ?thesis
  proof (cases "NewUUID random")
    case None
    with accepted(4) have "d' = d" "status = 503" by (simp_all add: accept_def receipt_unavailable_def)
    with assms(1) show ?thesis by simp
  next
    case (Some i)
    define receipt where "receipt = \<lparr> rc_id = i, rc_source = ap_source a, rc_external = header_get ''X-Relay-Event-Id'' r,
      rc_body = hr_body r, rc_sha = sha256 (hr_body r), rc_dest = ap_dest a \<rparr>"
    obtain res d1 where res: "pg_accept nets clock publisher receipt d = (res, d1)" by fastforce
    have d1: "store_ok d1"
      using res Accept_inv [OF assms(1)] by (auto simp: pg_accept_def split: prod.splits)
    have out: "d' = d1" "status = 202 \<longrightarrow> (\<exists>acc. res = Inr acc \<and> reply = Accepted_Reply (ac_id acc) (ac_duplicate acc))"
      "status = 409 \<longrightarrow> res = Inl Conflict_Error"
      using accepted(4) Some res
      by (auto simp: accept_def pg_event_store_def receipt_def receipt_unavailable_def
          split: sum.splits store_error.splits)
    have key: "e \<in> set (events d) \<and> ev_source e = ap_source a \<and> ev_external e = header_get ''X-Relay-Event-Id'' r"
      if "find_key (rc_source receipt, rc_external receipt) d = Some e" for e
      using that find_key_iff [OF ok] by (simp add: receipt_def event_key_def)
    from ok res show ?thesis
    proof (cases rule: pg_accept_cases)
      case failed
      with out(2,3) have "status \<noteq> 202" "status \<noteq> 409" by auto
      with failed(1) out(1) d1 show ?thesis by simp
    next
      case (existing e)
      have dup: "status = 202 \<longrightarrow> reply = Accepted_Reply (ev_id e) True \<and> ev_sha e = sha256 (hr_body r)"
        "status = 409 \<longrightarrow> ev_sha e \<noteq> sha256 (hr_body r)"
        using out(2,3) existing(3) by (auto simp: receipt_def split: if_splits)
      have "d' = d" using out(1) existing(1) by simp
      with dup key [OF existing(2)] assms(1) show ?thesis
        by (intro conjI impI exI [of _ "[]"] exI [of _ e] exI [of _ True] bexI [of _ e]) simp_all
    next
      case added
      have "rc_id receipt \<notin> ev_id ` set (events d)"
        using added(2) unfolding added(1) by (simp add: schema_defs)
      then have "receipt_row clock receipt \<notin> set (events d)" by (metis image_eqI receipt_row_simps(1))
      moreover have "status = 202 \<longrightarrow> reply = Accepted_Reply (rc_id receipt) False" "status \<noteq> 409"
        using out(2,3) added(4) by auto
      moreover have "ev_source (receipt_row clock receipt) = ap_source a" "ev_dest (receipt_row clock receipt) = ap_dest a"
        "ev_external (receipt_row clock receipt) = header_get ''X-Relay-Event-Id'' r"
        "ev_body (receipt_row clock receipt) = hr_body r" "ev_sha (receipt_row clock receipt) = sha256 (hr_body r)"
        by (simp_all add: receipt_row_def receipt_def)
      ultimately show ?thesis
        using added(1) out(1) d1
        by (intro conjI impI exI [of _ "[receipt_row clock receipt]"] exI [of _ "receipt_row clock receipt"] exI [of _ False])
          simp_all
    qed
  qed
qed

section \<open>The properties on concrete requests\<close>

definition sample_api :: api where
  "sample_api = \<lparr> ap_source = ''shop'', ap_ingress = replicate 16 1, ap_dest = ''https://example.com/'',
     ap_token = bytes_of ''0123456789abcdef'' \<rparr>"

definition sample_get :: request where
  "sample_get = \<lparr> hr_method = ''GET'', hr_path = [''v1'', ''endpoint''], hr_query = [],
     hr_headers = [(''Authorization'', ''Bearer 0123456789abcdef'')], hr_body = [], hr_broken = False \<rparr>"

definition sample_post :: request where
  "sample_post = \<lparr> hr_method = ''POST'', hr_path = [''v1'', ''sources'', ''shop'', ''events''], hr_query = [],
     hr_headers = [(''Content-Type'', ''application/json''), (''X-Relay-Timestamp'', ''0''),
       (''X-Relay-Signature'', Create (ap_ingress sample_api) ''0'' (bytes_of ''{}'')), (''X-Relay-Event-Id'', ''order-1'')],
     hr_body = bytes_of ''{}'', hr_broken = False \<rparr>"

lemma json_Valid_empty_object: "json_Valid (bytes_of ''{}'')"
proof -
  have "json_read ''{}'' = Some (J_Object [])"
    by (rule json_readI [of 1 _ _ "[]"]) (simp_all add: read_simps expect_def skip_space_def json_space_def maximum_nesting_def)
  then show ?thesis by (simp add: json_Valid_def)
qed

lemma sample_post_authentic: "authentic sample_api 0 sample_post [(''source_key'', ''shop'')]"
proof -
  have "Valid (ap_ingress sample_api) ''0'' (bytes_of ''{}'') (Create (ap_ingress sample_api) ''0'' (bytes_of ''{}'')) = Some True"
    unfolding Create_def Valid_prefixed by simp
  moreover have "parse_int64 ''0'' = Some 0" by (simp add: parse_int64_def parse_uint_def digit_value_def)
  moreover have "bytes_of ''{}'' \<noteq> []" by (simp add: bytes_of_def)
  ultimately show ?thesis
    by (simp add: authentic_def sample_post_def header_get_def header_values_def path_value_def json_Valid_empty_object
        from_unix_def duration_defs) (simp add: sample_api_def)
qed

theorem Handler_requires_credentials_witness:
  "\<exists>token. header_get ''Authorization'' sample_get = ''Bearer '' @ token \<and>
     sha256 (bytes_of token) = sha256 (ap_token sample_api)"
proof -
  have auth: "authorized sample_api (header_get ''Authorization'' sample_get)"
    by (simp add: authorized_def sample_get_def header_get_def header_values_def sample_api_def)
  have "serve_mux routes sample_get = Inr (Endpoint_Get, [])"
    by (simp add: routes_def sample_get_def match_method_def)
  then have "Handler (pg_event_store (\<lambda>_. Done) (\<lambda>_. 0) None) (\<lambda>_. []) sample_api 0 None sample_get (empty_db 0) =
      ((200, Endpoint_Reply ''shop'' ''https://example.com/'' True), empty_db 0)"
    using auth by (simp add: Handler_def endpoint_get_def require_authorization_def) (simp add: sample_api_def)
  from Handler_requires_credentials [OF this] show ?thesis by (auto simp: sample_get_def)
qed

lemma sample_post_accepted:
  "\<exists>i d'. events_post (pg_event_store (\<lambda>_. Done) (\<lambda>_. 0) None) sample_api 0 (Some (replicate 16 0)) sample_post
      [(''source_key'', ''shop'')] (empty_db 0) = ((202, Accepted_Reply i False), d')"
proof -
  let ?store = "pg_event_store (\<lambda>_. Done) (\<lambda>_. 0) None"
  obtain i where i: "NewUUID (Some (replicate 16 0)) = Some i" by (rule NewUUID_Some)
  define receipt where "receipt = \<lparr> rc_id = i, rc_source = ''shop'', rc_external = ''order-1'',
    rc_body = bytes_of ''{}'', rc_sha = sha256 (bytes_of ''{}''), rc_dest = ''https://example.com/'' \<rparr>"
  have hdr: "header_get ''X-Relay-Event-Id'' sample_post = ''order-1''" "hr_body sample_post = bytes_of ''{}''"
    by (simp_all add: sample_post_def header_get_def header_values_def)
  have "receipt_ok receipt"
    by (simp add: receipt_ok_def receipt_row_def event_check_def receipt_def text_length_def)
  then have acc: "pg_accept (\<lambda>_. Done) (\<lambda>_. 0) None receipt (empty_db 0) =
      (Inr \<lparr> ac_id = i, ac_duplicate = False \<rparr>, (empty_db 0)\<lparr>events := [receipt_row (\<lambda>_. 0) receipt]\<rparr>)"
    using Accept_fresh [OF store_ok_empty, of receipt 0 "\<lambda>_. Done" "\<lambda>_. 0" "empty_db 0" None]
    by (simp add: pg_accept_def empty_db_def receipt_def)
  have "valid_event_id ''order-1''" by (simp add: valid_event_id_def)
  then have "events_post ?store sample_api 0 (Some (replicate 16 0)) sample_post [(''source_key'', ''shop'')] (empty_db 0) =
      accept ?store sample_api (Some (replicate 16 0)) ''order-1'' (bytes_of ''{}'') (empty_db 0)"
    using events_post_authentic [OF sample_post_authentic] by (simp add: hdr) (simp add: sample_api_def)
  also have "\<dots> = ((202, Accepted_Reply i False), (empty_db 0)\<lparr>events := [receipt_row (\<lambda>_. 0) receipt]\<rparr>)"
    using acc by (simp add: accept_def i pg_event_store_def sample_api_def receipt_def)
  finally show ?thesis by blast
qed

theorem events_post_durable_witness:
  "\<exists>e d'. events_post (pg_event_store (\<lambda>_. Done) (\<lambda>_. 0) None) sample_api 0 (Some (replicate 16 0)) sample_post
      [(''source_key'', ''shop'')] (empty_db 0) = ((202, Accepted_Reply (ev_id e) False), d') \<and>
     e \<in> set (events d') \<and> ev_body e = bytes_of ''{}''"
proof -
  obtain i d' where run: "events_post (pg_event_store (\<lambda>_. Done) (\<lambda>_. 0) None) sample_api 0 (Some (replicate 16 0))
      sample_post [(''source_key'', ''shop'')] (empty_db 0) = ((202, Accepted_Reply i False), d')"
    using sample_post_accepted by blast
  from events_post_durable [OF store_ok_empty run] obtain e where
    "i = ev_id e" "e \<in> set (events d')" "ev_body e = hr_body sample_post" by auto
  with run show ?thesis by (auto simp: sample_post_def)
qed

end
