(* ===== verification/Event_Retry.thy ===== *)
theory Event_Retry
  imports Event_Api Relay_System
begin

text \<open>
  The client's side of idempotent receipt: what a client that sends the same event again learns from
  the store and from the API of \<open>internal/httpapi/api.go\<close>, over a store that also answers when it knows
  the event.  Between the two requests the relay of \<open>Relay_System\<close> makes any number of steps.
\<close>

locale answering_store = accepting_store store_accept inv stored
  for store_accept :: "receipt \<Rightarrow> 's \<Rightarrow> (store_error + accepted) \<times> 's"
    and inv :: "'s \<Rightarrow> bool"
    and stored :: "'s \<Rightarrow> string \<times> string \<Rightarrow> (string \<times> bytes) option" +
  fixes storable :: "receipt \<Rightarrow> bool"
  assumes accept_known: "inv s \<Longrightarrow> storable receipt \<Longrightarrow>
      stored s (rc_source receipt, rc_external receipt) = Some (i, sha) \<Longrightarrow>
      store_accept receipt s =
        (if sha = rc_sha receipt then Inr \<lparr> ac_id = i, ac_duplicate = True \<rparr> else Inl Conflict_Error, s)"
begin

lemma accept_again:
  assumes "inv s" and "es_accept store = store_accept" and "stored s (ap_source a, external_id) = Some (i, sha)"
    and "NewUUID random = Some j"
    and "storable \<lparr> rc_id = j, rc_source = ap_source a, rc_external = external_id, rc_body = body,
      rc_sha = sha256 body, rc_dest = ap_dest a \<rparr>"
  shows "\<exists>code text. accept store a random external_id body s =
    (if sha = sha256 body then (202, Accepted_Reply i True) else (409, Error_Reply code text), s)"
proof -
  define receipt where "receipt = \<lparr> rc_id = j, rc_source = ap_source a, rc_external = external_id, rc_body = body,
      rc_sha = sha256 body, rc_dest = ap_dest a \<rparr>"
  have "store_accept receipt s =
      (if sha = sha256 body then Inr \<lparr> ac_id = i, ac_duplicate = True \<rparr> else Inl Conflict_Error, s)"
    using accept_known [OF assms(1), of receipt i sha] assms(3,5) by (simp add: receipt_def)
  with assms(2,4) show ?thesis by (auto simp: accept_def receipt_def)
qed

text \<open>An authentic request for an event that is stored.\<close>

lemma post_known:
  assumes "inv s" and "es_accept store = store_accept" and "stored s (ap_source a, header_get ''X-Relay-Event-Id'' r) = Some (i, sha)"
    and "authentic a now r values" and "valid_event_id (header_get ''X-Relay-Event-Id'' r)" and "ap_dest a \<noteq> []"
    and "NewUUID random = Some j"
    and "storable \<lparr> rc_id = j, rc_source = ap_source a, rc_external = header_get ''X-Relay-Event-Id'' r,
      rc_body = hr_body r, rc_sha = sha256 (hr_body r), rc_dest = ap_dest a \<rparr>"
  shows "\<exists>code text. events_post store a now random r values s =
    (if sha256 (hr_body r) = sha then (202, Accepted_Reply i True) else (409, Error_Reply code text), s)"
  using events_post_authentic [OF assms(4-6), of store random s] accept_again [OF assms(1-3,7,8)]
  by (simp only: eq_commute [of sha])

end

text \<open>A receipt that the columns of the events table admit.\<close>

lemma authentic_receipt_ok:
  assumes "authentic a now r values" and "valid_event_id (header_get ''X-Relay-Event-Id'' r)" and "ap_dest a \<noteq> []"
    and "text_length (ap_source a) \<in> {1..128}" and "text_length (ap_dest a) \<in> {1..2048}"
  shows "receipt_ok \<lparr> rc_id = j, rc_source = ap_source a, rc_external = header_get ''X-Relay-Event-Id'' r,
      rc_body = hr_body r, rc_sha = sha256 (hr_body r), rc_dest = ap_dest a \<rparr>"
proof -
  let ?x = "header_get ''X-Relay-Event-Id'' r"
  have x: "list_all (\<lambda>c. (of_char c :: nat) < 128) ?x" "1 \<le> length ?x" "length ?x \<le> 128"
    using assms(2) by (auto simp: valid_event_id_def list_all_iff Suc_le_eq split: if_splits)
  then have "filter (\<lambda>c. \<not> (128 \<le> (of_char c :: nat) \<and> (of_char c :: nat) < 192)) ?x = ?x"
    by (auto simp: filter_id_conv list_all_iff)
  then have "text_length ?x = length ?x" by (simp add: text_length_def)
  moreover have "1 \<le> length (hr_body r)" "length (hr_body r) \<le> 262144"
    using assms(1) by (auto simp: authentic_def Suc_le_eq)
  ultimately show ?thesis
    using x(2,3) assms(4,5) by (simp add: receipt_ok_def receipt_row_def event_check_def)
qed

interpretation pg_retries: answering_store "pg_accept (\<lambda>_. Done) clock publisher" schema_ok stored_event receipt_ok
  for clock publisher
proof
  fix s receipt i sha
  assume s: "schema_ok s" and ok: "receipt_ok receipt"
    and known: "stored_event s (rc_source receipt, rc_external receipt) = Some (i, sha)"
  from known obtain e where e: "find_key (rc_source receipt, rc_external receipt) s = Some e" "ev_id e = i" "ev_sha e = sha"
    by (auto simp: stored_event_def)
  with find_key_iff [OF s] Accept_known [OF s ok, of "\<lambda>_. Done" e clock publisher]
  show "pg_accept (\<lambda>_. Done) clock publisher receipt s =
      (if sha = rc_sha receipt then Inr \<lparr> ac_id = i, ac_duplicate = True \<rparr> else Inl Conflict_Error, s)"
    by (auto simp: pg_accept_def)
qed

section \<open>Receipt in the running relay\<close>

lemma reachable_accept:
  assumes "reachable s" and "Accept nets clock later publisher receipt (sy_db s) = (r, d', pubs)"
    and "\<not> has_prefix (rc_source receipt) ''sandbox:''"
  shows "reachable (s\<lparr>sy_db := d'\<rparr>)"
  by (rule reachable.step [OF assms(1) relay_step.accept [OF assms(2,3)]])

lemma reachable_store: "reachable s \<Longrightarrow> schema_ok (sy_db s) \<and> tenancy_ok (sy_db s)"
  using reachable_ok by (auto simp: system_ok_def store_ok_def)

text \<open>
  C12: receipt is idempotent.  The first call for an event key that the database executes, under an
  event identifier that is not in use, stores one pending event; whether its answer
  arrived or was lost, every later call for that key stores nothing and publishes nothing, whatever
  the relay did in between, before that call and between its two statements; it reports the first
  event as a duplicate, or a conflict if the body digest differs, and if the database does not
  answer it reports that.  Both receipts satisfy the column checks, and the source is not a visitor's.
\<close>

theorem Accept_idempotent:
  assumes "reachable s" and "receipt_ok first" and "receipt_ok again" and "\<not> has_prefix (rc_source first) ''sandbox:''"
    and "rc_id first \<notin> ev_id ` set (events (sy_db s))"
    and "(rc_source first, rc_external first) \<notin> event_key ` set (events (sy_db s))"
    and "rc_source again = rc_source first" and "rc_external again = rc_external first"
    and "nets 0 \<noteq> Failed" and "Accept nets clock later publisher first (sy_db s) = (r, d1, pubs)"
    and "relay_step\<^sup>*\<^sup>* (s\<lparr>sy_db := d1\<rparr>) s2" and "relay_step\<^sup>*\<^sup>* s2 s3"
  shows "events d1 = events (sy_db s) @ [receipt_row clock first] \<and>
    r = (if nets 0 = Done then Inr \<lparr> ac_id = rc_id first, ac_duplicate = False \<rparr> else Inl (Db_Failed Unavailable)) \<and>
    Accept nets' clock' (sy_db s3) publisher' again (sy_db s2) =
      (if nets' 0 \<noteq> Done \<or> nets' 1 \<noteq> Done then Inl (Db_Failed Unavailable)
       else if rc_sha again = rc_sha first then Inr \<lparr> ac_id = rc_id first, ac_duplicate = True \<rparr>
       else Inl Conflict_Error, sy_db s2, [])"
proof -
  have ok: "store_ok (sy_db s)" using reachable_ok [OF assms(1)] by (simp add: system_ok_def)
  have d1: "events d1 = events (sy_db s) @ [receipt_row clock first]"
    and r: "r = (if nets 0 = Done then Inr \<lparr> ac_id = rc_id first, ac_duplicate = False \<rparr> else Inl (Db_Failed Unavailable))"
    using Accept_fresh [OF ok assms(2,5,6), of nets clock later publisher] assms(9,10) by (cases "nets 0"; auto)+
  note r1 = reachable_accept [OF assms(1,10,4)]
  note r2 = reachable_steps [OF assms(11) r1]
  have "receipt_row clock first \<in> set (events (sy_db (s\<lparr>sy_db := d1\<rparr>)))" by (simp add: d1)
  then obtain e2 where e2: "e2 \<in> set (events (sy_db s2))" "ev_id e2 = rc_id first" "ev_sha e2 = rc_sha first"
    "event_key e2 = (rc_source again, rc_external again)" "ev_sandbox e2 = None"
    using operator_event_later [OF assms(11) r1] assms(7,8) by force
  then obtain e3 where e3: "e3 \<in> set (events (sy_db s3))" "ev_id e3 = rc_id first" "ev_sha e3 = rc_sha first"
    "event_key e3 = (rc_source again, rc_external again)"
    using operator_event_later [OF assms(12) r2 e2(1,5)] by auto
  have "(rc_source again, rc_external again) \<in> event_key ` set (events (sy_db s2))" using e2(1,4) by (metis imageI)
  note again = Accept_repeated [OF _ _ assms(3) this e3(1,4), of nets' clock' publisher']
  have "schema_ok (sy_db s2)" "schema_ok (sy_db s3)"
    using reachable_store [OF r2] reachable_store [OF reachable_steps [OF assms(12) r2]] by simp_all
  from again [OF this] d1 r e3(2,3) show ?thesis by (simp add: eq_commute [of "rc_sha again"])
qed

text \<open>An acknowledged request was one call of \<open>Accept\<close> for the configured source.\<close>

lemma events_post_Accept:
  assumes "events_post (pg_event_store nets clock publisher) a now random r values d = (response, d')"
  shows "d' = d \<or> (\<exists>receipt res pubs. rc_source receipt = ap_source a \<and> Accept nets clock d publisher receipt d = (res, d', pubs))"
proof -
  obtain status reply where response: "response = (status, reply)" by fastforce
  from assms [unfolded response] show ?thesis
  proof (cases rule: events_post_cases)
    case accepted
    show ?thesis
    proof (cases "NewUUID random")
      case (Some i)
      let ?receipt = "\<lparr> rc_id = i, rc_source = ap_source a, rc_external = header_get ''X-Relay-Event-Id'' r,
        rc_body = hr_body r, rc_sha = sha256 (hr_body r), rc_dest = ap_dest a \<rparr>"
      obtain res d1 pubs where run: "Accept nets clock d publisher ?receipt d = (res, d1, pubs)" by (metis prod_cases3)
      then have "d' = d1"
        using accepted(4) Some
        by (auto simp: accept_def pg_event_store_def pg_accept_def split: sum.splits store_error.splits)
      with run show ?thesis by (intro disjI2 exI [of _ ?receipt]) auto
    qed (use accepted(4) in \<open>simp add: accept_def\<close>)
  qed simp
qed

text \<open>
  C14: a client may retry.  Once an event was acknowledged, another authentic request of the same source with
  the same event identifier changes nothing, however much later it arrives, whatever the relay did
  in between and whatever its timestamp: with a body of the same digest it is acknowledged again as
  a duplicate under the same identifier, and with another body it is a conflict.  For the second
  request the database and the random source answer, and the configured source and destination fit
  their columns.
\<close>

theorem events_post_retry:
  assumes "reachable s" and "\<not> has_prefix (ap_source a) ''sandbox:''"
    and "events_post (pg_event_store nets clock publisher) a now random r values (sy_db s) = ((202, Accepted_Reply i dup), d1)"
    and "relay_step\<^sup>*\<^sup>* (s\<lparr>sy_db := d1\<rparr>) s2"
    and "authentic a now' r' values'" and "header_get ''X-Relay-Event-Id'' r' = header_get ''X-Relay-Event-Id'' r"
    and "random' \<noteq> None" and "text_length (ap_source a) \<in> {1..128}" and "text_length (ap_dest a) \<in> {1..2048}"
  shows "\<exists>code text. events_post (pg_event_store (\<lambda>_. Done) clock' publisher') a now' random' r' values' (sy_db s2) =
    (if sha256 (hr_body r') = sha256 (hr_body r) then (202, Accepted_Reply i True) else (409, Error_Reply code text), sy_db s2)"
proof -
  let ?x = "header_get ''X-Relay-Event-Id'' r"
  obtain j where j: "NewUUID random' = Some j" using assms(7) NewUUID_Some by (metis not_None_eq)
  have "reachable (s\<lparr>sy_db := d1\<rparr>)"
    using events_post_Accept [OF assms(3)] reachable_accept [OF assms(1)] assms(1,2) by fastforce
  note r1 = this and r2 = reachable_steps [OF assms(4) this]
  have d1: "schema_ok d1" "tenancy_ok d1" using reachable_store [OF r1] by simp_all
  have s: "schema_ok (sy_db s)" and s2: "schema_ok (sy_db s2)" using reachable_store assms(1) r2 by blast+
  have acc: "es_accept (pg_event_store nets clock publisher) = pg_accept nets clock publisher" for nets clock publisher
    by (simp add: pg_event_store_def)
  from assms(3) have event: "valid_event_id ?x" "ap_dest a \<noteq> []"
    and "stored_event d1 (ap_source a, ?x) = Some (i, sha256 (hr_body r))"
    by (cases rule: events_post_cases; use pg_receipts.accept_outcome [OF s acc] in force)+
  then obtain e where e: "e \<in> set (events d1)" "event_key e = (ap_source a, ?x)" "ev_id e = i" "ev_sha e = sha256 (hr_body r)"
    using find_key_iff [OF d1(1)] by (auto simp: stored_event_def)
  have "ev_sandbox e = None"
    using operator_row [OF tenancy_okD [OF d1(2) e(1)]] e(2) assms(2) by (simp add: event_key_def)
  with operator_event_later [OF assms(4) r1] e obtain e2 where "e2 \<in> set (events (sy_db s2))"
    "event_key e2 = (ap_source a, ?x)" "ev_id e2 = i" "ev_sha e2 = sha256 (hr_body r)" by force
  then have "stored_event (sy_db s2) (ap_source a, header_get ''X-Relay-Event-Id'' r') = Some (i, sha256 (hr_body r))"
    using find_key_iff [OF s2] assms(6) by (auto simp: stored_event_def)
  from pg_retries.post_known [OF s2 acc this assms(5) _ event(2) j] event authentic_receipt_ok [OF assms(5)] assms(6,8,9)
  show ?thesis by simp
qed

section \<open>The properties on concrete requests\<close>

theorem Accept_idempotent_witness:
  "\<exists>d1. events d1 = [sample_event] \<and>
     Accept (\<lambda>_. Done) (\<lambda>_. 7) d1 None (sample_receipt\<lparr>rc_id := ''f''\<rparr>) d1 =
       (Inr \<lparr> ac_id = ''e'', ac_duplicate = True \<rparr>, d1, [])"
proof -
  obtain r d1 pubs where run: "Accept (\<lambda>_. Lost) (\<lambda>_. 0) (empty_db 0) None sample_receipt (sy_db (initial 0)) = (r, d1, pubs)"
    by (metis prod_cases3)
  have again: "receipt_ok (sample_receipt\<lparr>rc_id := ''f''\<rparr>)"
    using sample_receipt_ok by (simp add: receipt_ok_def receipt_row_def event_check_def)
  have "\<not> has_prefix (rc_source sample_receipt) ''sandbox:''" by (simp add: sample_receipt_def)
  note idempotent = Accept_idempotent [OF reachable.start sample_receipt_ok again this _ _ _ _ _ run rtranclp.rtrancl_refl
      rtranclp.rtrancl_refl, of "\<lambda>_. Done" "\<lambda>_. 7" None]
  have "events d1 = [receipt_row (\<lambda>_. 0) sample_receipt] \<and>
      Accept (\<lambda>_. Done) (\<lambda>_. 7) d1 None (sample_receipt\<lparr>rc_id := ''f''\<rparr>) d1 =
       (Inr \<lparr> ac_id = rc_id sample_receipt, ac_duplicate = True \<rparr>, d1, [])"
    using idempotent by (simp add: initial_def empty_db_def)
  then show ?thesis
    by (intro exI [of _ d1]) (simp add: sample_receipt_row, simp add: sample_receipt_def)
qed

theorem events_post_retry_witness:
  "\<exists>i d1. events_post (pg_event_store (\<lambda>_. Done) (\<lambda>_. 0) None) sample_api 0 (Some (replicate 16 0)) sample_post
      [(''source_key'', ''shop'')] (empty_db 0) = ((202, Accepted_Reply i False), d1) \<and>
    events_post (pg_event_store (\<lambda>_. Done) (\<lambda>_. 0) None) sample_api 0 (Some (replicate 16 1)) sample_post
      [(''source_key'', ''shop'')] d1 = ((202, Accepted_Reply i True), d1)"
proof -
  obtain i d1 where first: "events_post (pg_event_store (\<lambda>_. Done) (\<lambda>_. 0) None) sample_api 0 (Some (replicate 16 0))
      sample_post [(''source_key'', ''shop'')] (sy_db (initial 0)) = ((202, Accepted_Reply i False), d1)"
    using sample_post_accepted by (auto simp: initial_def)
  have "\<not> has_prefix (ap_source sample_api) ''sandbox:''" by (simp add: sample_api_def)
  from events_post_retry [OF reachable.start this first rtranclp.rtrancl_refl sample_post_authentic refl, of "Some (replicate 16 1)"] first
  show ?thesis by (simp add: initial_def) (simp add: sample_api_def text_length_def)
qed

end
