(* ===== verification/Demo_Receiver.thy ===== *)
theory Demo_Receiver
  imports Go_Http Go_Json
begin

text \<open>
  The synthetic destination of \<open>internal/demoreceiver/receiver.go\<close>, and the simulated receiver of
  \<open>cmd/receiver/main.go\<close>.  The channel \<open>slots\<close> is the number of requests that hold a slot: a request
  takes one without blocking before it reads its body, and gives it back when its handler returns.
\<close>

section \<open>The handler\<close>

definition bodyBytesMax :: nat where
  "bodyBytesMax = 256 * 1024"

definition bodyBytesInFlightMax :: nat where
  "bodyBytesInFlightMax = 1024 * 1024"

definition timestampWindow :: duration where
  "timestampWindow = 300 * second"

record receiver =
  dr_secret :: bytes
  dr_slots :: nat

definition New :: "bytes \<Rightarrow> receiver option" where
  "New secret =
     (if length secret < 16 \<or> length secret > 256 then None
      else Some \<lparr> dr_secret = secret, dr_slots = bodyBytesInFlightMax div bodyBytesMax \<rparr>)"

definition validHeaders :: "time \<Rightarrow> request \<Rightarrow> bool" where
  "validHeaders now r =
     (if list_ex (\<lambda>name. length (header_values name r) \<noteq> 1)
           [''X-Relay-Timestamp'', ''X-Relay-Signature'', ''X-Relay-Attempt'', ''X-Relay-Event-Id''] then False
      else case parse_int64 (header_get ''X-Relay-Timestamp'' r) of
        None \<Rightarrow> False
      | Some seconds \<Rightarrow>
          let difference = time_sub now (from_unix seconds)
          in if difference < - timestampWindow \<or> difference > timestampWindow then False
             else (case parse_uint 8 (header_get ''X-Relay-Attempt'' r) of
                     None \<Rightarrow> False
                   | Some attempt \<Rightarrow>
                       if attempt < 1 \<or> attempt > 8 \<or> format_nat attempt \<noteq> header_get ''X-Relay-Attempt'' r then False
                       else ValidUUID (header_get ''X-Relay-Event-Id'' r)))"

definition scenario_field :: "string \<times> json \<Rightarrow> string \<Rightarrow> string option" where
  "scenario_field member old =
     (if names_field (fst member) ''scenario'' then string_field (snd member) old else Some old)"

definition scenarioStatus :: "bytes \<Rightarrow> string \<Rightarrow> nat" where
  "scenarioStatus body attempt =
     (case Option.bind (json_read (text_of body)) (\<lambda>v. read_struct scenario_field v []) of
        None \<Rightarrow> 400
      | Some scenario \<Rightarrow>
          if scenario = ''success'' then 204
          else if scenario = ''temporary_failure''
            then (if attempt = ''1'' \<or> attempt = ''2'' then 503 else 204)
          else if scenario = ''permanent_failure'' then 422
          else 400)"

text \<open>The part of \<open>ServeHTTP\<close> up to the slot: the status of a refusal.\<close>

definition admit :: "receiver \<Rightarrow> time \<Rightarrow> nat \<Rightarrow> request \<Rightarrow> nat option" where
  "admit h now in_use r =
     (if hr_method r \<noteq> ''POST'' then Some 405
      else if hr_query r \<noteq> [] \<or> header_get ''Content-Type'' r \<noteq> ''application/json'' then Some 400
      else if \<not> validHeaders now r then Some 401
      else if in_use < dr_slots h then None
      else Some 503)"

text \<open>The rest, holding the slot.\<close>

definition respond :: "receiver \<Rightarrow> request \<Rightarrow> nat" where
  "respond h r =
     (case read_limited (bodyBytesMax + 1) (hr_body r) (hr_broken r) of
        None \<Rightarrow> 400
      | Some body \<Rightarrow>
          if length body > bodyBytesMax then 413
          else if Valid (dr_secret h) (header_get ''X-Relay-Timestamp'' r) body (header_get ''X-Relay-Signature'' r) \<noteq> Some True
          then 401
          else scenarioStatus body (header_get ''X-Relay-Attempt'' r))"

definition ServeHTTP :: "receiver \<Rightarrow> time \<Rightarrow> nat \<Rightarrow> request \<Rightarrow> nat \<times> (string \<times> string) list" where
  "ServeHTTP h now in_use r =
     (case admit h now in_use r of
        Some status \<Rightarrow>
          (status, (''Cache-Control'', ''no-store'') # (if status = 405 then [(''Allow'', ''POST'')] else []))
      | None \<Rightarrow> (respond h r, [(''Cache-Control'', ''no-store'')]))"

text \<open>The receiver of \<open>cmd/receiver\<close>; \<open>scenario\<close> is what \<open>URL.Query().Get\<close> finds.\<close>

definition simulated_events_post :: "request \<Rightarrow> string \<Rightarrow> nat" where
  "simulated_events_post r scenario =
     (case read_limited (256 * 1024 + 1) (hr_body r) (hr_broken r) of
        None \<Rightarrow> 400
      | Some body \<Rightarrow>
          if length body > 256 * 1024 then 400
          else (case parse_uint 8 (header_get ''X-Relay-Attempt'' r) of
                  None \<Rightarrow> 400
                | Some attempt \<Rightarrow>
                    if scenario = ''temporary_failure'' \<and> attempt < 3 then 503
                    else if scenario = ''permanent_failure'' then 422
                    else 204))"

definition local_receiver :: "request \<Rightarrow> string \<Rightarrow> nat" where
  "local_receiver r scenario =
     (case serve_mux [(''POST'', [Lit ''events''], ())] r of
        Inl status \<Rightarrow> status
      | Inr _ \<Rightarrow> simulated_events_post r scenario)"

section \<open>Concurrent requests\<close>

text \<open>
  The receiver with the requests that hold a slot: a request is refused at once, or takes a slot and
  is answered later.  Requests are kept with the reading of the receiver's clock when they arrived, and
  the answers are listed with their requests.
\<close>

record serving =
  sv_active :: "(time \<times> request) list"
  sv_answers :: "(time \<times> request \<times> nat) list"

inductive serving_step :: "receiver \<Rightarrow> serving \<Rightarrow> serving \<Rightarrow> bool" for h where
  refuse: "admit h now (length (sv_active s)) r = Some status \<Longrightarrow>
     serving_step h s (s\<lparr>sv_answers := (now, r, status) # sv_answers s\<rparr>)"
| enter: "admit h now (length (sv_active s)) r = None \<Longrightarrow>
     serving_step h s (s\<lparr>sv_active := (now, r) # sv_active s\<rparr>)"
| answer: "sv_active s = before @ (now, r) # after \<Longrightarrow>
     serving_step h s (s\<lparr>sv_active := before @ after, sv_answers := (now, r, respond h r) # sv_answers s\<rparr>)"

inductive serves :: "receiver \<Rightarrow> serving \<Rightarrow> bool" for h where
  idle: "serves h \<lparr> sv_active = [], sv_answers = [] \<rparr>"
| step: "serves h s \<Longrightarrow> serving_step h s s' \<Longrightarrow> serves h s'"

text \<open>The bytes of its body that a request keeps in memory.\<close>

definition retained :: "request \<Rightarrow> nat" where
  "retained r = length (case read_limited (bodyBytesMax + 1) (hr_body r) (hr_broken r) of None \<Rightarrow> [] | Some b \<Rightarrow> b)"

section \<open>The relay's own requests\<close>

text \<open>A request as it arrives: the method, body and headers of the relay's, and perhaps more headers.\<close>

definition carries :: "request \<Rightarrow> http_request \<Rightarrow> bool" where
  "carries r q \<longleftrightarrow> hr_method r = ''POST'' \<and> hr_query r = [] \<and> hr_body r = rq_body q \<and> \<not> hr_broken r \<and>
     list_all (\<lambda>(name, value). header_values name r = [value]) (rq_headers q)"

lemma header_get_values [simp]: "header_values name r = [v] \<Longrightarrow> header_get name r = v"
  by (simp add: header_get_def)

lemma carries_delivery:
  assumes "carries r (delivery_request sender claimed t)"
  shows "hr_method r = ''POST''" "hr_query r = []" "hr_body r = ce_body claimed" "\<not> hr_broken r"
    and "header_values ''Content-Type'' r = [''application/json'']"
    and "header_values ''X-Relay-Event-Id'' r = [ce_id claimed]"
    and "header_values ''X-Relay-Attempt'' r = [format_nat (unat (ce_attempt claimed))]"
    and "header_values ''X-Relay-Timestamp'' r = [format_int (unix t)]"
    and "header_values ''X-Relay-Signature'' r = [Create (sn_secret sender) (format_int (unix t)) (ce_body claimed)]"
  using assms by (simp_all add: carries_def delivery_request_def Let_def)

lemma Send_sent:
  assumes "q \<in> set (snd (Send sender env claimed))"
  shows "q = delivery_request sender claimed (sv_now env 0)"
  using assms by (auto simp: Send_def Let_def split: if_splits option.splits)

lemma New_Some:
  "New secret = Some h \<Longrightarrow> dr_secret h = secret \<and> dr_slots h = 4 \<and> 16 \<le> length secret \<and> length secret \<le> 256"
  by (auto simp: New_def bodyBytesInFlightMax_def bodyBytesMax_def split: if_splits)

lemma unix_round: "from_unix (unix t) \<le> t \<and> t < from_unix (unix t) + second"
proof -
  have "0 < second" by (simp add: duration_defs)
  then have "0 \<le> t mod second" "t mod second < second" by simp_all
  moreover have "t div second * second + t mod second = t" by (rule div_mult_mod_eq)
  ultimately show ?thesis unfolding unix_def from_unix_def by linarith
qed

lemma timestamp_window_ok:
  assumes "\<bar>now - t\<bar> \<le> 299 * second"
  shows "\<not> time_sub now (from_unix (unix t)) < - timestampWindow \<and> \<not> timestampWindow < time_sub now (from_unix (unix t))"
proof -
  have "- (299 * second) \<le> now - from_unix (unix t) \<and> now - from_unix (unix t) \<le> 300 * second"
    using assms unix_round [of t] by (auto simp: duration_defs abs_le_iff)
  then show ?thesis by (simp add: time_sub_def timestampWindow_def min_duration_def max_duration_def duration_defs)
qed

lemma Valid_Create: "Valid secret timestamp body (Create secret timestamp body) = Some True"
  unfolding Create_def Valid_prefixed by simp

lemma read_limited_all: "length data < n \<Longrightarrow> read_limited n data False = Some data"
  by (simp add: read_limited_def)

text \<open>
  C24: the receiver accepts the relay's own deliveries.  A request that \<open>Send\<close> hands to the network, for an
  event with a well-formed identifier, an attempt from 1 to 8 and a body of at most 256 KiB, passes every
  check of a receiver that shares the delivery secret and whose clock is within 299 seconds of the
  relay's: while a slot is free, the answer is the status that the scenario in the body asks for.
\<close>

theorem ServeHTTP_accepts_Send:
  assumes sent: "q \<in> set (snd (Send sender env claimed))" and arrives: "carries r q"
    and h: "New (sn_secret sender) = Some h"
    and clock: "\<bar>now - sv_now env 0\<bar> \<le> 299 * second" "\<bar>unix (sv_now env 0)\<bar> < 2 ^ 63"
    and event: "ValidUUID (ce_id claimed)" "1 \<le> unat (ce_attempt claimed)" "unat (ce_attempt claimed) \<le> 8"
      "length (ce_body claimed) \<le> bodyBytesMax"
    and slot: "in_use < 4"
  shows "fst (ServeHTTP h now in_use r) = scenarioStatus (ce_body claimed) (format_nat (unat (ce_attempt claimed)))"
proof -
  note r = carries_delivery [OF arrives [unfolded Send_sent [OF sent]]]
  have "parse_int64 (format_int (unix (sv_now env 0))) = Some (unix (sv_now env 0))"
    using clock(2) by (intro parse_int64_format_int) auto
  moreover have "parse_uint 8 (format_nat (unat (ce_attempt claimed))) = Some (unat (ce_attempt claimed))"
    using event(3) by (intro parse_uint_format) simp
  ultimately have "validHeaders now r"
    using r event timestamp_window_ok [OF clock(1)] by (simp add: validHeaders_def Let_def del: format_nat.simps)
  then have "admit h now in_use r = None"
    using r slot New_Some [OF h] by (simp add: admit_def)
  moreover have "respond h r = scenarioStatus (ce_body claimed) (format_nat (unat (ce_attempt claimed)))"
    using r event(4) New_Some [OF h]
    by (simp add: respond_def read_limited_all Valid_Create del: format_nat.simps)
  ultimately show ?thesis by (simp add: ServeHTTP_def)
qed

section \<open>Scenarios\<close>

text \<open>A body with one scenario, as the simulator destinations name it.\<close>

definition demo_body :: "string \<Rightarrow> bytes" where
  "demo_body scenario = bytes_of (one_member ''scenario'' scenario)"

lemma read_demo_body:
  "list_all plain scenario \<Longrightarrow>
     json_read (text_of (demo_body scenario)) = Some (J_Object [(''scenario'', J_String scenario)])"
  unfolding demo_body_def text_of_bytes_of by (rule json_read_member) (simp_all add: plain_def)

definition scenarios :: "string list" where
  "scenarios = [''success'', ''temporary_failure'', ''permanent_failure'']"

lemma scenarioStatus_body:
  assumes "list_all plain scenario"
  shows "scenarioStatus (demo_body scenario) attempt =
    (if scenario = ''success'' then 204
     else if scenario = ''temporary_failure'' then (if attempt = ''1'' \<or> attempt = ''2'' then 503 else 204)
     else if scenario = ''permanent_failure'' then 422 else 400)"
  unfolding scenarioStatus_def read_demo_body [OF assms]
  by (simp add: read_struct_def scenario_field_def names_field_def string_field_def char_between_def)

lemma format_nat_small:
  assumes "n < 10"
  shows "format_nat n = ''1'' \<longleftrightarrow> n = 1" and "format_nat n = ''2'' \<longleftrightarrow> n = 2"
proof -
  have "char_of (49 :: nat) = CHR ''1''" "char_of (50 :: nat) = CHR ''2''" by code_simp+
  then have texts: "format_nat 1 = ''1''" "format_nat 2 = ''2''"
    by (simp_all add: format_nat.simps decimal_digit_def)
  show "format_nat n = ''1'' \<longleftrightarrow> n = 1" "format_nat n = ''2'' \<longleftrightarrow> n = 2"
    by (metis texts parse_digits_format option.inject)+
qed

text \<open>
  The three receivers agree.  For every attempt from 1 to 8 of each of the three scenarios, the synthetic
  destination, the local receiver and the in-process simulator for visitors' events give the same
  status, so a delivery has the same outcome whichever of them it is sent to.
\<close>

theorem receivers_agree:
  assumes "scenario \<in> set scenarios" and "1 \<le> n" and "n \<le> 8"
    and "ce_dest claimed = ''relay-simulator://'' @ scenario" and "unat (ce_attempt claimed) = n"
    and "header_values ''X-Relay-Attempt'' r = [format_nat n]" and "length (hr_body r) \<le> 256 * 1024" and "\<not> hr_broken r"
  shows "scenarioStatus (demo_body scenario) (format_nat n) = simulated_events_post r scenario \<and>
    simulated_events_post r scenario = unat (sandbox_status claimed) \<and>
    an_outcome (sandbox_attempt claimed now) = HTTPOutcome (of_nat (scenarioStatus (demo_body scenario) (format_nat n)))"
proof -
  have status: "unat (sandbox_status claimed) =
      (if scenario = ''success'' then 204 else if scenario = ''temporary_failure'' \<and> n < 3 then 503
       else if scenario = ''permanent_failure'' then 422 else 204)"
    using assms(1,4,5) by (auto simp: sandbox_status_def scenarios_def word_less_nat_alt)
  have "parse_uint 8 (format_nat n) = Some n"
    using assms(3) by (intro parse_uint_format) simp
  then have simulated: "simulated_events_post r scenario = unat (sandbox_status claimed)"
    using assms status by (auto simp: simulated_events_post_def read_limited_all scenarios_def simp del: format_nat.simps)
  have "list_all plain scenario" using assms(1) by (auto simp: scenarios_def plain_def)
  moreover have "format_nat n = ''1'' \<or> format_nat n = ''2'' \<longleftrightarrow> n < 3"
    using assms(2,3) format_nat_small [of n] by auto
  ultimately have "scenarioStatus (demo_body scenario) (format_nat n) = unat (sandbox_status claimed)"
    using assms(1) status by (auto simp: scenarioStatus_body scenarios_def simp del: format_nat.simps)
  with simulated show ?thesis by (simp add: sandbox_attempt_def Let_def del: format_nat.simps)
qed

section \<open>Bounded memory\<close>

text \<open>What a request has shown before it holds a slot, and when.\<close>

definition admissible :: "time \<Rightarrow> request \<Rightarrow> bool" where
  "admissible now r \<longleftrightarrow> hr_method r = ''POST'' \<and> hr_query r = [] \<and> validHeaders now r"

lemma validHeaders_fresh:
  assumes "validHeaders now r"
  shows "\<exists>seconds. header_values ''X-Relay-Timestamp'' r = [header_get ''X-Relay-Timestamp'' r] \<and>
    parse_int64 (header_get ''X-Relay-Timestamp'' r) = Some seconds \<and> \<bar>now - from_unix seconds\<bar> \<le> 300 * second"
proof -
  have "length (header_values ''X-Relay-Timestamp'' r) = 1" using assms by (auto simp: validHeaders_def split: if_splits)
  then have one: "header_values ''X-Relay-Timestamp'' r = [header_get ''X-Relay-Timestamp'' r]"
    by (auto simp: length_Suc_conv header_get_def)
  obtain seconds where s: "parse_int64 (header_get ''X-Relay-Timestamp'' r) = Some seconds"
    "\<not> time_sub now (from_unix seconds) < - timestampWindow" "\<not> timestampWindow < time_sub now (from_unix seconds)"
    using assms by (auto simp: validHeaders_def Let_def split: if_splits option.splits)
  have "\<bar>now - from_unix seconds\<bar> \<le> 300 * second"
    using s(2,3) time_sub_less [of "- timestampWindow" now] time_sub_greater [of timestampWindow now]
    by (auto simp: timestampWindow_def min_duration_def max_duration_def duration_defs)
  with one s(1) show ?thesis by blast
qed

definition authentic :: "receiver \<Rightarrow> request \<Rightarrow> bool" where
  "authentic h r \<longleftrightarrow> length (hr_body r) \<le> bodyBytesMax \<and> \<not> hr_broken r \<and>
     Valid (dr_secret h) (header_get ''X-Relay-Timestamp'' r) (hr_body r) (header_get ''X-Relay-Signature'' r) = Some True"

lemma admit_None: "admit h now n r = None \<Longrightarrow> admissible now r \<and> n < dr_slots h"
  by (auto simp: admit_def admissible_def split: if_splits)

lemma admit_Some: "admit h now n r = Some status \<Longrightarrow> status \<in> {400, 401, 405, 503}"
  by (auto simp: admit_def split: if_splits)

lemma respond_authentic: "respond h r \<in> {204, 422} \<Longrightarrow> authentic h r"
  by (auto simp: respond_def authentic_def read_limited_def bodyBytesMax_def split: option.splits if_splits)

lemma retained_le: "retained r \<le> bodyBytesMax + 1"
  by (auto simp: retained_def read_limited_def split: option.splits)

lemma sum_retained: "sum_list (map retained rs) \<le> length rs * (bodyBytesMax + 1)"
proof (induction rs)
  case (Cons r rs)
  with retained_le [of r] show ?case by simp
qed simp

lemma serves_invariant:
  assumes "serves h s"
  shows "length (sv_active s) \<le> dr_slots h \<and> list_all (\<lambda>(now, r). admissible now r) (sv_active s) \<and>
    list_all (\<lambda>(now, r, status). status \<in> {204, 422} \<longrightarrow> admissible now r \<and> authentic h r) (sv_answers s)"
  using assms
proof induction
  case (step s s')
  from step(2) show ?case
  proof cases
    case (answer before now r after)
    then have "length (before @ after) \<le> length (sv_active s)" "admissible now r"
      "list_all (\<lambda>(now, r). admissible now r) (before @ after)"
      using step(3) by simp_all
    with answer step(3) respond_authentic [of h r] show ?thesis by (auto simp del: length_append)
  next
    case (refuse now r status)
    with step(3) admit_Some [OF refuse(2)] show ?thesis by auto
  next
    case (enter now r)
    with step(3) admit_None [OF enter(2)] show ?thesis by auto
  qed
qed simp

text \<open>
  C25: however many requests arrive, and in whatever order their handlers run, at most four of them hold
  a body at a time, so that the bodies in memory never exceed four times 256 KiB and one byte each;
  and a request is answered with a success or with the permanent failure only if its headers were
  acceptable when it arrived, with a single timestamp within five minutes of the receiver's clock at
  that moment, and its complete body carries a valid signature for this timestamp.
\<close>

theorem serves_bounded:
  assumes "New secret = Some h" and "serves h s"
  shows "length (sv_active s) \<le> 4 \<and> sum_list (map (\<lambda>(now, r). retained r) (sv_active s)) \<le> 4 * (256 * 1024 + 1) \<and>
    list_all (\<lambda>(now, r, status). status \<in> {204, 422} \<longrightarrow>
        hr_method r = ''POST'' \<and> validHeaders now r \<and>
        (\<exists>seconds. header_values ''X-Relay-Timestamp'' r = [header_get ''X-Relay-Timestamp'' r] \<and>
           parse_int64 (header_get ''X-Relay-Timestamp'' r) = Some seconds \<and> \<bar>now - from_unix seconds\<bar> \<le> 300 * second) \<and>
        length (hr_body r) \<le> 256 * 1024 \<and> \<not> hr_broken r \<and>
        Valid secret (header_get ''X-Relay-Timestamp'' r) (hr_body r) (header_get ''X-Relay-Signature'' r) = Some True)
      (sv_answers s)"
proof -
  note h = New_Some [OF assms(1)] and inv = serves_invariant [OF assms(2)]
  have four: "length (sv_active s) \<le> 4" using h inv by simp
  have "sum_list (map (\<lambda>(now, r). retained r) (sv_active s)) = sum_list (map retained (map snd (sv_active s)))"
    by (simp add: comp_def case_prod_unfold)
  also have "\<dots> \<le> length (sv_active s) * (bodyBytesMax + 1)" using sum_retained [of "map snd (sv_active s)"] by simp
  also have "\<dots> \<le> 4 * (256 * 1024 + 1)" using four by (simp add: bodyBytesMax_def)
  finally have "sum_list (map (\<lambda>(now, r). retained r) (sv_active s)) \<le> 4 * (256 * 1024 + 1)" .
  moreover have "list_all (\<lambda>(now, r, status). status \<in> {204, 422} \<longrightarrow> admissible now r \<and> authentic h r) (sv_answers s)"
    using inv by simp
  then have "list_all (\<lambda>(now, r, status). status \<in> {204, 422} \<longrightarrow>
        hr_method r = ''POST'' \<and> validHeaders now r \<and>
        (\<exists>seconds. header_values ''X-Relay-Timestamp'' r = [header_get ''X-Relay-Timestamp'' r] \<and>
           parse_int64 (header_get ''X-Relay-Timestamp'' r) = Some seconds \<and> \<bar>now - from_unix seconds\<bar> \<le> 300 * second) \<and>
        length (hr_body r) \<le> 256 * 1024 \<and> \<not> hr_broken r \<and>
        Valid secret (header_get ''X-Relay-Timestamp'' r) (hr_body r) (header_get ''X-Relay-Signature'' r) = Some True)
      (sv_answers s)"
    by (rule list.pred_mono_strong)
      (use h in \<open>auto simp: admissible_def authentic_def bodyBytesMax_def dest: validHeaders_fresh\<close>)
  ultimately show ?thesis using four by blast
qed

section \<open>The properties on concrete requests\<close>

definition demo_claim :: claimed_event where
  "demo_claim = \<lparr> ce_sandbox = False, ce_id = ''0123abcd-0000-4000-8000-000000000001'', ce_claim = ''c'',
     ce_body = demo_body ''temporary_failure'', ce_dest = ''relay-simulator://temporary_failure'',
     ce_replay = 0, ce_attempt = 2, ce_created = 0 \<rparr>"

definition demo_request :: request where
  "demo_request = \<lparr> hr_method = ''POST'', hr_path = [''events''], hr_query = [],
     hr_headers = rq_headers (delivery_request sample_sender demo_claim (from_unix 17)) @ [(''Content-Length'', ''32'')],
     hr_body = demo_body ''temporary_failure'', hr_broken = False \<rparr>"

lemma carries_demo_request: "carries demo_request (delivery_request sample_sender demo_claim (from_unix 17))"
  by (simp add: carries_def demo_request_def delivery_request_def Let_def header_values_def demo_claim_def)

lemma New_sample: "New (replicate 16 7) = Some \<lparr> dr_secret = replicate 16 7, dr_slots = 4 \<rparr>"
  by (simp add: New_def bodyBytesInFlightMax_def bodyBytesMax_def)

theorem ServeHTTP_accepts_Send_witness:
  "fst (ServeHTTP \<lparr> dr_secret = replicate 16 7, dr_slots = 4 \<rparr> (from_unix 300) 3 demo_request) = 503"
proof -
  have q: "delivery_request sample_sender demo_claim (from_unix 17) \<in> set (snd (Send sample_sender sample_env demo_claim))"
    by (simp add: Send_def sample_sender_def sample_env_def demo_claim_def NewUUID_def Let_def)
  have "New (sn_secret sample_sender) = Some \<lparr> dr_secret = replicate 16 7, dr_slots = 4 \<rparr>"
    by (simp only: sample_sender_def http_sender.simps New_sample)
  moreover have "\<bar>from_unix 300 - sv_now sample_env 0\<bar> \<le> 299 * second" "\<bar>unix (sv_now sample_env 0)\<bar> < 2 ^ 63"
    unfolding sample_env_def send_env.simps unix_from_unix by (simp_all add: from_unix_def duration_defs)
  moreover have "ValidUUID (ce_id demo_claim)" "1 \<le> unat (ce_attempt demo_claim)" "unat (ce_attempt demo_claim) \<le> 8"
    "length (ce_body demo_claim) \<le> bodyBytesMax"
    by (simp_all add: demo_claim_def ValidUUID_def uuid_char_ok_def char_between_def demo_body_def bodyBytesMax_def)
  ultimately have "fst (ServeHTTP \<lparr> dr_secret = replicate 16 7, dr_slots = 4 \<rparr> (from_unix 300) 3 demo_request)
      = scenarioStatus (ce_body demo_claim) (format_nat (unat (ce_attempt demo_claim)))"
    by (intro ServeHTTP_accepts_Send [OF q carries_demo_request]) simp_all
  also have "\<dots> = 503"
    using format_nat_small(2) [of 2] by (simp add: demo_claim_def scenarioStatus_body plain_def del: format_nat.simps)
  finally show ?thesis .
qed

theorem receivers_agree_witness:
  "an_outcome (sandbox_attempt demo_claim 0) =
     HTTPOutcome (of_nat (scenarioStatus (demo_body ''temporary_failure'') (format_nat 2)))"
proof -
  have "header_values ''X-Relay-Attempt'' demo_request = [format_nat 2]"
    by (simp add: header_values_def demo_request_def delivery_request_def demo_claim_def Let_def del: format_nat.simps)
  with receivers_agree [of "''temporary_failure''" 2 demo_claim demo_request 0] show ?thesis
    by (simp add: scenarios_def demo_claim_def demo_request_def demo_body_def del: format_nat.simps)
qed

theorem serves_bounded_witness:
  "serves \<lparr> dr_secret = replicate 16 7, dr_slots = 4 \<rparr> \<lparr> sv_active = [(from_unix 17, demo_request)], sv_answers = [] \<rparr> \<and>
   retained demo_request \<le> 4 * (256 * 1024 + 1)"
proof -
  let ?h = "\<lparr> dr_secret = replicate 16 7, dr_slots = 4 \<rparr>"
  let ?s = "\<lparr> sv_active = [], sv_answers = [] \<rparr>"
  have "validHeaders (from_unix 17) demo_request"
    using carries_delivery [OF carries_demo_request] parse_int64_format_int [of 17] parse_uint_format [of 2 8]
      timestamp_window_ok [of "from_unix 17" "from_unix 17"]
    by (simp add: validHeaders_def Let_def demo_claim_def ValidUUID_def uuid_char_ok_def char_between_def duration_defs
        del: format_nat.simps)
  then have "admit ?h (from_unix 17) (length (sv_active ?s)) demo_request = None"
    using carries_delivery [OF carries_demo_request] by (simp add: admit_def)
  then have "serves ?h (?s\<lparr>sv_active := (from_unix 17, demo_request) # sv_active ?s\<rparr>)"
    by (intro serves.step [OF serves.idle] serving_step.enter)
  then have "serves ?h \<lparr> sv_active = [(from_unix 17, demo_request)], sv_answers = [] \<rparr>" by simp
  with serves_bounded [OF New_sample this] show ?thesis by simp
qed

end
