(* ===== verification/Sandbox_Http.thy ===== *)
theory Sandbox_Http
  imports Go_Http Go_Json Sandbox_Cleanup
begin

text \<open>
  The visitors' HTTP boundary of \<open>internal/sandbox/http.go\<close>.  \<open>ServeHTTP\<close> takes the request and the
  database and returns its response, the database and the identifiers it published hints for.
  A response is its status and the value that \<open>reply\<close> encodes, with the cookie it sets; where the
  multiplexer answers itself there is no such value.
\<close>

section \<open>The environment\<close>

record handler =
  sh_key :: bytes
  sh_origin :: string

text \<open>
  What one request meets: the readings of the process's clock; for its \<open>k\<close>-th operation on the store
  the outcomes of the database calls, the readings of the database's clock, and the changes
  that other transactions commit before it; the rows they have locked; the randomness; the
  publisher; and the cookies of the given name in the request.
\<close>

record surroundings =
  sr_now :: "nat \<Rightarrow> time"
  sr_nets :: "nat \<Rightarrow> nat \<Rightarrow> net"
  sr_clock :: "nat \<Rightarrow> nat \<Rightarrow> time"
  sr_others :: "nat \<Rightarrow> db \<Rightarrow> db"
  sr_locked :: "string \<Rightarrow> bool"
  sr_random :: "bytes option"
  sr_publisher :: "(string \<Rightarrow> bool) option"
  sr_cookies :: "string \<Rightarrow> request \<Rightarrow> string list"

datatype sandbox_reply =
    Denied string
  | Session_Active
  | Session_Created cookie
  | Visitor_Events "summary list"
  | Visitor_Event detail
  | Submitted string
  | Replayed
  | Unrouted

type_synonym answer = "(nat \<times> sandbox_reply) \<times> db \<times> string list"

section \<open>Errors and bodies\<close>

datatype failure_cause =
    Session_Failed session_error
  | Store_Failed sandbox_error
  | Read_Failed store_error

definition failure :: "failure_cause \<Rightarrow> nat \<times> sandbox_reply" where
  "failure cause =
     (if cause = Session_Failed ErrSession \<or> cause = Store_Failed Err_Session then (401, Denied ''invalid_session'')
      else if cause = Store_Failed Err_Quota then (429, Denied ''quota_exceeded'')
      else if cause = Store_Failed Err_Missing \<or> cause = Read_Failed Not_Found_Error then (404, Denied ''event_not_found'')
      else if cause = Store_Failed Err_State then (409, Denied ''invalid_event_state'')
      else (503, Denied ''sandbox_unavailable''))"

text \<open>
  \<open>decode\<close> with the target's fields: one JSON value without unknown members and then, after white
  space, the end of a body of at most 1024 bytes.
\<close>

definition decode :: "(string \<times> json \<Rightarrow> 'a \<Rightarrow> 'a option) \<Rightarrow> 'a \<Rightarrow> request \<Rightarrow> 'a option" where
  "decode field target r =
     (case read_max 1024 r of
        None \<Rightarrow> None
      | Some body \<Rightarrow> Option.bind (json_read (text_of body)) (\<lambda>v. read_struct field v target))"

definition no_field :: "string \<times> json \<Rightarrow> unit \<Rightarrow> unit option" where
  "no_field member target = None"

definition input_field :: "string \<times> json \<Rightarrow> string \<Rightarrow> string option" where
  "input_field member target = (if names_field (fst member) ''scenario'' then string_field (snd member) target else None)"

section \<open>The handlers\<close>

definition Valid_handler :: "(string \<Rightarrow> url option) \<Rightarrow> handler \<Rightarrow> bool" where
  "Valid_handler parse_url h =
     (case parse_url (sh_origin h) of
        None \<Rightarrow> False
      | Some u \<Rightarrow> length (sh_key h) = 32 \<and> ul_scheme u = ''https'' \<and> ul_host u \<noteq> [] \<and>
          \<not> ul_user u \<and> ul_path u = [] \<and> ul_query u = [] \<and> ul_fragment u = [])"

text \<open>The second half of \<open>create\<close>, once no active session is found.\<close>

definition create_session :: "handler \<Rightarrow> surroundings \<Rightarrow> db \<Rightarrow> answer" where
  "create_session h env d =
     (case Cleanup (sr_nets env 1) (sr_clock env 1) (sr_locked env) (sr_others env 1 d) of
        (Inl e, d1) \<Rightarrow> (failure (Store_Failed e), d1, [])
      | (Inr _, d1) \<Rightarrow>
          (case Issue (sr_random env) (sh_key h) (sr_now env 1) of
             Inl e \<Rightarrow> (failure (Session_Failed e), d1, [])
           | Inr (ck, sid) \<Rightarrow>
               (case Create (sr_nets env 2) (sr_clock env 2) sid (ck_expires ck) (sr_others env 2 d1) of
                  (Inl e, d2) \<Rightarrow> (failure (Store_Failed e), d2, [])
                | (Inr _, d2) \<Rightarrow> ((201, Session_Created ck), d2, []))))"

definition create :: "handler \<Rightarrow> surroundings \<Rightarrow> request \<Rightarrow> db \<Rightarrow> answer" where
  "create h env r d =
     (case decode no_field () r of
        None \<Rightarrow> ((400, Denied ''invalid_request''), d, [])
      | Some _ \<Rightarrow>
          let cookies = sr_cookies env cookieName r
          in if cookies = [] then create_session h env d
             else if length cookies \<noteq> 1 then ((401, Denied ''invalid_session''), d, [])
             else (case Validate (sh_key h) (hd cookies) (sr_now env 0) of
                     Inl _ \<Rightarrow> create_session h env d
                   | Inr sid \<Rightarrow>
                       (case Active (sr_nets env 0 0) (sr_clock env 0 0) sid d of
                          Inr _ \<Rightarrow> ((200, Session_Active), d, [])
                        | Inl e \<Rightarrow>
                            if e \<noteq> Err_Session then (failure (Store_Failed e), d, [])
                            else create_session h env d)))"

definition list_events :: "surroundings \<Rightarrow> string \<Rightarrow> db \<Rightarrow> answer" where
  "list_events env sid d =
     (case List_events (sr_nets env 1 0) (''sandbox:'' @ sid) [] 20 d of
        Inl e \<Rightarrow> (failure (Read_Failed e), d, [])
      | Inr values \<Rightarrow> ((200, Visitor_Events values), d, []))"

definition detail_event :: "surroundings \<Rightarrow> string \<Rightarrow> string \<Rightarrow> db \<Rightarrow> answer" where
  "detail_event env event_id sid d =
     (if \<not> ValidUUID event_id then ((400, Denied ''invalid_request''), d, [])
      else case Detail (sr_nets env 1) (sr_others env 2 d) event_id (''sandbox:'' @ sid) d of
        Inl e \<Rightarrow> (failure (Read_Failed e), d, [])
      | Inr value \<Rightarrow> ((200, Visitor_Event value), d, []))"

definition submit :: "surroundings \<Rightarrow> request \<Rightarrow> string \<Rightarrow> db \<Rightarrow> answer" where
  "submit env r sid d =
     (case decode input_field [] r of
        None \<Rightarrow> ((400, Denied ''invalid_request''), d, [])
      | Some scenario \<Rightarrow>
          if \<not> ValidScenario scenario then ((400, Denied ''invalid_request''), d, [])
          else (case Submit (sr_random env) (sr_nets env 1) (sr_clock env 1) (sr_publisher env) sid scenario d of
                  (Inl e, d1, hints) \<Rightarrow> (failure (Store_Failed e), d1, hints)
                | (Inr event_id, d1, hints) \<Rightarrow> ((202, Submitted event_id), d1, hints)))"

definition replay :: "surroundings \<Rightarrow> request \<Rightarrow> string \<Rightarrow> string \<Rightarrow> db \<Rightarrow> answer" where
  "replay env r event_id sid d =
     (case decode no_field () r of
        None \<Rightarrow> ((400, Denied ''invalid_request''), d, [])
      | Some _ \<Rightarrow>
          if \<not> ValidUUID event_id then ((400, Denied ''invalid_request''), d, [])
          else (case Sandbox_Replay (sr_nets env 1) (sr_clock env 1) (sr_publisher env) sid event_id d of
                  (Inl e, d1, hints) \<Rightarrow> (failure (Store_Failed e), d1, hints)
                | (Inr _, d1, hints) \<Rightarrow> ((202, Replayed), d1, hints)))"

datatype visitor_route = List_Route | Submit_Route | Detail_Route | Replay_Route

definition visitor_routes :: "(string \<times> segment list \<times> visitor_route) list" where
  "visitor_routes =
     [(''GET'', [Lit ''v1'', Lit ''sandbox'', Lit ''events''], List_Route),
      (''POST'', [Lit ''v1'', Lit ''sandbox'', Lit ''events''], Submit_Route),
      (''GET'', [Lit ''v1'', Lit ''sandbox'', Lit ''events'', Wild ''id''], Detail_Route),
      (''POST'', [Lit ''v1'', Lit ''sandbox'', Lit ''events'', Wild ''id'', Lit ''replay''], Replay_Route)]"

definition serve_visitor :: "surroundings \<Rightarrow> request \<Rightarrow> string \<Rightarrow> db \<Rightarrow> answer" where
  "serve_visitor env r sid d =
     (case serve_mux visitor_routes r of
        Inl status \<Rightarrow> ((status, Unrouted), d, [])
      | Inr (List_Route, _) \<Rightarrow> list_events env sid d
      | Inr (Submit_Route, _) \<Rightarrow> submit env r sid d
      | Inr (Detail_Route, values) \<Rightarrow> detail_event env (path_value ''id'' values) sid d
      | Inr (Replay_Route, values) \<Rightarrow> replay env r (path_value ''id'' values) sid d)"

definition ServeHTTP :: "(string \<Rightarrow> url option) \<Rightarrow> handler \<Rightarrow> surroundings \<Rightarrow> request \<Rightarrow> db \<Rightarrow> answer" where
  "ServeHTTP parse_url h env r d =
     (if \<not> Valid_handler parse_url h then ((503, Denied ''sandbox_unavailable''), d, [])
      else if header_get ''Authorization'' r \<noteq> [] then ((401, Denied ''invalid_session''), d, [])
      else if hr_method r = ''POST'' \<and> header_get ''Origin'' r \<noteq> sh_origin h
        then ((403, Denied ''invalid_origin''), d, [])
      else if hr_method r = ''POST'' \<and> header_get ''Content-Type'' r \<noteq> ''application/json''
        then ((400, Denied ''invalid_request''), d, [])
      else if url_path r = ''/v1/sandbox/session'' \<and> hr_method r = ''POST'' then create h env r d
      else
        let cookies = sr_cookies env cookieName r
        in if length cookies \<noteq> 1 then ((401, Denied ''invalid_session''), d, [])
           else (case Validate (sh_key h) (hd cookies) (sr_now env 0) of
                   Inl _ \<Rightarrow> ((401, Denied ''invalid_session''), d, [])
                 | Inr sid \<Rightarrow>
                     (case Active (sr_nets env 0 0) (sr_clock env 0 0) sid d of
                        Inl e \<Rightarrow> (failure (Store_Failed e), d, [])
                      | Inr _ \<Rightarrow> serve_visitor env r sid (sr_others env 1 d))))"

section \<open>Visitors are separated\<close>

text \<open>A change that leaves alone every row that is not of the session, and every recorded attempt.\<close>

definition changes_only :: "string \<Rightarrow> db \<Rightarrow> db \<Rightarrow> bool" where
  "changes_only sid d d' \<longleftrightarrow>
     filter (\<lambda>e. ev_sandbox e \<noteq> Some sid) (events d') = filter (\<lambda>e. ev_sandbox e \<noteq> Some sid) (events d) \<and>
     filter (\<lambda>s. ss_id s \<noteq> sid) (sessions d') = filter (\<lambda>s. ss_id s \<noteq> sid) (sessions d) \<and>
     attempts d' = attempts d"

text \<open>An answer that shows nothing but events of the session.\<close>

definition shows_only :: "string \<Rightarrow> db \<Rightarrow> sandbox_reply \<Rightarrow> bool" where
  "shows_only sid d reply \<longleftrightarrow>
     (case reply of
        Visitor_Events rows \<Rightarrow> set rows \<subseteq> summary_of ` {e \<in> set (events d). ev_sandbox e = Some sid}
      | Visitor_Event det \<Rightarrow> de_summary det \<in> summary_of ` {e \<in> set (events d). ev_sandbox e = Some sid}
      | _ \<Rightarrow> True)"

lemma changes_only_refl [simp]: "changes_only sid d d"
  by (simp add: changes_only_def)

lemma failure_shows [simp]: "shows_only sid d (snd (failure cause))"
  by (simp add: failure_def shows_only_def)

lemma sandbox_source:
  assumes "tenancy_ok d" and "e \<in> set (events d)" and "ev_source e = ''sandbox:'' @ sid"
  shows "ev_sandbox e = Some sid"
proof (cases "ev_sandbox e")
  case None
  with tenancy_okD [OF assms(1,2)] assms(3) show ?thesis by (simp add: tenancy_row_def)
next
  case (Some sid')
  with tenancy_okD [OF assms(1,2)] assms(3) show ?thesis by (simp add: tenancy_row_def visitor_row_def)
qed

lemma used_session_others:
  "filter (\<lambda>s. ss_id s \<noteq> sid) (map (used_session now sid) ss) = filter (\<lambda>s. ss_id s \<noteq> sid) ss"
  by (induction ss) (auto simp: used_session_def)

lemma Submit_changes:
  assumes "schema_ok d" and "Submit random nets clock publisher sid sc d = (r, d', hints)"
  shows "changes_only sid d d'"
  using assms by (cases rule: Submit_cases) (auto simp: changes_only_def used_session_others)

lemma replayed_others:
  assumes "\<forall>x \<in> set es. ev_id x = i \<longrightarrow> ev_sandbox x = Some sid"
  shows "filter (\<lambda>e. ev_sandbox e \<noteq> Some sid) (map (sandbox_replay_row i now) es) = filter (\<lambda>e. ev_sandbox e \<noteq> Some sid) es"
  using assms by (induction es) (auto simp: sandbox_replay_row_def)

lemma Replay_changes:
  assumes "schema_ok d" and "Sandbox_Replay nets clock publisher sid i d = (r, d', hints)"
  shows "changes_only sid d d'"
  using assms(2)
proof (cases rule: Sandbox_Replay_cases)
  case (replayed e b)
  have "\<forall>x \<in> set (events d). ev_id x = i \<longrightarrow> ev_sandbox x = Some sid"
    using schema_ok_same_id [OF assms(1) _ replayed(1)] replayed(2,3) by metis
  from replayed_others [OF this] show ?thesis by (simp add: replayed(7) changes_only_def)
qed simp

lemma List_shows:
  assumes "tenancy_ok d" and "List_events n (''sandbox:'' @ sid) [] limit d = Inr rows"
  shows "set rows \<subseteq> summary_of ` {e \<in> set (events d). ev_sandbox e = Some sid}"
proof -
  let ?shown = "take (unat limit) (newest_first (filter (list_where (''sandbox:'' @ sid) []) (events d)))"
  have "set ?shown \<subseteq> {e \<in> set (events d). ev_source e = ''sandbox:'' @ sid}"
    by (auto simp: list_where_def dest!: in_set_takeD)
  with sandbox_source [OF assms(1)] have "set ?shown \<subseteq> {e \<in> set (events d). ev_sandbox e = Some sid}" by blast
  moreover have "rows = map summary_of ?shown"
    using assms(2) by (auto simp: List_events_def query_def split: if_splits net.splits sum.splits)
  ultimately show ?thesis by auto
qed

lemma Detail_shows:
  assumes "tenancy_ok d" and "Detail nets later i (''sandbox:'' @ sid) d = Inr det"
  shows "de_summary det \<in> summary_of ` {e \<in> set (events d). ev_sandbox e = Some sid}"
proof -
  obtain e where "List.find (\<lambda>e. ev_id e = i \<and> ev_source e = ''sandbox:'' @ sid) (events d) = Some e"
    and det: "de_summary det = summary_of e"
    using assms(2) by (auto simp: Detail_def query_def split: sum.splits option.splits if_splits net.splits)
  then have "e \<in> set (events d)" "ev_source e = ''sandbox:'' @ sid" by (auto simp: find_Some_iff)
  with det sandbox_source [OF assms(1)] show ?thesis by auto
qed

lemma serve_visitor_isolated:
  assumes "schema_ok d" and "tenancy_ok d" and "serve_visitor env r sid d = ((status, reply), d', hints)"
  shows "changes_only sid d d' \<and> shows_only sid d reply"
proof (cases "serve_mux visitor_routes r")
  case (Inl code)
  with assms(3) show ?thesis by (auto simp: serve_visitor_def shows_only_def)
next
  case (Inr target)
  obtain route wild where target: "target = (route, wild)" by fastforce
  have fail: "failure cause = (status, reply) \<Longrightarrow> shows_only sid d reply" for cause
    using failure_shows [of sid d cause] by simp
  show ?thesis
  proof (cases route)
    case List_Route
    with Inr target assms(3) List_shows [OF assms(2)] fail show ?thesis
      by (auto simp: serve_visitor_def list_events_def shows_only_def split: sum.splits)
  next
    case Detail_Route
    with Inr target assms(3) Detail_shows [OF assms(2)] fail show ?thesis
      by (auto simp: serve_visitor_def detail_event_def shows_only_def split: sum.splits if_splits)
  next
    case Submit_Route
    with Inr target assms(3) Submit_changes [OF assms(1)] fail show ?thesis
      by (auto simp: serve_visitor_def submit_def shows_only_def split: sum.splits if_splits option.splits prod.splits)
  next
    case Replay_Route
    with Inr target assms(3) Replay_changes [OF assms(1)] fail show ?thesis
      by (auto simp: serve_visitor_def replay_def shows_only_def split: sum.splits if_splits option.splits prod.splits)
  qed
qed

lemma Active_Inr: "Active n now sid d = Inr u \<longleftrightarrow> n = Done \<and> session_live d now sid"
  by (auto simp: Active_def and_then_Inr_iff query_row_def query_def split: net.splits)

lemma failure_denied: "\<exists>code. snd (failure cause) = Denied code"
  by (simp add: failure_def)

text \<open>
  C5: a visitor reaches nothing but the visitor's own session.  Except for the request that starts a session,
  whatever changes the database or answers with data carries no operator credential, comes from
  the configured origin if it is a \<open>POST\<close>, and has exactly one cookie, an authentic and unexpired
  credential of a session that is live in the database; and then the rows of the operator and of
  every other session, and all recorded attempts, stay as they were, and only events of that
  session are shown.
\<close>

theorem ServeHTTP_isolated:
  assumes run: "ServeHTTP parse_url h env r d = ((status, reply), d', hints)"
    and other: "hr_method r \<noteq> ''POST'' \<or> url_path r \<noteq> ''/v1/sandbox/session''"
    and ok: "schema_ok (sr_others env 1 d)" "tenancy_ok (sr_others env 1 d)"
  shows "(d' = d \<and> hints = [] \<and> (\<exists>code. reply = Denied code)) \<or>
    (\<exists>token sid. header_get ''Authorization'' r = [] \<and>
       (hr_method r = ''POST'' \<longrightarrow>
          header_get ''Origin'' r = sh_origin h \<and> header_get ''Content-Type'' r = ''application/json'') \<and>
       sr_cookies env cookieName r = [token] \<and> Validate (sh_key h) token (sr_now env 0) = Inr sid \<and>
       session_live d (sr_clock env 0 0) sid \<and>
       changes_only sid (sr_others env 1 d) d' \<and> shows_only sid (sr_others env 1 d) reply)"
proof (cases "\<exists>token sid. header_get ''Authorization'' r = [] \<and>
       (hr_method r = ''POST'' \<longrightarrow>
          header_get ''Origin'' r = sh_origin h \<and> header_get ''Content-Type'' r = ''application/json'') \<and>
       sr_cookies env cookieName r = [token] \<and> Validate (sh_key h) token (sr_now env 0) = Inr sid \<and>
       Active (sr_nets env 0 0) (sr_clock env 0 0) sid d = Inr () \<and> Valid_handler parse_url h")
  case True
  then obtain token sid where admitted: "header_get ''Authorization'' r = []"
    "hr_method r = ''POST'' \<longrightarrow>
       header_get ''Origin'' r = sh_origin h \<and> header_get ''Content-Type'' r = ''application/json''"
    "sr_cookies env cookieName r = [token]" "Validate (sh_key h) token (sr_now env 0) = Inr sid"
    "Active (sr_nets env 0 0) (sr_clock env 0 0) sid d = Inr ()" "Valid_handler parse_url h" by blast
  then have "serve_visitor env r sid (sr_others env 1 d) = ((status, reply), d', hints)"
    using run other by (auto simp: ServeHTTP_def)
  from serve_visitor_isolated [OF ok this] admitted show ?thesis by (auto simp: Active_Inr)
next
  case False
  have denied: "failure cause = (status, reply) \<Longrightarrow> \<exists>code. reply = Denied code" for cause
    using failure_denied [of cause] by simp
  have "d' = d \<and> hints = [] \<and> (\<exists>code. reply = Denied code)"
  proof (cases "sr_cookies env cookieName r")
    case Nil
    with run other show ?thesis by (auto simp: ServeHTTP_def split: if_splits)
  next
    case (Cons token more)
    with run other False denied show ?thesis
      by (auto simp: ServeHTTP_def Let_def split: if_splits sum.splits)
  qed
  then show ?thesis ..
qed

section \<open>Starting a session\<close>

lemma Create_Inr:
  assumes "Create nets clock sid expiry d = (Inr u, d')"
  shows "sessions d' = sessions d @ [\<lparr> ss_id = sid, ss_expires = pg_time expiry, ss_events = 0 \<rparr>] \<and> events d' = events d \<and>
    sid \<notin> ss_id ` set (sessions d) \<and> length (sessions d) < 1000"
  using assms
proof (cases rule: Create_cases)
  case (committed b)
  have "sid \<notin> ss_id ` set (sessions d)"
    using committed(2,3) by (auto simp: schema_defs)
  moreover have "length (sessions d) < 1000"
    using assms unfolding Create_def
    by (auto simp: transaction_def and_then_Inr_iff exec_Inr count_session_def update_budget_def commit_def
        split: sum.splits if_splits option.splits prod.splits dest!: admission_Inr)
  ultimately show ?thesis by (simp add: committed(3))
qed simp

lemma create_session_created:
  assumes "create_session h env d = ((201, reply), d', hints)"
  obtains ck sid d1 where "reply = Session_Created ck" and "Issue (sr_random env) (sh_key h) (sr_now env 1) = Inr (ck, sid)"
    and "Create (sr_nets env 2) (sr_clock env 2) sid (ck_expires ck) (sr_others env 2 d1) = (Inr (), d')"
    and "Cleanup (sr_nets env 1) (sr_clock env 1) (sr_locked env) (sr_others env 1 d) = (Inr (), d1)"
proof -
  have no: "failure cause \<noteq> (201, x)" for cause x by (simp add: failure_def)
  show ?thesis
    using assms no by (auto simp: create_session_def split: sum.splits prod.splits intro: that)
qed


section \<open>The properties on a concrete sandbox\<close>

definition sample_handler :: handler where
  "sample_handler = \<lparr> sh_key = replicate 32 1, sh_origin = ''https://relay.example'' \<rparr>"

definition sample_parse :: "string \<Rightarrow> url option" where
  "sample_parse raw = (if raw = ''https://relay.example''
     then Some \<lparr> ul_scheme = ''https'', ul_user = False, ul_host = ''relay.example'', ul_path = [], ul_raw_path = [],
            ul_query = [], ul_fragment = [] \<rparr>
     else None)"

definition sample_token :: string where
  "sample_token = (let payload = sample_sid @ ''.'' @ format_int 1000001800
     in payload @ ''.'' @ sessionMAC (replicate 32 1) payload)"

definition sample_surroundings :: surroundings where
  "sample_surroundings = \<lparr> sr_now = (\<lambda>_. from_unix 1000000000), sr_nets = (\<lambda>_ _. Done), sr_clock = (\<lambda>_ _. 0),
     sr_others = (\<lambda>_ d. d), sr_locked = (\<lambda>_. False), sr_random = Some (replicate 16 0), sr_publisher = None,
     sr_cookies = (\<lambda>_ _. [sample_token]) \<rparr>"

definition sample_submit :: request where
  "sample_submit = \<lparr> hr_method = ''POST'', hr_path = [''v1'', ''sandbox'', ''events''], hr_query = [],
     hr_headers = [(''Origin'', ''https://relay.example''), (''Content-Type'', ''application/json'')],
     hr_body = bytes_of (one_member ''scenario'' ''success''), hr_broken = False \<rparr>"

lemma sample_handler_valid: "Valid_handler sample_parse sample_handler"
  by (simp add: Valid_handler_def sample_parse_def sample_handler_def)

lemma sample_token_valid: "Validate (replicate 32 1) sample_token (from_unix 1000000000) = Inr sample_sid"
proof -
  have nat: "format_int 1000001800 = format_nat 1000001800" by (simp add: format_int_def)
  have len: "length (format_int 1000001800) = 10"
    unfolding nat by (intro length_format_nat [of 9, simplified]) simp_all
  have parse: "parse_int64 (format_int 1000001800) = Some 1000001800"
    by (intro parse_int64_format_int) simp_all
  have no_dot: "CHR ''.'' \<notin> set (format_int 1000001800)" unfolding nat by (rule dot_notin_format_nat)
  have hex: "hex_decode sample_sid \<noteq> None" "CHR ''.'' \<notin> set sample_sid"
    by (simp_all add: sample_sid_def eval_nat_numeral unhex_def Let_def)
  show ?thesis
    using Validate_three_parts [of "replicate 32 1" sample_sid "format_int 1000001800"
        "sessionMAC (replicate 32 1) (sample_sid @ ''.'' @ format_int 1000001800)" "from_unix 1000000000"]
      len parse no_dot hex
    by (simp add: sample_token_def)
qed

lemma sample_submit_decode: "decode input_field [] sample_submit = Some ''success''"
proof -
  have "json_read (one_member ''scenario'' ''success'') = Some (J_Object [(''scenario'', J_String ''success'')])"
    by (rule json_read_member) (simp_all add: plain_def)
  then show ?thesis
    by (simp add: decode_def read_max_def sample_submit_def read_struct_def input_field_def names_field_def string_field_def
        char_between_def)
qed

lemma sample_submit_served:
  "ServeHTTP sample_parse sample_handler sample_surroundings sample_submit sample_sandbox =
     submit sample_surroundings sample_submit sample_sid sample_sandbox"
proof -
  have "Active Done 0 sample_sid sample_sandbox = Inr ()"
    by (simp add: Active_Inr session_live_def duration_defs)
  then show ?thesis
    using sample_handler_valid sample_token_valid
    by (simp add: ServeHTTP_def serve_visitor_def visitor_routes_def match_method_def sample_surroundings_def sample_submit_def
        header_get_def header_values_def sample_handler_def url_path_def)
qed

lemma sample_submit_stored:
  "\<exists>i d'. Submit (Some (replicate 16 0)) (\<lambda>_. Done) (\<lambda>_. 0) None sample_sid ''success'' sample_sandbox = (Inr i, d', [])"
proof -
  have len: "length (replicate 16 (0 :: byte)) = 16" by simp
  have new: "sample_cid \<notin> ev_id ` set (events sample_sandbox)"
    using NewUUID_length [OF sample_uuid len] by (auto dest: arg_cong [where f = length])
  have answered: "\<forall>k. (\<lambda>_. Done) (k :: nat) = Done" by simp
  have usable: "session_usable sample_sandbox 0 sample_sid"
    by (simp add: session_usable_def duration_defs)
  show ?thesis
    using Submit_run [OF sample_sandbox_ok _ answered sample_uuid len new, of sample_budget "\<lambda>_. 0" None sample_sid "''success''"]
      usable by (simp add: sample_scenario AfterCommit_def)
qed

theorem ServeHTTP_isolated_witness:
  "\<exists>i d'. ServeHTTP sample_parse sample_handler sample_surroundings sample_submit sample_sandbox = ((202, Submitted i), d', []) \<and>
     changes_only sample_sid sample_sandbox d'"
proof -
  obtain i d' where stored:
    "Submit (Some (replicate 16 0)) (\<lambda>_. Done) (\<lambda>_. 0) None sample_sid ''success'' sample_sandbox = (Inr i, d', [])"
    using sample_submit_stored by blast
  then have run: "ServeHTTP sample_parse sample_handler sample_surroundings sample_submit sample_sandbox =
      ((202, Submitted i), d', [])"
    unfolding sample_submit_served by (simp add: submit_def sample_submit_decode sample_scenario sample_surroundings_def)
  have "hr_method sample_submit \<noteq> ''POST'' \<or> url_path sample_submit \<noteq> ''/v1/sandbox/session''"
    by (simp add: sample_submit_def url_path_def)
  moreover have "schema_ok (sr_others sample_surroundings 1 sample_sandbox)" "tenancy_ok (sr_others sample_surroundings 1 sample_sandbox)"
    using sample_sandbox_ok by (simp_all add: sample_surroundings_def store_ok_def)
  ultimately have "\<exists>sid. Validate (sh_key sample_handler) sample_token (sr_now sample_surroundings 0) = Inr sid \<and>
      changes_only sid (sr_others sample_surroundings 1 sample_sandbox) d'"
    using ServeHTTP_isolated [OF run] by (auto simp: sample_surroundings_def)
  with run sample_token_valid show ?thesis by (simp add: sample_handler_def sample_surroundings_def)
qed

definition sample_start :: request where
  "sample_start = sample_submit\<lparr>hr_path := [''v1'', ''sandbox'', ''session''], hr_body := bytes_of ''{}''\<rparr>"

definition newcomer :: surroundings where
  "newcomer = sample_surroundings\<lparr>sr_cookies := (\<lambda>_ _. [])\<rparr>"

lemma sample_cleanup: "Cleanup (\<lambda>_. Done) (\<lambda>_. 0) (\<lambda>_. False) sample_sandbox = (Inr (), sample_sandbox)"
proof -
  have "cleanup_ids (\<lambda>_. False) 0 sample_sandbox = []"
    by (simp add: cleanup_ids_def cleanup_where_def session_expired_def duration_defs)
  then show ?thesis
    using Cleanup_run [OF sample_sandbox_ok(1), of sample_budget "\<lambda>_. Done" "\<lambda>_. 0" "\<lambda>_. False"]
    by (simp add: swept_defs stale_sessions_def duration_defs)
qed


end
