(* ===== verification/Go_Strings.thy ===== *)
theory Go_Strings
  imports Go_Text Go_Utf8
begin

text \<open>
  More of the \<open>strings\<close>, \<open>io/fs\<close> and \<open>regexp\<close> routines that the configuration of the processes uses:
  splitting, trimming of white space, path checks, and the character classes of the patterns.
\<close>

section \<open>Splitting\<close>

text \<open>\<open>strings.Split\<close> at a one-byte separator.\<close>

fun split_all :: "char \<Rightarrow> string \<Rightarrow> string list" where
  "split_all sep [] = [[]]"
| "split_all sep (c # s) =
     (if c = sep then [] # split_all sep s
      else case split_all sep s of [] \<Rightarrow> [[c]] | p # ps \<Rightarrow> (c # p) # ps)"

lemma split_all_not_Nil [simp]: "split_all sep s \<noteq> []"
  by (cases s) (auto split: list.splits)

lemma split_all_none: "sep \<notin> set s \<Longrightarrow> split_all sep s = [s]"
  by (induction s) auto

lemma split_all_append: "sep \<notin> set a \<Longrightarrow> split_all sep (a @ sep # b) = a # split_all sep b"
  by (induction a) auto

lemma split_all_parts: "p \<in> set (split_all sep s) \<Longrightarrow> sep \<notin> set p"
  by (induction s arbitrary: p) (auto split: if_splits list.splits)

text \<open>The parts, joined again.\<close>

fun join :: "char \<Rightarrow> string list \<Rightarrow> string" where
  "join sep [] = []"
| "join sep [p] = p"
| "join sep (p # q # ps) = p @ sep # join sep (q # ps)"

lemma join_Cons: "ps \<noteq> [] \<Longrightarrow> join sep ((c # p) # ps) = c # join sep (p # ps)"
  by (cases ps) auto

lemma join_split_all: "join sep (split_all sep s) = s"
proof (induction s)
  case (Cons c s)
  obtain p ps where p: "split_all sep s = p # ps" by (cases "split_all sep s") auto
  with Cons show ?case by (cases ps) auto
qed simp

lemma split_all_two: "split_all sep s = [a, b] \<longleftrightarrow> s = a @ sep # b \<and> sep \<notin> set a \<and> sep \<notin> set b"
proof
  assume split: "split_all sep s = [a, b]"
  then have "s = a @ sep # b" using join_split_all [of sep s] by simp
  with split split_all_parts [of _ sep s] show "s = a @ sep # b \<and> sep \<notin> set a \<and> sep \<notin> set b" by simp
qed (simp add: split_all_append split_all_none)

section \<open>White space\<close>

text \<open>\<open>unicode.IsSpace\<close>, as the encodings of its runes.\<close>

definition space_runes :: "string list" where
  "space_runes =
     [[CHR 0x09], [CHR 0x0A], [CHR 0x0B], [CHR 0x0C], [CHR 0x0D], [CHR 0x20], [CHR 0xC2, CHR 0x85], [CHR 0xC2, CHR 0xA0],
      [CHR 0xE1, CHR 0x9A, CHR 0x80], [CHR 0xE2, CHR 0x80, CHR 0x80], [CHR 0xE2, CHR 0x80, CHR 0x81],
      [CHR 0xE2, CHR 0x80, CHR 0x82], [CHR 0xE2, CHR 0x80, CHR 0x83], [CHR 0xE2, CHR 0x80, CHR 0x84],
      [CHR 0xE2, CHR 0x80, CHR 0x85], [CHR 0xE2, CHR 0x80, CHR 0x86], [CHR 0xE2, CHR 0x80, CHR 0x87],
      [CHR 0xE2, CHR 0x80, CHR 0x88], [CHR 0xE2, CHR 0x80, CHR 0x89], [CHR 0xE2, CHR 0x80, CHR 0x8A],
      [CHR 0xE2, CHR 0x80, CHR 0xA8], [CHR 0xE2, CHR 0x80, CHR 0xA9], [CHR 0xE2, CHR 0x80, CHR 0xAF],
      [CHR 0xE2, CHR 0x81, CHR 0x9F], [CHR 0xE3, CHR 0x80, CHR 0x80]]"

function trim_left :: "string list \<Rightarrow> string \<Rightarrow> string" where
  "trim_left runes s =
     (case List.find (\<lambda>u. u \<noteq> [] \<and> has_prefix s u) runes of
        None \<Rightarrow> s
      | Some u \<Rightarrow> trim_left runes (drop (length u) s))"
  by pat_completeness auto
termination
proof (relation "measure (\<lambda>(_, s). length s)")
  fix runes and s u :: string
  assume "List.find (\<lambda>u. u \<noteq> [] \<and> has_prefix s u) runes = Some u"
  then have "u \<noteq> []" "has_prefix s u" by (auto simp: find_Some_iff)
  then show "((runes, drop (length u) s), (runes, s)) \<in> measure (\<lambda>(_, s). length s)"
    by (auto elim!: has_prefixE)
qed simp

declare trim_left.simps [simp del]

text \<open>\<open>strings.TrimSpace\<close>: no space rune is the end of another rune's encoding.\<close>

definition trim_space :: "string \<Rightarrow> string" where
  "trim_space s = rev (trim_left (map rev space_runes) (rev (trim_left space_runes s)))"

lemma trim_left_length: "length (trim_left runes s) \<le> length s"
proof (induction runes s rule: trim_left.induct)
  case (1 runes s)
  show ?case
  proof (cases "List.find (\<lambda>u. u \<noteq> [] \<and> has_prefix s u) runes")
    case (Some u)
    from 1 [OF Some] show ?thesis by (subst trim_left.simps) (simp add: Some)
  qed (subst trim_left.simps, simp)
qed

lemma trim_space_length: "length (trim_space s) \<le> length s"
  using trim_left_length [of "map rev space_runes" "rev (trim_left space_runes s)"] trim_left_length [of space_runes s]
  by (simp add: trim_space_def)

section \<open>Paths\<close>

text \<open>\<open>fs.ValidPath\<close>: its loop looks at one element after the other.\<close>

definition ValidPath :: "string \<Rightarrow> bool" where
  "ValidPath name \<longleftrightarrow> utf8_valid (bytes_of name) \<and>
     (name = ''.'' \<or> list_all (\<lambda>e. e \<noteq> [] \<and> e \<noteq> ''.'' \<and> e \<noteq> ''..'') (split_all CHR ''/'' name))"

section \<open>Character classes\<close>

definition is_lower :: "char \<Rightarrow> bool" where "is_lower c \<longleftrightarrow> char_between CHR ''a'' CHR ''z'' c"
definition is_upper :: "char \<Rightarrow> bool" where "is_upper c \<longleftrightarrow> char_between CHR ''A'' CHR ''Z'' c"
definition is_decimal :: "char \<Rightarrow> bool" where "is_decimal c \<longleftrightarrow> char_between CHR ''0'' CHR ''9'' c"

lemmas class_defs = is_lower_def is_upper_def is_decimal_def char_between_def

end
