(* ===== verification/Database_Tls.thy ===== *)
theory Database_Tls
  imports Relay_Prelude Go_Strings
begin

unbundle bit_operations_syntax

text \<open>
  The trust configuration of database connections, \<open>internal/postgres/tls.go\<close>.  \<open>pem.Decode\<close> and
  \<open>x509.ParseCertificate\<close> are arguments: the next well-formed block of a text with the text behind it,
  whatever precedes that block being passed over, and the certificate in the bytes of a block;
  \<open>None\<close> where they find none.
\<close>

section \<open>Certificates\<close>

record pem_block =
  pb_type :: string
  pb_headers :: "(string \<times> string) list"
  pb_bytes :: bytes

record certificate =
  ct_raw :: bytes
  ct_is_ca :: bool
  ct_key_usage :: nat
  ct_not_before :: time
  ct_not_after :: time

type_synonym pem_decode = "string \<Rightarrow> (pem_block \<times> string) option"
type_synonym parse_certificate = "bytes \<Rightarrow> certificate option"

definition KeyUsageCertSign :: nat where "KeyUsageCertSign = 32"

text \<open>\<open>now.Before(NotBefore) || !now.Before(NotAfter)\<close>.\<close>

definition outside_validity :: "time \<Rightarrow> certificate \<Rightarrow> bool" where
  "outside_validity now c \<longleftrightarrow> now < ct_not_before c \<or> \<not> now < ct_not_after c"

definition cannot_sign :: "certificate \<Rightarrow> bool" where
  "cannot_sign c \<longleftrightarrow> ct_key_usage c \<noteq> 0 \<and> ct_key_usage c AND KeyUsageCertSign = 0"

section \<open>The bundle of trust anchors\<close>

definition databaseCABytesMax :: nat where "databaseCABytesMax = 32 * 1024"
definition databaseCACountMax :: nat where "databaseCACountMax = 2"

datatype tls_error =
    Invalid_Requirement
  | CA_Required
  | Hostname_TLS_Required
  | Fallback_Targets
  | Maximum_Version
  | Bundle_Too_Large
  | Invalid_Encoding
  | Invalid_Certificate
  | Not_CA
  | Excludes_Signing
  | Outside_Validity
  | Anchor_Count

definition begin_certificate :: string where
  "begin_certificate = ''-----BEGIN CERTIFICATE-----''"

text \<open>
  One turn of the loop: the anchor that \<open>decode\<close> finds in a remainder that starts like a certificate, and
  the text behind it.
\<close>

definition next_anchor ::
  "pem_decode \<Rightarrow> parse_certificate \<Rightarrow> time \<Rightarrow> string \<Rightarrow> tls_error + certificate \<times> string" where
  "next_anchor decode parse now remainder =
     (if \<not> has_prefix remainder begin_certificate then Inl Invalid_Encoding
      else case decode remainder of
        None \<Rightarrow> Inl Invalid_Encoding
      | Some (block, rest) \<Rightarrow>
          if pb_type block \<noteq> ''CERTIFICATE'' \<or> length (pb_headers block) \<noteq> 0 then Inl Invalid_Encoding
          else case parse (pb_bytes block) of
            None \<Rightarrow> Inl Invalid_Certificate
          | Some c \<Rightarrow>
              if \<not> ct_is_ca c then Inl Not_CA
              else if cannot_sign c then Inl Excludes_Signing
              else if outside_validity now c then Inl Outside_Validity
              else Inr (c, rest))"

text \<open>A pool keeps one copy of each certificate.\<close>

definition AddCert :: "certificate \<Rightarrow> certificate list \<Rightarrow> certificate list" where
  "AddCert c roots = (if ct_raw c \<in> ct_raw ` set roots then roots else roots @ [c])"

function anchors_loop ::
  "pem_decode \<Rightarrow> parse_certificate \<Rightarrow> time \<Rightarrow> nat \<Rightarrow> certificate list \<Rightarrow> string \<Rightarrow>
   tls_error + nat \<times> certificate list \<times> string" where
  "anchors_loop decode parse now count roots remainder =
     (if count < databaseCACountMax \<and> remainder \<noteq> []
      then case next_anchor decode parse now remainder of
             Inl e \<Rightarrow> Inl e
           | Inr (c, rest) \<Rightarrow> anchors_loop decode parse now (count + 1) (AddCert c roots) (trim_space rest)
      else Inr (count, roots, remainder))"
  by pat_completeness auto
termination
  by (relation "measure (\<lambda>(decode, parse, now, count, roots, remainder). databaseCACountMax - count)") auto

declare anchors_loop.simps [simp del]

definition databaseCARoots ::
  "pem_decode \<Rightarrow> parse_certificate \<Rightarrow> string \<Rightarrow> time \<Rightarrow> tls_error + certificate list" where
  "databaseCARoots decode parse content now =
     (if length content > databaseCABytesMax then Inl Bundle_Too_Large
      else case anchors_loop decode parse now 0 [] (trim_space content) of
        Inl e \<Rightarrow> Inl e
      | Inr (count, roots, remainder) \<Rightarrow>
          if count = 0 \<or> remainder \<noteq> [] then Inl Anchor_Count else Inr roots)"

section \<open>The connection\<close>

text \<open>Versions are the numbers of \<open>crypto/tls\<close>; no version is 0.\<close>

definition VersionTLS12 :: nat where "VersionTLS12 = 0x303"

record tls_config =
  tc_skip_verify :: bool
  tc_server_name :: string
  tc_min :: nat
  tc_max :: nat
  tc_roots :: "certificate list option"

record conn_config =
  cc_tls :: "tls_config option"
  cc_fallbacks :: nat

record tls_options =
  to_ca_pem :: string
  to_required :: string

text \<open>The outer \<open>None\<close> is a panic; a rejection leaves the configuration as it is.\<close>

definition ConfigureTLS ::
  "pem_decode \<Rightarrow> parse_certificate \<Rightarrow> time \<Rightarrow> conn_config option \<Rightarrow> tls_options option \<Rightarrow>
   (tls_error option \<times> conn_config) option" where
  "ConfigureTLS decode parse now configuration options =
     (case (configuration, options) of
        (Some c, Some opts) \<Rightarrow>
          Some (
            if to_required opts \<noteq> [] \<and> to_required opts \<noteq> ''false'' \<and> to_required opts \<noteq> ''true''
              then (Some Invalid_Requirement, c)
            else if to_ca_pem opts = []
              then (if to_required opts = ''true'' then (Some CA_Required, c) else (None, c))
            else case cc_tls c of
              None \<Rightarrow> (Some Hostname_TLS_Required, c)
            | Some current \<Rightarrow>
                if tc_skip_verify current \<or> tc_server_name current = [] then (Some Hostname_TLS_Required, c)
                else if cc_fallbacks c \<noteq> 0 then (Some Fallback_Targets, c)
                else
                  let minimumVersion = max (tc_min current) VersionTLS12
                  in if tc_max current \<noteq> 0 \<and> tc_max current < minimumVersion then (Some Maximum_Version, c)
                     else (case databaseCARoots decode parse (to_ca_pem opts) now of
                             Inl e \<Rightarrow> (Some e, c)
                           | Inr roots \<Rightarrow>
                               (None, c\<lparr>cc_tls := Some (current\<lparr>tc_roots := Some roots, tc_min := minimumVersion\<rparr>)\<rparr>)))
      | _ \<Rightarrow> None)"

section \<open>What a bundle spells\<close>

text \<open>
  The reference for the loop: a text spells a list of certificates if it is empty, or starts with the line
  that begins a certificate, the next block in it is a certificate without headers, and the text
  behind that block spells the rest, white space apart.
\<close>

inductive spells :: "pem_decode \<Rightarrow> parse_certificate \<Rightarrow> string \<Rightarrow> certificate list \<Rightarrow> bool" for decode parse where
  nothing: "spells decode parse [] []"
| anchor: "decode s = Some (block, rest) \<Longrightarrow> has_prefix s begin_certificate \<Longrightarrow>
     pb_type block = ''CERTIFICATE'' \<Longrightarrow> pb_headers block = [] \<Longrightarrow> parse (pb_bytes block) = Some c \<Longrightarrow>
     spells decode parse (trim_space rest) cs \<Longrightarrow> spells decode parse s (c # cs)"

inductive_simps spells_Nil: "spells decode parse s []"
inductive_simps spells_Cons: "spells decode parse s (c # cs)"

definition acceptable :: "time \<Rightarrow> certificate \<Rightarrow> bool" where
  "acceptable now c \<longleftrightarrow> ct_is_ca c \<and> (ct_key_usage c = 0 \<or> bit (ct_key_usage c) 5) \<and>
     ct_not_before c \<le> now \<and> now < ct_not_after c"

lemma cannot_sign_iff: "cannot_sign c \<longleftrightarrow> ct_key_usage c \<noteq> 0 \<and> \<not> bit (ct_key_usage c) 5"
proof -
  have "KeyUsageCertSign = 2 ^ 5" by (simp add: KeyUsageCertSign_def)
  moreover have "n AND 2 ^ 5 = 0 \<longleftrightarrow> \<not> bit n 5" for n :: nat
    by (metis and_exp_eq_0_iff_not_bit)
  ultimately show ?thesis by (simp add: cannot_sign_def)
qed

lemma next_anchor_Inr:
  "next_anchor decode parse now s = Inr (c, rest) \<longleftrightarrow>
     acceptable now c \<and> (\<exists>block. decode s = Some (block, rest) \<and> has_prefix s begin_certificate \<and>
       pb_type block = ''CERTIFICATE'' \<and> pb_headers block = [] \<and> parse (pb_bytes block) = Some c)"
  by (auto simp: next_anchor_def acceptable_def cannot_sign_iff outside_validity_def split: option.splits if_splits)

lemma spells_empty [simp]: "spells decode parse [] cs \<longleftrightarrow> cs = []"
proof
  show "spells decode parse [] cs \<Longrightarrow> cs = []"
    by (erule spells.cases) (auto simp: begin_certificate_def)
qed (simp add: spells.nothing)

lemma loop_spells:
  assumes "count \<le> databaseCACountMax"
  shows "anchors_loop decode parse now count roots s = Inr (n, rs, []) \<longleftrightarrow>
    (\<exists>cs. spells decode parse s cs \<and> list_all (acceptable now) cs \<and> n = count + length cs \<and>
       n \<le> databaseCACountMax \<and> rs = foldl (\<lambda>rs c. AddCert c rs) roots cs)"
  using assms
proof (induction decode parse now count roots s rule: anchors_loop.induct)
  case (1 decode parse now count roots s)
  show ?case
  proof (cases "count < databaseCACountMax \<and> s \<noteq> []")
    case more: True
    show ?thesis
    proof (cases "next_anchor decode parse now s")
      case (Inl e)
      have no: "\<not> list_all (acceptable now) cs" if "spells decode parse s cs" for cs
        using that
      proof cases
        case (anchor block rest c cs')
        have "next_anchor decode parse now s \<noteq> Inr (c, rest)" using Inl by simp
        with anchor show ?thesis by (simp add: next_anchor_Inr)
      qed (use more in simp)
      with more Inl show ?thesis by (subst anchors_loop.simps) auto
    next
      case (Inr p)
      obtain c rest where p: "p = (c, rest)" by fastforce
      note next_one = Inr [unfolded p, unfolded next_anchor_Inr]
      have spell: "spells decode parse s cs \<longleftrightarrow> (\<exists>cs'. cs = c # cs' \<and> spells decode parse (trim_space rest) cs')" for cs
      proof
        assume "spells decode parse s cs"
        then show "\<exists>cs'. cs = c # cs' \<and> spells decode parse (trim_space rest) cs'"
          by cases (use next_one more in auto)
      qed (use next_one in \<open>auto intro: spells.anchor\<close>)
      have "anchors_loop decode parse now count roots s =
          anchors_loop decode parse now (count + 1) (AddCert c roots) (trim_space rest)"
        using more Inr p by (subst anchors_loop.simps) simp
      with 1(1) [OF more Inr p [symmetric]] more next_one show ?thesis
        by (auto simp: spell)
    qed
  next
    case False
    show ?thesis
    proof (cases "s = []")
      case True
      with False 1(2) show ?thesis by (subst anchors_loop.simps) auto
    next
      case nonempty: False
      with False have full: "count = databaseCACountMax" using 1(2) by simp
      have "cs \<noteq> []" if "spells decode parse s cs" for cs
        using that nonempty by cases auto
      with nonempty full show ?thesis by (subst anchors_loop.simps) fastforce
    qed
  qed
qed

lemma databaseCARoots_iff:
  "databaseCARoots decode parse content now = Inr roots \<longleftrightarrow>
     length content \<le> 32 * 1024 \<and>
     (\<exists>cs. spells decode parse (trim_space content) cs \<and> (length cs = 1 \<or> length cs = 2) \<and>
        list_all (acceptable now) cs \<and> roots = foldl (\<lambda>rs c. AddCert c rs) [] cs)"
proof -
  let ?run = "anchors_loop decode parse now 0 [] (trim_space content)"
  have "databaseCARoots decode parse content now = Inr roots \<longleftrightarrow>
      length content \<le> 32 * 1024 \<and> (\<exists>n. ?run = Inr (n, roots, []) \<and> n \<noteq> 0)"
    by (auto simp: databaseCARoots_def databaseCABytesMax_def split: sum.splits if_splits)
  also have "\<dots> \<longleftrightarrow> length content \<le> 32 * 1024 \<and>
     (\<exists>cs. spells decode parse (trim_space content) cs \<and> (length cs = 1 \<or> length cs = 2) \<and>
        list_all (acceptable now) cs \<and> roots = foldl (\<lambda>rs c. AddCert c rs) [] cs)"
    by (subst loop_spells) (auto simp: databaseCACountMax_def le_Suc_eq numeral_2_eq_2)
  finally show ?thesis .
qed

lemma databaseCARoots_passes_over:
  assumes "decode (junk @ good) = decode good"
    and "has_prefix junk begin_certificate" and "has_prefix good begin_certificate"
    and "trim_space (junk @ good) = junk @ good" and "trim_space good = good" and "length (junk @ good) \<le> 32 * 1024"
  shows "databaseCARoots decode parse (junk @ good) now = databaseCARoots decode parse good now"
proof -
  from assms(2) obtain t where "junk = begin_certificate @ t" by (rule has_prefixE)
  then have "has_prefix (junk @ good) begin_certificate" using has_prefix_append [of begin_certificate "t @ good"] by simp
  then have "next_anchor decode parse now (junk @ good) = next_anchor decode parse now good"
    using assms(1,3) by (simp add: next_anchor_def)
  moreover have "good \<noteq> []" using assms(3) by (auto simp: has_prefix_def begin_certificate_def)
  ultimately have "anchors_loop decode parse now 0 [] (junk @ good) = anchors_loop decode parse now 0 [] good"
    by (simp add: anchors_loop.simps [of decode parse now 0 "[]" "junk @ good"] anchors_loop.simps [of decode parse now 0 "[]" good]
        databaseCACountMax_def)
  with assms(4-6) show ?thesis by (simp add: databaseCARoots_def databaseCABytesMax_def)
qed

text \<open>
  C33: the loop over the bundle, which stops after two certificates at the latest, accepts exactly the
  bundles of at most 32 KiB in which the blocks found one after the other are one or two certificates
  with no text behind the last, each of them a certificate authority that may sign and is valid now;
  the pool holds these certificates.  Each turn looks at the first line and at the block found, so
  the bundles that the contract forbids are not all refused: where the decoder passes over a
  malformed block, as \<open>pem.Decode\<close> does, that block may stand in front of the certificates of an
  accepted bundle.
\<close>

theorem databaseCARoots_spells:
  "(databaseCARoots decode parse content now = Inr roots \<longleftrightarrow>
      length content \<le> 32 * 1024 \<and>
      (\<exists>cs. spells decode parse (trim_space content) cs \<and> (length cs = 1 \<or> length cs = 2) \<and>
         list_all (acceptable now) cs \<and> roots = foldl (\<lambda>rs c. AddCert c rs) [] cs)) \<and>
   (\<forall>junk good. decode (junk @ good) = decode good \<and>
      has_prefix junk begin_certificate \<and> has_prefix good begin_certificate \<and>
      trim_space (junk @ good) = junk @ good \<and> trim_space good = good \<and> length (junk @ good) \<le> 32 * 1024 \<longrightarrow>
      databaseCARoots decode parse (junk @ good) now = databaseCARoots decode parse good now)"
  using databaseCARoots_iff databaseCARoots_passes_over by blast

lemma AddCert_acceptable:
  assumes "list_all P roots" and "P c"
  shows "list_all P (AddCert c roots) \<and> AddCert c roots \<noteq> [] \<and> length (AddCert c roots) \<le> Suc (length roots)"
  using assms by (auto simp: AddCert_def)

lemma foldl_AddCert:
  "list_all P roots \<Longrightarrow> list_all P cs \<Longrightarrow>
     list_all P (foldl (\<lambda>rs c. AddCert c rs) roots cs) \<and>
     length (foldl (\<lambda>rs c. AddCert c rs) roots cs) \<le> length roots + length cs \<and>
     (roots \<noteq> [] \<or> cs \<noteq> [] \<longrightarrow> foldl (\<lambda>rs c. AddCert c rs) roots cs \<noteq> [])"
proof (induction cs arbitrary: roots)
  case (Cons c cs)
  then have step: "list_all P (AddCert c roots) \<and> AddCert c roots \<noteq> [] \<and> length (AddCert c roots) \<le> Suc (length roots)"
    by (intro AddCert_acceptable) simp_all
  with Cons.IH [of "AddCert c roots"] Cons.prems(2) show ?case by simp
qed simp

lemma databaseCARoots_acceptable:
  assumes "databaseCARoots decode parse content now = Inr roots"
  shows "roots \<noteq> [] \<and> length roots \<le> 2 \<and> list_all (acceptable now) roots"
proof -
  obtain n where "anchors_loop decode parse now 0 [] (trim_space content) = Inr (n, roots, [])" "n \<noteq> 0"
    using assms by (auto simp: databaseCARoots_def split: sum.splits if_splits)
  then obtain cs where "list_all (acceptable now) cs" "length cs \<noteq> 0" "length cs \<le> 2"
    "roots = foldl (\<lambda>rs c. AddCert c rs) [] cs"
    using loop_spells [of 0 decode parse now "[]" "trim_space content" n roots] by (auto simp: databaseCACountMax_def)
  with foldl_AddCert [of "acceptable now" "[]" cs] show ?thesis by auto
qed

lemma ConfigureTLS_checked:
  assumes "ConfigureTLS decode parse now (Some c) (Some opts) = Some (err, c')"
  shows "(err \<noteq> None \<longrightarrow> c' = c) \<and>
    (err = None \<longrightarrow> c' = c \<and> to_ca_pem opts = [] \<and> to_required opts \<noteq> ''true'' \<or>
       (\<exists>current roots version. cc_tls c = Some current \<and> \<not> tc_skip_verify current \<and> tc_server_name current \<noteq> [] \<and>
          cc_fallbacks c = 0 \<and> 0x303 \<le> version \<and> tc_min current \<le> version \<and> (tc_max current = 0 \<or> version \<le> tc_max current) \<and>
          roots \<noteq> [] \<and> length roots \<le> 2 \<and> list_all (acceptable now) roots \<and>
          c' = c\<lparr>cc_tls := Some (current\<lparr>tc_roots := Some roots, tc_min := version\<rparr>)\<rparr>))"
proof (cases "to_ca_pem opts = []")
  case True
  with assms show ?thesis by (auto simp: ConfigureTLS_def split: if_splits)
next
  case pem: False
  show ?thesis
  proof (cases err)
    case (Some e)
    with assms pem show ?thesis
      by (auto simp: ConfigureTLS_def Let_def split: if_splits option.splits sum.splits)
  next
    case None
    then obtain current roots where ok: "cc_tls c = Some current" "\<not> tc_skip_verify current" "tc_server_name current \<noteq> []"
      "cc_fallbacks c = 0" "\<not> (tc_max current \<noteq> 0 \<and> tc_max current < max (tc_min current) VersionTLS12)"
      "databaseCARoots decode parse (to_ca_pem opts) now = Inr roots"
      "c' = c\<lparr>cc_tls := Some (current\<lparr>tc_roots := Some roots, tc_min := max (tc_min current) VersionTLS12\<rparr>)\<rparr>"
      using assms pem by (auto simp: ConfigureTLS_def Let_def split: if_splits option.splits sum.splits)
    define version where "version = max (tc_min current) VersionTLS12"
    have "0x303 \<le> version" "tc_min current \<le> version" by (simp_all add: version_def VersionTLS12_def)
    moreover have "tc_max current = 0 \<or> version \<le> tc_max current" using ok(5) by (auto simp: version_def)
    moreover have "c' = c\<lparr>cc_tls := Some (current\<lparr>tc_roots := Some roots, tc_min := version\<rparr>)\<rparr>"
      using ok(7) by (simp only: version_def)
    ultimately have "\<exists>current roots version. cc_tls c = Some current \<and> \<not> tc_skip_verify current \<and> tc_server_name current \<noteq> [] \<and>
          cc_fallbacks c = 0 \<and> 0x303 \<le> version \<and> tc_min current \<le> version \<and> (tc_max current = 0 \<or> version \<le> tc_max current) \<and>
          roots \<noteq> [] \<and> length roots \<le> 2 \<and> list_all (acceptable now) roots \<and>
          c' = c\<lparr>cc_tls := Some (current\<lparr>tc_roots := Some roots, tc_min := version\<rparr>)\<rparr>"
      using ok(1-4) databaseCARoots_acceptable [OF ok(6)] by blast
    with None show ?thesis by simp
  qed
qed

text \<open>
  C34: connections are never less protected than before.  A rejected configuration is left as it is; an
  accepted one is left as it is only when no trust anchor is given and none is required.  In every
  other case the connection goes on verifying the host name of its only target, over TLS 1.2 or
  later, against one or two anchors that were checked, and nothing else of it changes.
\<close>

theorem ConfigureTLS_protects:
  assumes "ConfigureTLS decode parse now (Some c) (Some opts) = Some (err, c')"
  shows "(err \<noteq> None \<longrightarrow> c' = c) \<and>
    (err = None \<longrightarrow> c' = c \<and> to_ca_pem opts = [] \<and> to_required opts \<noteq> ''true'' \<or>
       (\<exists>current roots version. cc_tls c = Some current \<and> \<not> tc_skip_verify current \<and> tc_server_name current \<noteq> [] \<and>
          cc_fallbacks c = 0 \<and> 0x303 \<le> version \<and> tc_min current \<le> version \<and> (tc_max current = 0 \<or> version \<le> tc_max current) \<and>
          roots \<noteq> [] \<and> length roots \<le> 2 \<and> list_all (acceptable now) roots \<and>
          c' = c\<lparr>cc_tls := Some (current\<lparr>tc_roots := Some roots, tc_min := version\<rparr>)\<rparr>))"
  using ConfigureTLS_checked [OF assms] .

section \<open>The properties on a concrete bundle\<close>

definition sample_anchor :: certificate where
  "sample_anchor = \<lparr> ct_raw = [1], ct_is_ca = True, ct_key_usage = 32, ct_not_before = 0, ct_not_after = 100 \<rparr>"

definition sample_decode :: pem_decode where
  "sample_decode s = (if has_prefix s begin_certificate
     then Some (\<lparr> pb_type = ''CERTIFICATE'', pb_headers = [], pb_bytes = [1] \<rparr>, [CHR 0x0A]) else None)"

definition sample_connection :: conn_config where
  "sample_connection = \<lparr> cc_tls = Some \<lparr> tc_skip_verify = False, tc_server_name = ''db'', tc_min = 0, tc_max = 0, tc_roots = None \<rparr>,
     cc_fallbacks = 0 \<rparr>"

lemma sample_bundle:
  assumes "decode begin_certificate = Some (\<lparr> pb_type = ''CERTIFICATE'', pb_headers = [], pb_bytes = [1] \<rparr>, [CHR 0x0A])"
  shows "databaseCARoots decode (\<lambda>_. Some sample_anchor) begin_certificate 50 = Inr [sample_anchor]"
proof -
  have trims: "trim_space [CHR 0x0A] = []" "trim_space begin_certificate = begin_certificate"
    by (simp_all add: trim_space_def space_runes_def trim_left.simps begin_certificate_def)
  have sign: "\<not> cannot_sign sample_anchor" by (simp add: cannot_sign_def KeyUsageCertSign_def sample_anchor_def)
  have one: "next_anchor decode (\<lambda>_. Some sample_anchor) 50 begin_certificate = Inr (sample_anchor, [CHR 0x0A])"
    using sign has_prefix_append [of begin_certificate "[]"]
    by (simp add: next_anchor_def assms outside_validity_def) (simp add: sample_anchor_def)
  have "begin_certificate \<noteq> []" "length begin_certificate \<le> databaseCABytesMax"
    by (simp_all add: begin_certificate_def databaseCABytesMax_def)
  then show ?thesis
    by (simp add: databaseCARoots_def trims anchors_loop.simps [of _ _ _ 0] anchors_loop.simps [of _ _ _ "Suc 0"]
        databaseCACountMax_def one AddCert_def)
qed

lemma sample_decode_begin:
  "sample_decode begin_certificate = Some (\<lparr> pb_type = ''CERTIFICATE'', pb_headers = [], pb_bytes = [1] \<rparr>, [CHR 0x0A])"
  using has_prefix_append [of begin_certificate "[]"] by (simp add: sample_decode_def)

theorem ConfigureTLS_protects_witness:
  "\<exists>c' tls. ConfigureTLS sample_decode (\<lambda>_. Some sample_anchor) 50 (Some sample_connection)
      (Some \<lparr> to_ca_pem = begin_certificate, to_required = ''true'' \<rparr>) = Some (None, c') \<and>
     cc_tls c' = Some tls \<and> 0x303 \<le> tc_min tls"
proof -
  have "databaseCARoots sample_decode (\<lambda>_. Some sample_anchor) begin_certificate 50 = Inr [sample_anchor]"
    by (rule sample_bundle) (rule sample_decode_begin)
  then obtain c' where run: "ConfigureTLS sample_decode (\<lambda>_. Some sample_anchor) 50 (Some sample_connection)
      (Some \<lparr> to_ca_pem = begin_certificate, to_required = ''true'' \<rparr>) = Some (None, c')"
    by (simp add: ConfigureTLS_def sample_connection_def begin_certificate_def)
  from ConfigureTLS_protects [OF this] run show ?thesis by (auto simp: begin_certificate_def)
qed

text \<open>A decoder that passes over a block without a body, and a bundle that starts with one.\<close>

definition broken_block :: string where
  "broken_block = begin_certificate @ ''?''"

definition passing_decode :: pem_decode where
  "passing_decode s = sample_decode (if has_prefix s broken_block then drop (length broken_block) s else s)"

lemma passing_decode_broken:
  "passing_decode (broken_block @ begin_certificate) = passing_decode begin_certificate"
  "passing_decode begin_certificate = sample_decode begin_certificate"
proof -
  have "\<not> has_prefix begin_certificate broken_block" by (simp add: has_prefix_def broken_block_def begin_certificate_def)
  then show "passing_decode (broken_block @ begin_certificate) = passing_decode begin_certificate"
    "passing_decode begin_certificate = sample_decode begin_certificate"
    by (simp_all add: passing_decode_def)
qed

theorem databaseCARoots_spells_witness:
  "databaseCARoots passing_decode (\<lambda>_. Some sample_anchor) (broken_block @ begin_certificate) 50 = Inr [sample_anchor]"
proof -
  have "trim_space (broken_block @ begin_certificate) = broken_block @ begin_certificate" "trim_space begin_certificate = begin_certificate"
    by (simp_all add: trim_space_def space_runes_def trim_left.simps begin_certificate_def broken_block_def)
  moreover have "has_prefix broken_block begin_certificate" "has_prefix begin_certificate begin_certificate"
    "length (broken_block @ begin_certificate) \<le> 32 * 1024"
    by (simp_all add: has_prefix_def broken_block_def begin_certificate_def)
  ultimately have "databaseCARoots passing_decode (\<lambda>_. Some sample_anchor) (broken_block @ begin_certificate) 50 =
      databaseCARoots passing_decode (\<lambda>_. Some sample_anchor) begin_certificate 50"
    using databaseCARoots_spells [where decode = passing_decode and parse = "\<lambda>_. Some sample_anchor" and now = 50]
      passing_decode_broken(1) by blast
  also have "\<dots> = Inr [sample_anchor]"
    by (rule sample_bundle) (simp only: passing_decode_broken(2) sample_decode_begin)
  finally show ?thesis .
qed

end
