(* ===== verification/Gateway.thy ===== *)
theory Gateway
  imports Database_Tls
begin

text \<open>
  The start of the database gateway, \<open>src/gateway/config.go\<close> and \<open>main.go\<close>: the checks of its
  configuration, the private files it prepares for the connection pooler, and the replacement of
  the process.  The cryptographic checks of \<open>crypto/x509\<close> and \<open>crypto/tls\<close> and the operating system
  are arguments.
\<close>

section \<open>Configuration\<close>

definition pemBytesMax :: nat where "pemBytesMax = 16 * 1024"

text \<open>
  \<open>^[a-z0-9]([a-z0-9-]{0,61}[a-z0-9])?(\.[a-z0-9]([a-z0-9-]{0,61}[a-z0-9])?)*$\<close>: labels between dots, of
  at most 63 characters, with no hyphen at either end.
\<close>

definition label_char :: "char \<Rightarrow> bool" where
  "label_char c \<longleftrightarrow> is_lower c \<or> is_decimal c"

definition hostname_label :: "string \<Rightarrow> bool" where
  "hostname_label s \<longleftrightarrow> s \<noteq> [] \<and> length s \<le> 63 \<and> label_char (hd s) \<and> label_char (last s) \<and>
     list_all (\<lambda>c. label_char c \<or> c = CHR ''-'') s"

definition hostnamePattern :: "string \<Rightarrow> bool" where
  "hostnamePattern s = list_all hostname_label (split_all CHR ''.'' s)"

text \<open>\<open>^[0-9a-f]{64}$\<close>.\<close>

definition passwordPattern :: "string \<Rightarrow> bool" where
  "passwordPattern s \<longleftrightarrow> length s = 64 \<and> list_all is_lower_hex s"

record configuration =
  gw_certificate :: string
  gw_private_key :: string
  gw_backend_ca :: string
  gw_hostname :: string
  gw_runtime_password :: string
  gw_migration_password :: string

text \<open>
  The cryptography: whether the key belongs to the certificate, whether the certificate is signed by
  itself, and whether it verifies against itself as a server of the given name at the given time.
\<close>

record cryptography =
  cr_decode :: pem_decode
  cr_parse :: parse_certificate
  cr_key_pair :: "string \<Rightarrow> string \<Rightarrow> bool"
  cr_self_signed :: "certificate \<Rightarrow> bool"
  cr_verify :: "certificate \<Rightarrow> string \<Rightarrow> time \<Rightarrow> bool"

datatype gateway_error =
    Invalid_Hostname
  | Runtime_Password
  | Migration_Password
  | Same_Credentials
  | TLS_Material
  | Gateway_Certificate
  | Private_Key
  | Key_Pair
  | Gateway_Validity
  | Not_Self_Signed
  | Identity_Rejected
  | Backend_CA
  | Backend_Not_CA
  | Backend_Signing
  | Backend_Validity
  | Directory_Creation
  | Directory_Cleanup
  | File_Creation
  | Runtime_Directory
  | Pooler_Executable

definition parseCertificate :: "cryptography \<Rightarrow> string \<Rightarrow> certificate option" where
  "parseCertificate w content =
     (case cr_decode w content of
        None \<Rightarrow> None
      | Some (block, rest) \<Rightarrow>
          if pb_type block \<noteq> ''CERTIFICATE'' \<or> trim_space rest \<noteq> [] then None
          else cr_parse w (pb_bytes block))"

definition private_key_ok :: "cryptography \<Rightarrow> string \<Rightarrow> bool" where
  "private_key_ok w content =
     (case cr_decode w content of
        None \<Rightarrow> False
      | Some (block, rest) \<Rightarrow> pb_type block = ''PRIVATE KEY'' \<and> trim_space rest = [])"

definition validateServer :: "cryptography \<Rightarrow> configuration \<Rightarrow> time \<Rightarrow> gateway_error option" where
  "validateServer w c now =
     (case parseCertificate w (gw_certificate c) of
        None \<Rightarrow> Some Gateway_Certificate
      | Some cert \<Rightarrow>
          if \<not> private_key_ok w (gw_private_key c) then Some Private_Key
          else if \<not> cr_key_pair w (gw_certificate c) (gw_private_key c) then Some Key_Pair
          else if outside_validity now cert then Some Gateway_Validity
          else if \<not> cr_self_signed w cert then Some Not_Self_Signed
          else if \<not> cr_verify w cert (gw_hostname c) now then Some Identity_Rejected
          else None)"

definition validateBackend :: "cryptography \<Rightarrow> configuration \<Rightarrow> time \<Rightarrow> gateway_error option" where
  "validateBackend w c now =
     (case parseCertificate w (gw_backend_ca c) of
        None \<Rightarrow> Some Backend_CA
      | Some cert \<Rightarrow>
          if \<not> ct_is_ca cert then Some Backend_Not_CA
          else if cannot_sign cert then Some Backend_Signing
          else if outside_validity now cert then Some Backend_Validity
          else None)"

text \<open>The result of \<open>validate\<close> is its error; the outer \<open>None\<close> is the panic without a configuration.\<close>

definition validate :: "cryptography \<Rightarrow> configuration option \<Rightarrow> time \<Rightarrow> gateway_error option option" where
  "validate w configuration now =
     (case configuration of
        None \<Rightarrow> None
      | Some c \<Rightarrow> Some (
          if length (gw_hostname c) > 253 \<or> \<not> hostnamePattern (gw_hostname c) then Some Invalid_Hostname
          else if \<not> passwordPattern (gw_runtime_password c) then Some Runtime_Password
          else if \<not> passwordPattern (gw_migration_password c) then Some Migration_Password
          else if gw_runtime_password c = gw_migration_password c then Some Same_Credentials
          else if list_ex (\<lambda>content. length content = 0 \<or> length content > pemBytesMax)
                    [gw_certificate c, gw_private_key c, gw_backend_ca c]
            then Some TLS_Material
          else case validateServer w c now of
            Some e \<Rightarrow> Some e
          | None \<Rightarrow> validateBackend w c now))"

section \<open>The private files\<close>

type_synonym files = "string \<Rightarrow> string option"

text \<open>
  The operating system during one start: the new directory that \<open>MkdirTemp\<close> makes, the \<open>k\<close>-th write (\<open>None\<close>
  on success, otherwise what the failed write leaves), and whether \<open>RemoveAll\<close>, \<open>Chdir\<close> and \<open>Exec\<close> succeed.
\<close>

record system =
  sy_directory :: "string option"
  sy_write :: "nat \<Rightarrow> string option option"
  sy_remove :: bool
  sy_chdir :: bool
  sy_exec :: bool

definition in_directory :: "string \<Rightarrow> string \<Rightarrow> string" where
  "in_directory directory name = directory @ ''/'' @ name"

definition RemoveAll :: "system \<Rightarrow> string \<Rightarrow> files \<Rightarrow> files" where
  "RemoveAll sys directory fs = (if sy_remove sys then (\<lambda>p. if has_prefix p (directory @ ''/'') then None else fs p) else fs)"

definition quoted :: "string \<Rightarrow> string" where
  "quoted s = [CHR 0x22] @ s @ [CHR 0x22]"

definition users_txt :: "configuration \<Rightarrow> string" where
  "users_txt c =
     quoted ''p3_relay_runtime'' @ '' '' @ quoted (gw_runtime_password c) @ [CHR 0x0A] @
     quoted ''p3_relay_migrator'' @ '' '' @ quoted (gw_migration_password c) @ [CHR 0x0A]"

definition private_files :: "string \<Rightarrow> configuration \<Rightarrow> (string \<times> string) list" where
  "private_files poolerConfiguration c =
     [(''pgbouncer.ini'', poolerConfiguration), (''server.crt'', gw_certificate c), (''server.key'', gw_private_key c),
      (''backend.crt'', gw_backend_ca c), (''users.txt'', users_txt c)]"

fun write_files :: "system \<Rightarrow> string \<Rightarrow> nat \<Rightarrow> (string \<times> string) list \<Rightarrow> files \<Rightarrow> bool \<times> files" where
  "write_files sys directory k [] fs = (True, fs)"
| "write_files sys directory k ((name, content) # fls) fs =
     (case sy_write sys k of
        Some left_over \<Rightarrow> (False, fs(in_directory directory name := left_over))
      | None \<Rightarrow> write_files sys directory (Suc k) fls (fs(in_directory directory name \<mapsto> content)))"

definition prepareFiles ::
  "system \<Rightarrow> string \<Rightarrow> configuration \<Rightarrow> files \<Rightarrow> (gateway_error + string) \<times> files" where
  "prepareFiles sys poolerConfiguration c fs =
     (case sy_directory sys of
        None \<Rightarrow> (Inl Directory_Creation, fs)
      | Some directory \<Rightarrow>
          (case write_files sys directory 0 (private_files poolerConfiguration c) fs of
             (True, fs1) \<Rightarrow> (Inr directory, fs1)
           | (False, fs1) \<Rightarrow>
               (Inl (if sy_remove sys then File_Creation else Directory_Cleanup), RemoveAll sys directory fs1)))"

text \<open>The error of a start that returns; \<open>None\<close> is the start that became the pooler.\<close>

definition launch ::
  "cryptography \<Rightarrow> system \<Rightarrow> string \<Rightarrow> (string \<Rightarrow> string) \<Rightarrow> time \<Rightarrow> files \<Rightarrow> gateway_error option \<times> files" where
  "launch w sys poolerConfiguration getenv now fs =
     (let c = \<lparr> gw_certificate = getenv ''GATEWAY_CERTIFICATE'', gw_private_key = getenv ''GATEWAY_PRIVATE_KEY'',
            gw_backend_ca = getenv ''GATEWAY_BACKEND_CA'', gw_hostname = getenv ''GATEWAY_HOSTNAME'',
            gw_runtime_password = getenv ''GATEWAY_RUNTIME_PASSWORD'',
            gw_migration_password = getenv ''GATEWAY_MIGRATION_PASSWORD'' \<rparr>
      in case validate w (Some c) now of
           Some (Some e) \<Rightarrow> (Some e, fs)
         | _ \<Rightarrow>
             (case prepareFiles sys poolerConfiguration c fs of
                (Inl e, fs1) \<Rightarrow> (Some e, fs1)
              | (Inr directory, fs1) \<Rightarrow>
                  if \<not> sy_chdir sys then (Some Runtime_Directory, RemoveAll sys directory fs1)
                  else if \<not> sy_exec sys then (Some Pooler_Executable, RemoveAll sys directory fs1)
                  else (None, fs1)))"

section \<open>The credentials of the pooler\<close>

lemma hex_plain: "passwordPattern s \<Longrightarrow> CHR 0x22 \<notin> set s \<and> CHR 0x0A \<notin> set s"
  by (auto simp: passwordPattern_def list_all_iff is_lower_hex_def char_between_def)

definition role_line :: "string \<Rightarrow> string \<Rightarrow> string" where
  "role_line role password = quoted role @ '' '' @ quoted password"

lemma split_role_line:
  "CHR 0x22 \<notin> set role \<Longrightarrow> CHR 0x22 \<notin> set password \<Longrightarrow>
     split_all CHR 0x22 (role_line role password) = [[], role, '' '', password, []]"
  by (simp add: role_line_def quoted_def split_all_append)

text \<open>
  The credentials file of the pooler cannot be subverted by the passwords in it.  For every accepted
  configuration it consists of exactly two lines, and every line of exactly the quoted role and its
  quoted password, which are two different strings of 64 hexadecimal characters.
\<close>

theorem users_txt_two_roles:
  assumes "validate w (Some c) now = Some None"
  shows "map (split_all CHR 0x22) (split_all CHR 0x0A (users_txt c)) =
      [[[], ''p3_relay_runtime'', '' '', gw_runtime_password c, []],
       [[], ''p3_relay_migrator'', '' '', gw_migration_password c, []], [[]]] \<and>
    gw_runtime_password c \<noteq> gw_migration_password c \<and>
    length (gw_runtime_password c) = 64 \<and> length (gw_migration_password c) = 64 \<and>
    list_all is_lower_hex (gw_runtime_password c @ gw_migration_password c)"
proof -
  let ?r = "gw_runtime_password c" and ?m = "gw_migration_password c"
  have ok: "passwordPattern ?r" "passwordPattern ?m" "?r \<noteq> ?m"
    using assms by (auto simp: validate_def split: if_splits)
  note free = hex_plain [OF ok(1)] hex_plain [OF ok(2)]
  have users: "users_txt c = role_line ''p3_relay_runtime'' ?r @ CHR 0x0A # role_line ''p3_relay_migrator'' ?m @ CHR 0x0A # []"
    by (simp add: users_txt_def role_line_def)
  have "CHR 0x0A \<notin> set (role_line ''p3_relay_runtime'' ?r)" "CHR 0x0A \<notin> set (role_line ''p3_relay_migrator'' ?m)"
    using free by (simp_all add: role_line_def quoted_def)
  then have "split_all CHR 0x0A (users_txt c) = [role_line ''p3_relay_runtime'' ?r, role_line ''p3_relay_migrator'' ?m, []]"
    unfolding users by (simp add: split_all_append)
  moreover have "split_all CHR 0x22 (role_line ''p3_relay_runtime'' ?r) = [[], ''p3_relay_runtime'', '' '', ?r, []]"
    "split_all CHR 0x22 (role_line ''p3_relay_migrator'' ?m) = [[], ''p3_relay_migrator'', '' '', ?m, []]"
    using free by (simp_all add: split_role_line)
  ultimately show ?thesis using ok by (simp add: passwordPattern_def)
qed

section \<open>Nothing is left behind\<close>

lemma has_prefix_in_directory [simp]: "has_prefix (in_directory directory name) (directory @ ''/'')"
  by (simp add: has_prefix_def in_directory_def)

lemma write_files_elsewhere:
  "\<not> has_prefix p (directory @ ''/'') \<Longrightarrow> snd (write_files sys directory k fls fs) p = fs p"
  by (induction sys directory k fls fs rule: write_files.induct) (auto split: option.splits)

lemma RemoveAll_fresh:
  assumes "sy_remove sys" and "\<forall>p. has_prefix p (directory @ ''/'') \<longrightarrow> fs p = None"
  shows "RemoveAll sys directory (snd (write_files sys directory k fls fs)) = fs"
  using assms write_files_elsewhere by (auto simp: RemoveAll_def fun_eq_iff)

lemma write_files_all:
  "write_files sys directory k fls fs = (True, fs') \<Longrightarrow>
     fs' = fs ++ map_of (rev (map (\<lambda>(n, content). (in_directory directory n, content)) fls))"
  by (induction sys directory k fls fs rule: write_files.induct) (auto split: option.splits)

text \<open>The configuration that a start reads from its environment.\<close>

definition configuration_of :: "(string \<Rightarrow> string) \<Rightarrow> configuration" where
  "configuration_of getenv =
     \<lparr> gw_certificate = getenv ''GATEWAY_CERTIFICATE'', gw_private_key = getenv ''GATEWAY_PRIVATE_KEY'',
       gw_backend_ca = getenv ''GATEWAY_BACKEND_CA'', gw_hostname = getenv ''GATEWAY_HOSTNAME'',
       gw_runtime_password = getenv ''GATEWAY_RUNTIME_PASSWORD'',
       gw_migration_password = getenv ''GATEWAY_MIGRATION_PASSWORD'' \<rparr>"

text \<open>What the checks of a configuration amount to.\<close>

lemma validate_None:
  assumes "validate w (Some c) now = Some None"
  shows "hostnamePattern (gw_hostname c) \<and> passwordPattern (gw_runtime_password c) \<and>
    passwordPattern (gw_migration_password c) \<and> gw_runtime_password c \<noteq> gw_migration_password c \<and>
    (\<exists>cert. parseCertificate w (gw_certificate c) = Some cert \<and> private_key_ok w (gw_private_key c) \<and>
       cr_key_pair w (gw_certificate c) (gw_private_key c) \<and> \<not> outside_validity now cert \<and>
       cr_self_signed w cert \<and> cr_verify w cert (gw_hostname c) now) \<and>
    (\<exists>ca. parseCertificate w (gw_backend_ca c) = Some ca \<and> ct_is_ca ca \<and> \<not> cannot_sign ca \<and> \<not> outside_validity now ca)"
  using assms
  by (auto simp: validate_def validateServer_def validateBackend_def split: if_splits option.splits)

text \<open>
  C36: a start that fails leaves nothing behind: as long as the directory was new and can be removed, every
  file is as it was, so no key or password outlives it.  A start that becomes the pooler has checked
  what it writes: the host name and the two different passwords are well formed, the private key
  belongs to the certificate, which is valid, signed by itself and good for that host name, and the
  backend's certificate is a valid authority that may sign.  It leaves the five private files with
  exactly these values, each from its own variable, and nothing else.
\<close>

theorem launch_clean:
  assumes "launch w sys poolerConfiguration getenv now fs = (err, fs')" and "sy_remove sys"
    and "\<forall>directory p. sy_directory sys = Some directory \<and> has_prefix p (directory @ ''/'') \<longrightarrow> fs p = None"
  shows "(err \<noteq> None \<longrightarrow> fs' = fs) \<and>
    (err = None \<longrightarrow> hostnamePattern (getenv ''GATEWAY_HOSTNAME'') \<and>
       passwordPattern (getenv ''GATEWAY_RUNTIME_PASSWORD'') \<and> passwordPattern (getenv ''GATEWAY_MIGRATION_PASSWORD'') \<and>
       getenv ''GATEWAY_RUNTIME_PASSWORD'' \<noteq> getenv ''GATEWAY_MIGRATION_PASSWORD'' \<and>
       (\<exists>cert. parseCertificate w (getenv ''GATEWAY_CERTIFICATE'') = Some cert \<and>
          private_key_ok w (getenv ''GATEWAY_PRIVATE_KEY'') \<and>
          cr_key_pair w (getenv ''GATEWAY_CERTIFICATE'') (getenv ''GATEWAY_PRIVATE_KEY'') \<and>
          ct_not_before cert \<le> now \<and> now < ct_not_after cert \<and>
          cr_self_signed w cert \<and> cr_verify w cert (getenv ''GATEWAY_HOSTNAME'') now) \<and>
       (\<exists>ca. parseCertificate w (getenv ''GATEWAY_BACKEND_CA'') = Some ca \<and> acceptable now ca) \<and>
       (\<exists>directory. sy_directory sys = Some directory \<and>
          fs' = fs(in_directory directory ''pgbouncer.ini'' \<mapsto> poolerConfiguration,
            in_directory directory ''server.crt'' \<mapsto> getenv ''GATEWAY_CERTIFICATE'',
            in_directory directory ''server.key'' \<mapsto> getenv ''GATEWAY_PRIVATE_KEY'',
            in_directory directory ''backend.crt'' \<mapsto> getenv ''GATEWAY_BACKEND_CA'',
            in_directory directory ''users.txt'' \<mapsto>
              quoted ''p3_relay_runtime'' @ '' '' @ quoted (getenv ''GATEWAY_RUNTIME_PASSWORD'') @ [CHR 0x0A] @
              quoted ''p3_relay_migrator'' @ '' '' @ quoted (getenv ''GATEWAY_MIGRATION_PASSWORD'') @ [CHR 0x0A])))"
proof -
  define c where "c = configuration_of getenv"
  obtain v where v: "validate w (Some c) now = Some v" by (simp add: validate_def)
  note run = assms(1) [unfolded launch_def Let_def, folded configuration_of_def, folded c_def, unfolded v]
  show ?thesis
  proof (cases v)
    case (Some e)
    with run show ?thesis by auto
  next
    case None
    note checks = validate_None [OF v [unfolded None]]
    show ?thesis
    proof (cases "sy_directory sys")
      case None
      with run \<open>v = None\<close> show ?thesis by (auto simp: prepareFiles_def)
    next
      case (Some directory)
      obtain ok fs1 where w: "write_files sys directory 0 (private_files poolerConfiguration c) fs = (ok, fs1)" by fastforce
      have fresh: "RemoveAll sys directory fs1 = fs"
        using RemoveAll_fresh [OF assms(2), of directory fs 0 "private_files poolerConfiguration c"] assms(3) Some w by simp
      show ?thesis
      proof (cases ok)
        case True
        have fs1: "fs1 = fs(in_directory directory ''pgbouncer.ini'' \<mapsto> poolerConfiguration,
           in_directory directory ''server.crt'' \<mapsto> getenv ''GATEWAY_CERTIFICATE'',
           in_directory directory ''server.key'' \<mapsto> getenv ''GATEWAY_PRIVATE_KEY'',
           in_directory directory ''backend.crt'' \<mapsto> getenv ''GATEWAY_BACKEND_CA'',
           in_directory directory ''users.txt'' \<mapsto> users_txt c)"
          using write_files_all [of sys directory 0 "private_files poolerConfiguration c" fs fs1] w True
          by (simp add: private_files_def c_def configuration_of_def)
        have end_of: "err \<noteq> None \<and> fs' = fs \<or> err = None \<and> fs' = fs1"
          using run \<open>v = None\<close> Some w True fresh by (auto simp: prepareFiles_def split: if_splits)
        show ?thesis
        proof (cases "err = None")
          case True
          with end_of Some checks fs1 show ?thesis
            by (auto simp: c_def configuration_of_def users_txt_def outside_validity_def acceptable_def cannot_sign_iff)
        qed (use end_of in auto)
      next
        case False
        with run \<open>v = None\<close> Some w fresh assms(2) show ?thesis by (auto simp: prepareFiles_def)
      qed
    qed
  qed
qed

section \<open>The properties on a concrete start\<close>

definition trust_all :: cryptography where
  "trust_all = \<lparr> cr_decode = (\<lambda>s. Some (\<lparr> pb_type = (if s = ''k'' then ''PRIVATE KEY'' else ''CERTIFICATE''),
        pb_headers = [], pb_bytes = bytes_of s \<rparr>, [])),
     cr_parse = (\<lambda>_. Some sample_anchor), cr_key_pair = (\<lambda>_ _. True), cr_self_signed = (\<lambda>_. True),
     cr_verify = (\<lambda>_ _ _. True) \<rparr>"

definition sample_getenv :: "string \<Rightarrow> string" where
  "sample_getenv name =
     (if name = ''GATEWAY_CERTIFICATE'' then ''c'' else if name = ''GATEWAY_PRIVATE_KEY'' then ''k''
      else if name = ''GATEWAY_BACKEND_CA'' then ''b'' else if name = ''GATEWAY_HOSTNAME'' then ''db.internal''
      else if name = ''GATEWAY_RUNTIME_PASSWORD'' then replicate 64 CHR ''a''
      else if name = ''GATEWAY_MIGRATION_PASSWORD'' then replicate 64 CHR ''b'' else [])"

definition sample_gateway :: configuration where
  "sample_gateway = \<lparr> gw_certificate = ''c'', gw_private_key = ''k'', gw_backend_ca = ''b'', gw_hostname = ''db.internal'',
     gw_runtime_password = replicate 64 CHR ''a'', gw_migration_password = replicate 64 CHR ''b'' \<rparr>"

definition sample_system :: system where
  "sample_system = \<lparr> sy_directory = Some ''/dev/shm/g'', sy_write = (\<lambda>k. if k = 3 then Some (Some ''partial'') else None),
     sy_remove = True, sy_chdir = True, sy_exec = True \<rparr>"

lemma sample_gateway_valid: "validate trust_all (Some sample_gateway) 50 = Some None"
proof -
  have trim: "trim_space [] = []" by (simp add: trim_space_def trim_left.simps space_runes_def)
  have "is_lower_hex CHR ''a''" "is_lower_hex CHR ''b''" by (simp_all add: is_lower_hex_def char_between_def)
  then have pw: "passwordPattern (replicate 64 CHR ''a'')" "passwordPattern (replicate 64 CHR ''b'')"
    by (simp_all add: passwordPattern_def list_all_iff)
  have "replicate 64 CHR ''a'' \<noteq> replicate 64 CHR ''b''" by (simp add: replicate_eq_replicate)
  moreover have "hostnamePattern ''db.internal''"
    by (simp add: hostnamePattern_def hostname_label_def label_char_def class_defs)
  moreover have "\<not> cannot_sign sample_anchor" "\<not> outside_validity 50 sample_anchor" "ct_is_ca sample_anchor"
    by (simp_all add: cannot_sign_def KeyUsageCertSign_def outside_validity_def sample_anchor_def)
  ultimately show ?thesis
    using pw by (simp add: validate_def validateServer_def validateBackend_def parseCertificate_def private_key_ok_def
        trust_all_def sample_gateway_def pemBytesMax_def trim)
qed

theorem users_txt_two_roles_witness:
  "length (split_all CHR 0x0A (users_txt sample_gateway)) = 3 \<and> length (gw_runtime_password sample_gateway) = 64"
  using users_txt_two_roles [OF sample_gateway_valid] by (auto dest: arg_cong [where f = length])

theorem launch_clean_witness:
  "\<exists>e. launch trust_all sample_system ''ini'' sample_getenv 50 (\<lambda>_. None) = (Some e, \<lambda>_. None)"
proof -
  obtain err fs' where run: "launch trust_all sample_system ''ini'' sample_getenv 50 (\<lambda>_. None) = (err, fs')" by fastforce
  have "prepareFiles sample_system ''ini'' sample_gateway (\<lambda>_. None) = (Inl File_Creation, snd (prepareFiles sample_system ''ini'' sample_gateway (\<lambda>_. None)))"
    by (simp add: prepareFiles_def sample_system_def private_files_def)
  moreover have "\<lparr> gw_certificate = sample_getenv ''GATEWAY_CERTIFICATE'', gw_private_key = sample_getenv ''GATEWAY_PRIVATE_KEY'',
            gw_backend_ca = sample_getenv ''GATEWAY_BACKEND_CA'', gw_hostname = sample_getenv ''GATEWAY_HOSTNAME'',
            gw_runtime_password = sample_getenv ''GATEWAY_RUNTIME_PASSWORD'',
            gw_migration_password = sample_getenv ''GATEWAY_MIGRATION_PASSWORD'' \<rparr> = sample_gateway"
    by (simp add: sample_getenv_def sample_gateway_def)
  ultimately have "err = Some File_Creation"
    using run by (auto simp: launch_def Let_def sample_gateway_valid split: prod.splits)
  moreover have "sy_remove sample_system" by (simp add: sample_system_def)
  then have "err \<noteq> None \<longrightarrow> fs' = (\<lambda>_. None)"
    using launch_clean [OF run] by simp
  ultimately show ?thesis using run by simp
qed

end
