(* ===== verification/Site.thy ===== *)
theory Site
  imports Go_Http Go_Strings
begin

text \<open>
  The compiled dashboard of \<open>internal/webui/site.go\<close>.  The opened directory is what \<open>os.Root\<close> finds under
  a name: nothing, which includes whatever lies outside of the directory, or a file with what \<open>Stat\<close>
  says of it (\<open>None\<close> where it fails) and its content.  \<open>http.ServeContent\<close> chooses the status of a
  served file, the whole of it or a range.
\<close>

record site_file =
  sf_regular :: "bool option"
  sf_content :: bytes

type_synonym root = "string \<Rightarrow> site_file option"

definition Open :: "root option \<Rightarrow> root option" where
  "Open root =
     (case root of
        None \<Rightarrow> None
      | Some files \<Rightarrow>
          (case files ''index.html'' of
             None \<Rightarrow> None
           | Some info \<Rightarrow> if sf_regular info \<noteq> Some True then None else Some files))"

definition siteFilename :: "string \<Rightarrow> string" where
  "siteFilename path =
     (if path = ''/'' \<or> path = ''/events'' \<or> path = ''/endpoint'' then ''index.html''
      else if has_prefix path ''/events/''
        then (if ValidUUID (trim_prefix path ''/events/'') then ''index.html'' else [])
      else
        let name = trim_prefix path ''/''
        in if \<not> has_prefix name ''assets/'' \<or> \<not> ValidPath name then []
           else
             let basename = trim_prefix name ''assets/''
             in if basename = [] \<or> CHR ''/'' \<in> set basename \<or> has_prefix basename ''.'' then [] else name)"

datatype site_reply = Refused nat | Served string bytes

definition keyword :: "string \<Rightarrow> string" where
  "keyword w = [CHR 0x27] @ w @ [CHR 0x27]"

definition document_headers :: "(string \<times> string) list" where
  "document_headers =
     [(''Cache-Control'', ''no-store''),
      (''Content-Security-Policy'',
        ''default-src '' @ keyword ''self'' @ ''; script-src '' @ keyword ''self'' @ ''; '' @
        ''style-src '' @ keyword ''self'' @ ''; img-src '' @ keyword ''self'' @ '' data:; connect-src '' @ keyword ''self'' @
        ''; frame-ancestors '' @ keyword ''none'' @ ''; '' @
        ''base-uri '' @ keyword ''none'' @ ''; form-action '' @ keyword ''self'')]"

definition ServeHTTP :: "root \<Rightarrow> request \<Rightarrow> site_reply \<times> (string \<times> string) list" where
  "ServeHTTP files r =
     (let common = [(''X-Content-Type-Options'', ''nosniff''), (''Referrer-Policy'', ''no-referrer'')]
      in if hr_method r \<noteq> ''GET'' \<and> hr_method r \<noteq> ''HEAD''
         then (Refused 405, common @ [(''Allow'', ''GET, HEAD'')])
         else
           let filename = siteFilename (url_path r)
           in if filename = [] then (Refused 404, common)
              else case files filename of
                None \<Rightarrow> (Refused 404, common)
              | Some file \<Rightarrow>
                  if sf_regular file \<noteq> Some True then (Refused 404, common)
                  else (Served filename (sf_content file),
                        common @
                          (if filename = ''index.html'' then document_headers
                           else [(''Cache-Control'', ''public, max-age=31536000, immutable'')])))"

section \<open>What the site exposes\<close>

text \<open>The page itself, and the visible files directly in \<open>assets\<close>.\<close>

definition exposed :: "string \<Rightarrow> bool" where
  "exposed name \<longleftrightarrow> name = ''index.html'' \<or>
     has_prefix name ''assets/'' \<and>
       (let base = trim_prefix name ''assets/'' in base \<noteq> [] \<and> hd base \<noteq> CHR ''.'' \<and> CHR ''/'' \<notin> set base)"

lemma siteFilename_exposed: "siteFilename path \<noteq> [] \<Longrightarrow> exposed (siteFilename path)"
proof -
  assume some: "siteFilename path \<noteq> []"
  show ?thesis
  proof (cases "siteFilename path = ''index.html''")
    case False
    let ?name = "trim_prefix path ''/''" and ?base = "trim_prefix (trim_prefix path ''/'') ''assets/''"
    have asset: "has_prefix ?name ''assets/''" "?base \<noteq> []" "CHR ''/'' \<notin> set ?base" "\<not> has_prefix ?base ''.''"
      "siteFilename path = ?name"
      using some False by (simp_all add: siteFilename_def Let_def split: if_splits)
    from asset(2,4) have "hd ?base \<noteq> CHR ''.''" by (cases ?base) simp_all
    with asset show ?thesis by (simp add: exposed_def Let_def)
  qed (simp add: exposed_def)
qed

lemma exposed_element:
  assumes "base \<noteq> []" and "hd base \<noteq> CHR ''.''" and "CHR ''/'' \<notin> set base"
  shows "ValidPath (''assets/'' @ base) \<longleftrightarrow> utf8_valid (bytes_of (''assets/'' @ base))"
proof -
  have "split_all CHR ''/'' (''assets'' @ CHR ''/'' # base) = [''assets'', base]"
    using assms(3) by (subst split_all_append) (simp_all add: split_all_none)
  with assms(1,2) show ?thesis by (auto simp: ValidPath_def)
qed

lemma siteFilename_asset:
  assumes "exposed name" and "name \<noteq> ''index.html''" and "utf8_valid (bytes_of name)"
  shows "siteFilename (''/'' @ name) = name"
proof -
  obtain base where base: "name = ''assets/'' @ base" "base \<noteq> []" "hd base \<noteq> CHR ''.''" "CHR ''/'' \<notin> set base"
  proof -
    have "has_prefix name ''assets/''" using assms(1,2) by (simp add: exposed_def)
    then obtain base where "name = ''assets/'' @ base" by (rule has_prefixE)
    moreover from this have "trim_prefix name ''assets/'' = base" by (simp only: trim_prefix_append)
    ultimately show ?thesis using assms(1,2) that by (simp only: exposed_def Let_def) auto
  qed
  then have "ValidPath name" using exposed_element [of base] assms(3) by simp
  then show ?thesis
    using base by (auto simp: siteFilename_def Let_def trim_prefix_def neq_Nil_conv)
qed

text \<open>
  C35: the web interface shows nothing but the compiled page and the visible files directly in \<open>assets\<close>.
  Only \<open>GET\<close> and \<open>HEAD\<close> read a file, each such file is reached at its own path, and two directories
  that agree on these files answer every request alike, whatever else they hold.  Only the page
  has the policy that keeps it out of caches and frames.
\<close>

theorem ServeHTTP_confined:
  assumes "\<forall>name. exposed name \<longrightarrow> files name = files' name"
  shows "ServeHTTP files r = ServeHTTP files' r \<and>
    (\<forall>name content headers. ServeHTTP files r = (Served name content, headers) \<longrightarrow>
       exposed name \<and> (hr_method r = ''GET'' \<or> hr_method r = ''HEAD'') \<and>
       (\<exists>file. files name = Some file \<and> sf_regular file = Some True \<and> sf_content file = content) \<and>
       (name = ''index.html'' \<longleftrightarrow> set document_headers \<subseteq> set headers)) \<and>
    (\<forall>name file. exposed name \<and> name \<noteq> ''index.html'' \<and> utf8_valid (bytes_of name) \<and>
       files name = Some file \<and> sf_regular file = Some True \<and> hr_method r = ''GET'' \<and> url_path r = ''/'' @ name \<longrightarrow>
       fst (ServeHTTP files r) = Served name (sf_content file))"
proof (intro conjI allI impI)
  have same: "siteFilename path \<noteq> [] \<Longrightarrow> files (siteFilename path) = files' (siteFilename path)" for path
    using assms siteFilename_exposed by blast
  then show "ServeHTTP files r = ServeHTTP files' r" by (simp add: ServeHTTP_def Let_def)
next
  fix name content headers
  assume "ServeHTTP files r = (Served name content, headers)"
  then have served: "name = siteFilename (url_path r)" "name \<noteq> []" "hr_method r = ''GET'' \<or> hr_method r = ''HEAD''"
    "\<exists>file. files name = Some file \<and> sf_regular file = Some True \<and> sf_content file = content"
    "headers = [(''X-Content-Type-Options'', ''nosniff''), (''Referrer-Policy'', ''no-referrer'')] @
       (if name = ''index.html'' then document_headers else [(''Cache-Control'', ''public, max-age=31536000, immutable'')])"
    by (auto simp: ServeHTTP_def Let_def split: if_splits option.splits)
  then show "exposed name" "hr_method r = ''GET'' \<or> hr_method r = ''HEAD''"
    "\<exists>file. files name = Some file \<and> sf_regular file = Some True \<and> sf_content file = content"
    using siteFilename_exposed by auto
  show "name = ''index.html'' \<longleftrightarrow> set document_headers \<subseteq> set headers"
    unfolding served(5) by (simp add: document_headers_def)
next
  fix name entry
  assume asset: "exposed name \<and> name \<noteq> ''index.html'' \<and> utf8_valid (bytes_of name) \<and>
       files name = Some entry \<and> sf_regular entry = Some True \<and> hr_method r = ''GET'' \<and> url_path r = ''/'' @ name"
  then have "name \<noteq> []" by (auto simp: exposed_def)
  with asset siteFilename_asset [of name] show "fst (ServeHTTP files r) = Served name (sf_content entry)"
    by (simp add: ServeHTTP_def Let_def)
qed

section \<open>The property on a concrete directory\<close>

definition sample_files :: root where
  "sample_files name =
     (if name = ''index.html'' then Some \<lparr> sf_regular = Some True, sf_content = bytes_of ''page'' \<rparr>
      else if name = ''secret.txt'' then Some \<lparr> sf_regular = Some True, sf_content = bytes_of ''key'' \<rparr>
      else None)"

definition sample_visit :: request where
  "sample_visit = \<lparr> hr_method = ''GET'', hr_path = [''secret.txt''], hr_query = [], hr_headers = [], hr_body = [], hr_broken = False \<rparr>"

theorem ServeHTTP_confined_witness:
  "ServeHTTP sample_files sample_visit = ServeHTTP (sample_files(''secret.txt'' := None)) sample_visit \<and>
   fst (ServeHTTP sample_files sample_visit) = Refused 404"
proof -
  have "\<forall>name. exposed name \<longrightarrow> sample_files name = (sample_files(''secret.txt'' := None)) name"
    by (auto simp: exposed_def)
  then have "ServeHTTP sample_files sample_visit = ServeHTTP (sample_files(''secret.txt'' := None)) sample_visit"
    using ServeHTTP_confined [of sample_files "sample_files(''secret.txt'' := None)" sample_visit] by blast
  moreover have "fst (ServeHTTP sample_files sample_visit) = Refused 404"
    by (simp add: ServeHTTP_def Let_def sample_visit_def url_path_def siteFilename_def trim_prefix_def)
  ultimately show ?thesis ..
qed

end
