(* ===== verification/Notification_Config.thy ===== *)
theory Notification_Config
  imports Notification_Queue Go_Http Go_Strings
begin

text \<open>
  The start of the notification queue, \<open>internal/notification/config.go\<close>: the check of the configured
  URL and the check of the queue's attributes.  \<open>url.Parse\<close>, the AWS configuration and the service's
  answers are arguments; a panic is \<open>None\<close>.
\<close>

section \<open>Patterns\<close>

text \<open>\<open>^[a-z]{2}-[a-z]+-[1-9]$\<close>; no class of the pattern contains its separator.\<close>

definition regionPattern :: "string \<Rightarrow> bool" where
  "regionPattern s =
     (case split_all CHR ''-'' s of
        [country, area, number] \<Rightarrow>
          length country = 2 \<and> list_all is_lower country \<and> area \<noteq> [] \<and> list_all is_lower area \<and>
          (case number of [d] \<Rightarrow> is_decimal d \<and> d \<noteq> CHR ''0'' | _ \<Rightarrow> False)
      | _ \<Rightarrow> False)"

text \<open>\<open>^/[0-9]{12}/[A-Za-z0-9_-]{1,80}$\<close>.\<close>

definition queue_char :: "char \<Rightarrow> bool" where
  "queue_char c \<longleftrightarrow> is_upper c \<or> is_lower c \<or> is_decimal c \<or> c = CHR ''_'' \<or> c = CHR ''-''"

definition pathPattern :: "string \<Rightarrow> bool" where
  "pathPattern s =
     (case split_all CHR ''/'' s of
        [before, account, name] \<Rightarrow>
          before = [] \<and> length account = 12 \<and> list_all is_decimal account \<and>
          1 \<le> length name \<and> length name \<le> 80 \<and> list_all queue_char name
      | _ \<Rightarrow> False)"

section \<open>The checks\<close>

definition validURL :: "(string \<Rightarrow> url option) \<Rightarrow> string \<Rightarrow> string \<Rightarrow> bool" where
  "validURL parse_url raw region =
     (if \<not> regionPattern region then False
      else case parse_url raw of
        None \<Rightarrow> False
      | Some parsed \<Rightarrow>
          ul_scheme parsed = ''https'' \<and> ul_host parsed = ''sqs.'' @ region @ ''.amazonaws.com'' \<and>
          \<not> ul_user parsed \<and> ul_query parsed = [] \<and> ul_fragment parsed = [] \<and>
          ul_raw_path parsed = [] \<and> pathPattern (ul_path parsed))"

type_synonym attributes = "string \<Rightarrow> string option"

definition attr :: "attributes \<Rightarrow> string \<Rightarrow> string" where
  "attr attrs key = (case attrs key of None \<Rightarrow> [] | Some v \<Rightarrow> v)"

record redrive =
  rd_target :: string
  rd_count :: string

definition redrive_field :: "string \<times> json \<Rightarrow> redrive \<Rightarrow> redrive option" where
  "redrive_field member value =
     (if names_field (fst member) ''deadLetterTargetArn''
        then map_option (\<lambda>t. value\<lparr>rd_target := t\<rparr>) (string_field (snd member) (rd_target value))
      else if names_field (fst member) ''maxReceiveCount''
        then map_option (\<lambda>n. value\<lparr>rd_count := n\<rparr>) (number_field (snd member) (rd_count value))
      else Some value)"

definition unmarshal_redrive :: "string \<Rightarrow> redrive option" where
  "unmarshal_redrive body =
     Option.bind (json_read body) (\<lambda>v. read_struct redrive_field v \<lparr> rd_target = [], rd_count = [] \<rparr>)"

text \<open>The last part of \<open>Check\<close>: the dead-letter queue against the queue's own URL.\<close>

definition check_target :: "url \<Rightarrow> redrive \<Rightarrow> bool option" where
  "check_target parsed redrive =
     (case split_all CHR ''/'' (trim_prefix (ul_path parsed) ''/'') of
        [account, own] \<Rightarrow>
          (case split_all CHR ''.'' (ul_host parsed) of
             _ # region # _ \<Rightarrow>
               let prefix = ''arn:aws:sqs:'' @ region @ '':'' @ account @ '':''
               in if \<not> has_prefix (rd_target redrive) prefix then Some False
                  else let name = trim_prefix (rd_target redrive) prefix
                       in Some (\<not> (name = own \<or> \<not> pathPattern (''/'' @ account @ ''/'' @ name)))
           | _ \<Rightarrow> None)
      | _ \<Rightarrow> Some False)"

definition Check :: "(string \<Rightarrow> url option) \<Rightarrow> (string \<Rightarrow> attributes option) \<Rightarrow> string \<Rightarrow> bool option" where
  "Check parse_url get_attributes queue_url =
     (case get_attributes queue_url of
        None \<Rightarrow> Some False
      | Some attrs \<Rightarrow>
          if attr attrs ''VisibilityTimeout'' \<noteq> ''300'' \<or> attr attrs ''MaximumMessageSize'' \<noteq> ''1024'' then Some False
          else if attr attrs ''ReceiveMessageWaitTimeSeconds'' \<noteq> ''10'' \<or> attr attrs ''MessageRetentionPeriod'' \<noteq> ''86400''
            then Some False
          else if attr attrs ''SqsManagedSseEnabled'' \<noteq> ''true'' \<or> attr attrs ''FifoQueue'' = ''true'' then Some False
          else case unmarshal_redrive (attr attrs ''RedrivePolicy'') of
            None \<Rightarrow> Some False
          | Some redrive \<Rightarrow>
              if rd_count redrive \<noteq> ''5'' then Some False
              else case parse_url queue_url of
                None \<Rightarrow> Some False
              | Some parsed \<Rightarrow> check_target parsed redrive)"

datatype opened = Local_Polling | Opened string string | Refused_Queue

text \<open>An opened queue has its URL and the endpoint that its client is pinned to.\<close>

definition Open :: "(string \<Rightarrow> url option) \<Rightarrow> bool \<Rightarrow> (string \<Rightarrow> attributes option) \<Rightarrow> string \<Rightarrow> string \<Rightarrow> opened option" where
  "Open parse_url aws_config_ok get_attributes queueURL region =
     (if queueURL = [] \<and> region = [] then Some Local_Polling
      else if \<not> validURL parse_url queueURL region then Some Refused_Queue
      else if \<not> aws_config_ok then Some Refused_Queue
      else case New True queueURL of
        None \<Rightarrow> None
      | Some queue \<Rightarrow>
          (case Check parse_url get_attributes queue of
             None \<Rightarrow> None
           | Some False \<Rightarrow> Some Refused_Queue
           | Some True \<Rightarrow> Some (Opened queue (''https://sqs.'' @ region @ ''.amazonaws.com''))))"

section \<open>What an accepted queue satisfies\<close>

lemma pathPattern_iff:
  "pathPattern s \<longleftrightarrow> (\<exists>account name. s = ''/'' @ account @ ''/'' @ name \<and> length account = 12 \<and> list_all is_decimal account \<and>
     name \<noteq> [] \<and> length name \<le> 80 \<and> list_all queue_char name)"
proof
  assume "pathPattern s"
  then obtain account name where parts: "split_all CHR ''/'' s = [[], account, name]" "length account = 12"
    "list_all is_decimal account" "1 \<le> length name" "length name \<le> 80" "list_all queue_char name"
    by (auto simp: pathPattern_def split: list.splits)
  then have "s = ''/'' @ account @ ''/'' @ name" using join_split_all [of "CHR ''/''" s] by simp
  moreover have "name \<noteq> []" using parts(4) by auto
  ultimately show "\<exists>account name. s = ''/'' @ account @ ''/'' @ name \<and> length account = 12 \<and> list_all is_decimal account \<and>
     name \<noteq> [] \<and> length name \<le> 80 \<and> list_all queue_char name" using parts by blast
next
  assume "\<exists>account name. s = ''/'' @ account @ ''/'' @ name \<and> length account = 12 \<and> list_all is_decimal account \<and>
     name \<noteq> [] \<and> length name \<le> 80 \<and> list_all queue_char name"
  then obtain account name where s: "s = ''/'' @ account @ ''/'' @ name" and ok: "length account = 12" "list_all is_decimal account"
     "name \<noteq> []" "length name \<le> 80" "list_all queue_char name" by blast
  have "CHR ''/'' \<notin> set account" "CHR ''/'' \<notin> set name"
    using ok(2,5) by (auto simp: list_all_iff queue_char_def class_defs)
  then have "split_all CHR ''/'' s = [[], account, name]"
    by (simp add: s split_all_append split_all_none)
  with ok show "pathPattern s" by (simp add: pathPattern_def Suc_le_eq)
qed

lemma regionPattern_no_dot: "regionPattern region \<Longrightarrow> CHR ''.'' \<notin> set region"
proof -
  assume "regionPattern region"
  then obtain a b c where parts: "split_all CHR ''-'' region = [a, b, [c]]" "list_all is_lower a" "list_all is_lower b" "is_decimal c"
    by (auto simp: regionPattern_def split: list.splits)
  then have "region = a @ ''-'' @ b @ ''-'' @ [c]" using join_split_all [of "CHR ''-''" region] by simp
  with parts show ?thesis by (auto simp: list_all_iff class_defs)
qed

text \<open>What \<open>check_target\<close> answers for a URL that \<open>validURL\<close> has accepted.\<close>

lemma check_target_valid:
  assumes "ul_path u = ''/'' @ account @ ''/'' @ own" and "CHR ''/'' \<notin> set account" and "CHR ''/'' \<notin> set own"
    and "ul_host u = ''sqs.'' @ region @ ''.amazonaws.com''" and "CHR ''.'' \<notin> set region"
  shows "check_target u redrive =
    Some (\<exists>dead. rd_target redrive = ''arn:aws:sqs:'' @ region @ '':'' @ account @ '':'' @ dead \<and> dead \<noteq> own \<and>
       pathPattern (''/'' @ account @ ''/'' @ dead))"
proof -
  let ?prefix = "''arn:aws:sqs:'' @ region @ '':'' @ account @ '':''"
  have path: "split_all CHR ''/'' (trim_prefix (ul_path u) ''/'') = [account, own]"
    using assms(2,3) trim_prefix_append [of "''/''" "account @ ''/'' @ own"]
    by (simp add: assms(1) split_all_append split_all_none)
  have host: "split_all CHR ''.'' (ul_host u) = [''sqs'', region, ''amazonaws'', ''com'']"
    using assms(5) by (simp add: assms(4) split_all_append)
  show ?thesis
  proof (cases "has_prefix (rd_target redrive) ?prefix")
    case True
    then obtain dead where "rd_target redrive = ?prefix @ dead" by (rule has_prefixE)
    then have "trim_prefix (rd_target redrive) ?prefix = dead"
      "\<And>d. rd_target redrive = ?prefix @ d \<longleftrightarrow> d = dead" by (simp_all only: trim_prefix_append same_append_eq) auto
    with True show ?thesis unfolding check_target_def path host
      by (simp only: list.case Let_def if_False not_True_eq_False append_assoc) auto
  next
    case False
    then have "\<nexists>d. rd_target redrive = ?prefix @ d" by (metis has_prefix_append)
    with False show ?thesis unfolding check_target_def path host
      by (simp only: list.case Let_def if_True not_False_eq_True append_assoc) auto
  qed
qed

lemma Open_shape:
  assumes "\<forall>u. parse_url [] = Some u \<longrightarrow> ul_scheme u = []"
  shows "Open parse_url aws_config_ok get_attributes url region \<noteq> None \<and>
    (Open parse_url aws_config_ok get_attributes url region = Some Local_Polling \<longleftrightarrow> url = [] \<and> region = []) \<and>
    (\<forall>q endpoint. Open parse_url aws_config_ok get_attributes url region = Some (Opened q endpoint) \<longrightarrow>
       q = url \<and> endpoint = ''https://sqs.'' @ region @ ''.amazonaws.com'' \<and>
       (\<exists>u attrs redrive account own dead.
          parse_url url = Some u \<and> ul_scheme u = ''https'' \<and> ul_host u = ''sqs.'' @ region @ ''.amazonaws.com'' \<and>
          ul_path u = ''/'' @ account @ ''/'' @ own \<and> get_attributes url = Some attrs \<and>
          attr attrs ''VisibilityTimeout'' = ''300'' \<and> attr attrs ''MaximumMessageSize'' = ''1024'' \<and>
          attr attrs ''ReceiveMessageWaitTimeSeconds'' = ''10'' \<and> attr attrs ''MessageRetentionPeriod'' = ''86400'' \<and>
          attr attrs ''SqsManagedSseEnabled'' = ''true'' \<and>
          attr attrs ''FifoQueue'' \<noteq> ''true'' \<and>
          unmarshal_redrive (attr attrs ''RedrivePolicy'') = Some redrive \<and> rd_count redrive = ''5'' \<and>
          rd_target redrive = ''arn:aws:sqs:'' @ region @ '':'' @ account @ '':'' @ dead \<and> dead \<noteq> own \<and>
          length account = 12 \<and> list_all is_decimal account \<and> dead \<noteq> [] \<and> list_all queue_char dead))"
proof (cases "validURL parse_url url region")
  case False
  then show ?thesis by (simp add: Open_def)
next
  case True
  then obtain u account own where u: "parse_url url = Some u" "ul_scheme u = ''https''"
    "ul_host u = ''sqs.'' @ region @ ''.amazonaws.com''" "ul_path u = ''/'' @ account @ ''/'' @ own"
    "length account = 12" "list_all is_decimal account" "list_all queue_char own" and region: "regionPattern region"
    by (auto simp: validURL_def pathPattern_iff split: if_splits option.splits)
  have "url \<noteq> []" using assms u(1,2) by auto
  then have new: "New True url = Some url" by (simp add: New_def)
  have free: "CHR ''/'' \<notin> set account" "CHR ''/'' \<notin> set own"
    using u(6,7) by (auto simp: list_all_iff queue_char_def class_defs)
  note target = check_target_valid [OF u(4) free u(3) regionPattern_no_dot [OF region]]
  have check: "Check parse_url get_attributes url \<noteq> None"
    by (simp add: Check_def u(1) target del: not_None_eq split: option.split)
  have "\<exists>attrs redrive. get_attributes url = Some attrs \<and>
      attr attrs ''VisibilityTimeout'' = ''300'' \<and> attr attrs ''MaximumMessageSize'' = ''1024'' \<and>
          attr attrs ''ReceiveMessageWaitTimeSeconds'' = ''10'' \<and> attr attrs ''MessageRetentionPeriod'' = ''86400'' \<and>
          attr attrs ''SqsManagedSseEnabled'' = ''true'' \<and>
      attr attrs ''FifoQueue'' \<noteq> ''true'' \<and>
      unmarshal_redrive (attr attrs ''RedrivePolicy'') = Some redrive \<and> rd_count redrive = ''5'' \<and>
      check_target u redrive = Some True" if "Check parse_url get_attributes url = Some True"
    using that by (auto simp: Check_def u(1) split: option.splits if_splits)
  then have good: "Check parse_url get_attributes url = Some True \<Longrightarrow> \<exists>attrs redrive dead. get_attributes url = Some attrs \<and>
      attr attrs ''VisibilityTimeout'' = ''300'' \<and> attr attrs ''MaximumMessageSize'' = ''1024'' \<and>
          attr attrs ''ReceiveMessageWaitTimeSeconds'' = ''10'' \<and> attr attrs ''MessageRetentionPeriod'' = ''86400'' \<and>
          attr attrs ''SqsManagedSseEnabled'' = ''true'' \<and>
      attr attrs ''FifoQueue'' \<noteq> ''true'' \<and>
      unmarshal_redrive (attr attrs ''RedrivePolicy'') = Some redrive \<and> rd_count redrive = ''5'' \<and>
      rd_target redrive = ''arn:aws:sqs:'' @ region @ '':'' @ account @ '':'' @ dead \<and> dead \<noteq> own \<and>
      pathPattern (''/'' @ account @ ''/'' @ dead)"
    by (simp only: target option.inject) blast
  have dead: "pathPattern (''/'' @ account @ ''/'' @ dead) \<Longrightarrow> dead \<noteq> [] \<and> list_all queue_char dead" for dead
    using free(1) by (auto simp: pathPattern_def split_all_append split: list.splits dest: arg_cong [where f = "join CHR ''/''"] simp: join_split_all)
  have run: "Open parse_url aws_config_ok get_attributes url region =
      (if \<not> aws_config_ok then Some Refused_Queue
       else if Check parse_url get_attributes url = Some True then Some (Opened url (''https://sqs.'' @ region @ ''.amazonaws.com''))
       else Some Refused_Queue)"
    using \<open>url \<noteq> []\<close> True check by (auto simp: Open_def new split: option.split bool.split)
  show ?thesis
  proof (cases "aws_config_ok \<and> Check parse_url get_attributes url = Some True")
    case True
    with good obtain attrs redrive d where found: "get_attributes url = Some attrs"
      "attr attrs ''VisibilityTimeout'' = ''300''" "attr attrs ''SqsManagedSseEnabled'' = ''true''"
      "attr attrs ''FifoQueue'' \<noteq> ''true''"
      "unmarshal_redrive (attr attrs ''RedrivePolicy'') = Some redrive" "rd_count redrive = ''5''"
      "rd_target redrive = ''arn:aws:sqs:'' @ region @ '':'' @ account @ '':'' @ d" "d \<noteq> own"
      "pathPattern (''/'' @ account @ ''/'' @ d)"
      "attr attrs ''MaximumMessageSize'' = ''1024''" "attr attrs ''ReceiveMessageWaitTimeSeconds'' = ''10''"
      "attr attrs ''MessageRetentionPeriod'' = ''86400''" by blast
    have "Open parse_url aws_config_ok get_attributes url region = Some (Opened url (''https://sqs.'' @ region @ ''.amazonaws.com''))"
      using run True by simp
    note opened = this
    have facts: "\<exists>u attrs redrive account own dead.
          parse_url url = Some u \<and> ul_scheme u = ''https'' \<and> ul_host u = ''sqs.'' @ region @ ''.amazonaws.com'' \<and>
          ul_path u = ''/'' @ account @ ''/'' @ own \<and> get_attributes url = Some attrs \<and>
          attr attrs ''VisibilityTimeout'' = ''300'' \<and> attr attrs ''MaximumMessageSize'' = ''1024'' \<and>
          attr attrs ''ReceiveMessageWaitTimeSeconds'' = ''10'' \<and> attr attrs ''MessageRetentionPeriod'' = ''86400'' \<and>
          attr attrs ''SqsManagedSseEnabled'' = ''true'' \<and>
          attr attrs ''FifoQueue'' \<noteq> ''true'' \<and>
          unmarshal_redrive (attr attrs ''RedrivePolicy'') = Some redrive \<and> rd_count redrive = ''5'' \<and>
          rd_target redrive = ''arn:aws:sqs:'' @ region @ '':'' @ account @ '':'' @ dead \<and> dead \<noteq> own \<and>
          length account = 12 \<and> list_all is_decimal account \<and> dead \<noteq> [] \<and> list_all queue_char dead"
      using u found dead [OF found(9)] by blast
    show ?thesis
      unfolding opened option.inject opened.inject by (intro conjI allI impI; (elim conjE)?) (use \<open>url \<noteq> []\<close> facts in auto)
  next
    case False
    then have "Open parse_url aws_config_ok get_attributes url region = Some Refused_Queue" using run by auto
    with \<open>url \<noteq> []\<close> show ?thesis by simp
  qed
qed

text \<open>
  C37: the start of the queue never panics, although the check reads the second part of the URL's host
  without asking for one.  Polling without a queue is chosen exactly when neither URL nor region is
  given.  A queue that is accepted has the URL of an SQS queue in the given region over HTTPS, to
  whose endpoint the client is pinned, and the attributes that the contract asks for: a visibility
  timeout of 300 seconds, messages of at most 1024 bytes kept for a day, receives that wait for ten
  seconds, server-side encryption, no FIFO order; and its fifth failed receive goes to another queue
  of the same account and region.
\<close>

theorem Open_checked:
  assumes "\<forall>u. parse_url [] = Some u \<longrightarrow> ul_scheme u = []"
  shows "Open parse_url aws_config_ok get_attributes url region \<noteq> None \<and>
    (Open parse_url aws_config_ok get_attributes url region = Some Local_Polling \<longleftrightarrow> url = [] \<and> region = []) \<and>
    (\<forall>q endpoint. Open parse_url aws_config_ok get_attributes url region = Some (Opened q endpoint) \<longrightarrow>
       q = url \<and> endpoint = ''https://sqs.'' @ region @ ''.amazonaws.com'' \<and>
       (\<exists>u attrs redrive account own dead.
          parse_url url = Some u \<and> ul_scheme u = ''https'' \<and> ul_host u = ''sqs.'' @ region @ ''.amazonaws.com'' \<and>
          ul_path u = ''/'' @ account @ ''/'' @ own \<and> get_attributes url = Some attrs \<and>
          attr attrs ''VisibilityTimeout'' = ''300'' \<and> attr attrs ''MaximumMessageSize'' = ''1024'' \<and>
          attr attrs ''ReceiveMessageWaitTimeSeconds'' = ''10'' \<and> attr attrs ''MessageRetentionPeriod'' = ''86400'' \<and>
          attr attrs ''SqsManagedSseEnabled'' = ''true'' \<and>
          attr attrs ''FifoQueue'' \<noteq> ''true'' \<and>
          unmarshal_redrive (attr attrs ''RedrivePolicy'') = Some redrive \<and> rd_count redrive = ''5'' \<and>
          rd_target redrive = ''arn:aws:sqs:'' @ region @ '':'' @ account @ '':'' @ dead \<and> dead \<noteq> own \<and>
          length account = 12 \<and> list_all is_decimal account \<and> dead \<noteq> [] \<and> list_all queue_char dead))"
  using assms by (rule Open_shape)

section \<open>The property on a concrete queue\<close>

definition hints_url :: string where
  "hints_url = ''https://sqs.eu-west-1.amazonaws.com/123456789012/hints''"

definition hints_parse :: "string \<Rightarrow> url option" where
  "hints_parse raw = (if raw = hints_url
     then Some \<lparr> ul_scheme = ''https'', ul_user = False, ul_host = ''sqs.eu-west-1.amazonaws.com'',
       ul_path = ''/123456789012/hints'', ul_raw_path = [], ul_query = [], ul_fragment = [] \<rparr>
     else None)"

definition hints_policy :: string where
  "hints_policy = ''{\"deadLetterTargetArn\":\"arn:aws:sqs:eu-west-1:123456789012:dead\",\"maxReceiveCount\":5}''"

definition hints_attributes :: attributes where
  "hints_attributes = map_of
     [(''VisibilityTimeout'', ''300''), (''MaximumMessageSize'', ''1024''), (''ReceiveMessageWaitTimeSeconds'', ''10''),
      (''MessageRetentionPeriod'', ''86400''), (''SqsManagedSseEnabled'', ''true''), (''RedrivePolicy'', hints_policy)]"

lemma hints_redrive:
  "unmarshal_redrive hints_policy = Some \<lparr> rd_target = ''arn:aws:sqs:eu-west-1:123456789012:dead'', rd_count = ''5'' \<rparr>"
proof -
  have "json_read hints_policy = Some (J_Object [(''deadLetterTargetArn'', J_String ''arn:aws:sqs:eu-west-1:123456789012:dead''),
      (''maxReceiveCount'', J_Number ''5'')])"
  proof (rule json_readI [of 5 _ _ "[]"])
    show "read_value 5 0 hints_policy = Some (J_Object [(''deadLetterTargetArn'', J_String ''arn:aws:sqs:eu-west-1:123456789012:dead''),
      (''maxReceiveCount'', J_Number ''5'')], [])"
      by (simp add: hints_policy_def eval_nat_numeral read_simps expect_def skip_space_def json_space_def maximum_nesting_def
          json_string_plain_Cons plain_def json_number_def number_sign_def number_int_def number_frac_def number_exp_def
          some_digits_def is_digit_def char_between_def)
  qed (simp add: skip_space_def)
  then show ?thesis
    by (simp add: unmarshal_redrive_def read_struct_def redrive_field_def names_field_def string_field_def number_field_def
        char_between_def)
qed

lemma hints_region: "regionPattern ''eu-west-1''"
  by (simp add: regionPattern_def class_defs)

lemma hints_paths: "pathPattern ''/123456789012/hints''" "pathPattern ''/123456789012/dead''"
  by (simp_all add: pathPattern_def queue_char_def class_defs)

lemma hints_check: "Check hints_parse (\<lambda>_. Some hints_attributes) hints_url = Some True"
proof -
  have "check_target (the (hints_parse hints_url)) \<lparr> rd_target = ''arn:aws:sqs:eu-west-1:123456789012:dead'', rd_count = ''5'' \<rparr> = Some True"
    using hints_paths by (simp add: hints_parse_def check_target_def trim_prefix_def)
  then show ?thesis
    by (simp add: Check_def attr_def hints_attributes_def hints_redrive) (simp add: hints_parse_def)
qed

theorem Open_checked_witness:
  "\<exists>endpoint account dead. Open hints_parse True (\<lambda>_. Some hints_attributes) hints_url ''eu-west-1'' = Some (Opened hints_url endpoint) \<and>
     endpoint = ''https://sqs.eu-west-1.amazonaws.com'' \<and> ''arn:aws:sqs:eu-west-1:123456789012:dead'' =
       ''arn:aws:sqs:'' @ ''eu-west-1'' @ '':'' @ account @ '':'' @ dead \<and> list_all queue_char dead"
proof -
  have "\<forall>u. hints_parse [] = Some u \<longrightarrow> ul_scheme u = []"
    by (simp add: hints_parse_def hints_url_def)
  note checked = Open_checked [where parse_url = hints_parse and aws_config_ok = True and
      get_attributes = "\<lambda>_. Some hints_attributes" and url = hints_url and region = "''eu-west-1''", OF this]
  have "validURL hints_parse hints_url ''eu-west-1''"
    using hints_region hints_paths by (simp add: validURL_def hints_parse_def)
  then obtain endpoint where opened:
    "Open hints_parse True (\<lambda>_. Some hints_attributes) hints_url ''eu-west-1'' = Some (Opened hints_url endpoint)"
    using hints_check by (simp add: Open_def New_def) (simp add: hints_url_def)
  with checked have end_of: "endpoint = ''https://sqs.'' @ ''eu-west-1'' @ ''.amazonaws.com''"
    and "\<exists>attrs redrive account dead. Some hints_attributes = Some attrs \<and>
      unmarshal_redrive (attr attrs ''RedrivePolicy'') = Some redrive \<and>
      rd_target redrive = ''arn:aws:sqs:'' @ ''eu-west-1'' @ '':'' @ account @ '':'' @ dead \<and> list_all queue_char dead"
    by blast+
  then obtain account dead where
    "rd_target \<lparr> rd_target = ''arn:aws:sqs:eu-west-1:123456789012:dead'', rd_count = ''5'' \<rparr> =
      ''arn:aws:sqs:'' @ ''eu-west-1'' @ '':'' @ account @ '':'' @ dead" "list_all queue_char dead"
    using hints_redrive by (auto simp: attr_def hints_attributes_def)
  with opened end_of show ?thesis by (intro exI conjI) simp_all
qed

end
