(* ===== verification/Process_Start.thy ===== *)
theory Process_Start
  imports Notification_Config Database_Tls
begin

text \<open>
  What the entry points under \<open>src/cmd/\<close> have in common: the environment of a start, its outcome, and
  the configuration of the database connection.  What \<open>pgxpool.ParseConfig\<close>, \<open>pgxpool.NewWithConfig\<close>,
  \<open>encoding/pem\<close>, \<open>crypto/x509\<close>, \<open>net/url\<close> and the AWS client answer is a field of the environment.
\<close>

record environment =
  en_getenv :: "string \<Rightarrow> string"
  en_parse_config :: "string \<Rightarrow> conn_config option"
  en_pem :: pem_decode
  en_x509 :: parse_certificate
  en_now :: time
  en_pool :: bool
  en_parse_url :: "string \<Rightarrow> url option"
  en_aws :: bool
  en_attributes :: "string \<Rightarrow> attributes option"

datatype start_failure =
    Missing_Settings
  | Reserved_Source
  | Short_Secret
  | Parse_Configuration
  | Trust_Configuration tls_error
  | Create_Pool
  | Queue_Validation
  | Receiver_Configuration
  | Sandbox_Configuration
  | Dashboard_Unavailable

datatype 'p started = Exited start_failure | Panicked | Started 'p

record pool =
  po_conn :: conn_config
  po_max :: nat
  po_min :: nat

text \<open>The parsed connection configuration with the trust of the environment; \<open>None\<close> is a panic.\<close>

definition database_connection :: "environment \<Rightarrow> (start_failure + conn_config) option" where
  "database_connection w =
     (case en_parse_config w (en_getenv w ''RELAY_DATABASE_URL'') of
        None \<Rightarrow> Some (Inl Parse_Configuration)
      | Some parsed \<Rightarrow>
          (case ConfigureTLS (en_pem w) (en_x509 w) (en_now w) (Some parsed)
                  (Some \<lparr> to_ca_pem = en_getenv w ''RELAY_DATABASE_CA'', to_required = en_getenv w ''RELAY_DATABASE_CA_REQUIRED'' \<rparr>) of
             None \<Rightarrow> None
           | Some (Some e, _) \<Rightarrow> Some (Inl (Trust_Configuration e))
           | Some (None, conn) \<Rightarrow> Some (Inr conn)))"

definition notification_queue :: "environment \<Rightarrow> opened option" where
  "notification_queue w =
     Open (en_parse_url w) (en_aws w) (en_attributes w) (en_getenv w ''RELAY_SQS_QUEUE_URL'') (en_getenv w ''RELAY_SQS_REGION'')"

text \<open>The queue of an opened configuration; polling alone has none.\<close>

definition queue_of :: "opened \<Rightarrow> string option" where
  "queue_of result = (case result of Opened q _ \<Rightarrow> Some q | _ \<Rightarrow> None)"

section \<open>What a start can rely on\<close>

text \<open>A connection that verifies its only target by name, over TLS 1.2 or later, against checked anchors.\<close>

definition verified_connection :: "time \<Rightarrow> conn_config \<Rightarrow> bool" where
  "verified_connection now c \<longleftrightarrow>
     (\<exists>tls roots. cc_tls c = Some tls \<and> \<not> tc_skip_verify tls \<and> tc_server_name tls \<noteq> [] \<and> cc_fallbacks c = 0 \<and>
        0x303 \<le> tc_min tls \<and> tc_roots tls = Some roots \<and> roots \<noteq> [] \<and> list_all (acceptable now) roots)"

lemma ConfigureTLS_total: "ConfigureTLS decode parse now (Some c) (Some opts) \<noteq> None"
  by (simp add: ConfigureTLS_def)

lemma database_connection_total: "database_connection w \<noteq> None"
  by (auto simp: database_connection_def split: option.split prod.split dest: ConfigureTLS_total [THEN notE])

lemma database_connection_verified:
  assumes "database_connection w = Some (Inr conn)"
    and "en_getenv w ''RELAY_DATABASE_CA'' \<noteq> [] \<or> en_getenv w ''RELAY_DATABASE_CA_REQUIRED'' = ''true''"
  shows "verified_connection (en_now w) conn"
proof -
  define opts where "opts = \<lparr> to_ca_pem = en_getenv w ''RELAY_DATABASE_CA'', to_required = en_getenv w ''RELAY_DATABASE_CA_REQUIRED'' \<rparr>"
  obtain parsed where run: "ConfigureTLS (en_pem w) (en_x509 w) (en_now w) (Some parsed) (Some opts) = Some (None, conn)"
    using assms(1) by (auto simp: database_connection_def opts_def split: option.splits prod.splits)
  have "to_ca_pem opts \<noteq> [] \<or> to_required opts = ''true''" using assms(2) by (simp add: opts_def)
  with ConfigureTLS_checked [OF run] obtain current roots version where
    "\<not> tc_skip_verify current" "tc_server_name current \<noteq> []" "cc_fallbacks parsed = 0" "0x303 \<le> version" "roots \<noteq> []"
    "list_all (acceptable (en_now w)) roots" "conn = parsed\<lparr>cc_tls := Some (current\<lparr>tc_roots := Some roots, tc_min := version\<rparr>)\<rparr>"
    by blast
  then show ?thesis by (simp add: verified_connection_def)
qed

lemma notification_queue_total:
  "\<forall>u. en_parse_url w [] = Some u \<longrightarrow> ul_scheme u = [] \<Longrightarrow> notification_queue w \<noteq> None"
  unfolding notification_queue_def by (rule Open_shape [THEN conjunct1])

lemma notification_queue_polling:
  assumes "\<forall>u. en_parse_url w [] = Some u \<longrightarrow> ul_scheme u = []"
    and "notification_queue w = Some result" and "result \<noteq> Refused_Queue"
  shows "queue_of result = None \<longleftrightarrow> en_getenv w ''RELAY_SQS_QUEUE_URL'' = [] \<and> en_getenv w ''RELAY_SQS_REGION'' = []"
proof -
  have "queue_of result = None \<longleftrightarrow> result = Local_Polling"
    using assms(3) by (cases result) (simp_all add: queue_of_def)
  also have "\<dots> \<longleftrightarrow> notification_queue w = Some Local_Polling" using assms(2) by simp
  also have "\<dots> \<longleftrightarrow> en_getenv w ''RELAY_SQS_QUEUE_URL'' = [] \<and> en_getenv w ''RELAY_SQS_REGION'' = []"
    unfolding notification_queue_def using assms(1) by (rule Open_shape [THEN conjunct2, THEN conjunct1])
  finally show ?thesis .
qed

section \<open>An environment for examples\<close>

text \<open>Every service answers, and neither a trust anchor nor a queue is configured.\<close>

definition sample_environment_of :: "(string \<Rightarrow> string) \<Rightarrow> environment" where
  "sample_environment_of getenv =
     \<lparr> en_getenv = getenv, en_parse_config = (\<lambda>_. Some sample_connection), en_pem = sample_decode, en_x509 = (\<lambda>_. None),
       en_now = 0, en_pool = True, en_parse_url = (\<lambda>_. None), en_aws = False, en_attributes = (\<lambda>_. None) \<rparr>"

lemma sample_environment_of_simps [simp]:
  "en_getenv (sample_environment_of getenv) = getenv" "en_pool (sample_environment_of getenv)"
  "en_parse_url (sample_environment_of getenv) = (\<lambda>_. None)" "en_now (sample_environment_of getenv) = 0"
  by (simp_all add: sample_environment_of_def)

lemma sample_environment_of_connection:
  "getenv ''RELAY_DATABASE_CA'' = [] \<Longrightarrow> getenv ''RELAY_DATABASE_CA_REQUIRED'' = [] \<Longrightarrow>
     database_connection (sample_environment_of getenv) = Some (Inr sample_connection)"
  by (simp add: database_connection_def sample_environment_of_def ConfigureTLS_def)

lemma sample_environment_of_queue:
  "getenv ''RELAY_SQS_QUEUE_URL'' = [] \<Longrightarrow> getenv ''RELAY_SQS_REGION'' = [] \<Longrightarrow>
     notification_queue (sample_environment_of getenv) = Some Local_Polling"
  by (simp add: notification_queue_def Open_def)

end
