(* ===== verification/Api_Process.thy ===== *)
theory Api_Process
  imports Event_Api Sandbox_Http Demo_Receiver Site Process_Start Relay_System
begin

text \<open>
  The API process, \<open>src/cmd/api/main.go\<close>: the start with its checks, the two multiplexers, and what one
  request does to the database.  \<open>open_root\<close> is what \<open>os.OpenRoot\<close> finds.  The fields of the server itself
  (its timeouts and the limit on header bytes) have no counterpart in the model of a request.
\<close>

section \<open>The start\<close>

record api_configuration =
  cf_address :: string
  cf_database_url :: string
  cf_source_key :: string
  cf_ingress_secret :: string
  cf_destination_url :: string
  cf_operator_token :: string

definition load_configuration :: "(string \<Rightarrow> string) \<Rightarrow> start_failure + api_configuration" where
  "load_configuration getenv =
     (let c = \<lparr> cf_address = getenv ''RELAY_HTTP_ADDRESS'', cf_database_url = getenv ''RELAY_DATABASE_URL'',
            cf_source_key = getenv ''RELAY_SOURCE_KEY'', cf_ingress_secret = getenv ''RELAY_INGRESS_SECRET'',
            cf_destination_url = getenv ''RELAY_DESTINATION_URL'', cf_operator_token = getenv ''RELAY_OPERATOR_TOKEN'' \<rparr>
      in if has_prefix (cf_source_key c) ''sandbox:'' then Inl Reserved_Source
         else let c = (if cf_address c = [] then c\<lparr>cf_address := '':8080''\<rparr> else c)
           in if cf_database_url c = [] \<or> cf_source_key c = [] then Inl Missing_Settings
              else if length (cf_ingress_secret c) < 16 then Inl Short_Secret
              else if length (cf_operator_token c) < 16 then Inl Short_Secret
              else Inr c)"

record api_routes =
  ar_api :: api
  ar_queue :: "string option"
  ar_receiver :: "receiver option"
  ar_visitor :: "handler option"

text \<open>The two optional routes: what the environment asks for, or the failure of the start.\<close>

definition demo_route :: "environment \<Rightarrow> start_failure + receiver option" where
  "demo_route w =
     (let secret = en_getenv w ''RELAY_DEMO_RECEIVER_SECRET''
      in if secret = [] then Inr None
         else case Demo_Receiver.New (bytes_of secret) of
           None \<Rightarrow> Inl Receiver_Configuration
         | Some receiver \<Rightarrow> Inr (Some receiver))"

definition sandbox_route :: "environment \<Rightarrow> start_failure + handler option" where
  "sandbox_route w =
     (let origin = en_getenv w ''RELAY_SANDBOX_ORIGIN''
      in if origin = [] then Inr None
         else case hex_decode (en_getenv w ''RELAY_SANDBOX_KEY'') of
           None \<Rightarrow> Inl Sandbox_Configuration
         | Some key \<Rightarrow>
             let visitor = \<lparr> sh_key = key, sh_origin = origin \<rparr>
             in if \<not> Valid_handler (en_parse_url w) visitor then Inl Sandbox_Configuration else Inr (Some visitor))"

text \<open>The outer \<open>None\<close> is the panic of \<open>httpapi.New\<close>.\<close>

definition main_routes :: "environment \<Rightarrow> api_configuration \<Rightarrow> string option \<Rightarrow> (start_failure + api_routes) option" where
  "main_routes w c queue =
     (case Event_Api.New True (cf_source_key c) (bytes_of (cf_ingress_secret c)) (cf_destination_url c)
             (bytes_of (cf_operator_token c)) of
        None \<Rightarrow> None
      | Some eventAPI \<Rightarrow> Some (
          case demo_route w of
            Inl e \<Rightarrow> Inl e
          | Inr receiver \<Rightarrow>
              (case sandbox_route w of
                 Inl e \<Rightarrow> Inl e
               | Inr visitor \<Rightarrow>
                   Inr \<lparr> ar_api = eventAPI, ar_queue = queue, ar_receiver = receiver, ar_visitor = visitor \<rparr>)))"

record api_process =
  aq_address :: string
  aq_pool :: pool
  aq_routes :: api_routes
  aq_site :: "root option"

definition dashboard :: "(string \<Rightarrow> root option) \<Rightarrow> environment \<Rightarrow> start_failure + root option" where
  "dashboard open_root w =
     (let directory = en_getenv w ''RELAY_WEB_DIRECTORY''
      in if directory = [] then Inr None
         else case Site.Open (open_root directory) of
           None \<Rightarrow> Inl Dashboard_Unavailable
         | Some site \<Rightarrow> Inr (Some site))"

definition api_start :: "(string \<Rightarrow> root option) \<Rightarrow> environment \<Rightarrow> api_process started" where
  "api_start open_root w =
     (case load_configuration (en_getenv w) of
        Inl e \<Rightarrow> Exited e
      | Inr c \<Rightarrow>
          (case database_connection w of
             None \<Rightarrow> Panicked
           | Some (Inl e) \<Rightarrow> Exited e
           | Some (Inr conn) \<Rightarrow>
               if \<not> en_pool w then Exited Create_Pool
               else case notification_queue w of
                 None \<Rightarrow> Panicked
               | Some Refused_Queue \<Rightarrow> Exited Queue_Validation
               | Some result \<Rightarrow>
                   (case main_routes w c (queue_of result) of
                      None \<Rightarrow> Panicked
                    | Some (Inl e) \<Rightarrow> Exited e
                    | Some (Inr handlers) \<Rightarrow>
                        (case dashboard open_root w of
                           Inl e \<Rightarrow> Exited e
                         | Inr site \<Rightarrow>
                             Started \<lparr> aq_address = cf_address c, aq_pool = \<lparr> po_conn = conn, po_max = 8, po_min = 1 \<rparr>,
                               aq_routes = handlers, aq_site = site \<rparr>))))"

section \<open>The multiplexers\<close>

text \<open>
  The patterns of \<open>main_routes\<close>: the most specific one that matches wins, so the receiver and the visitors
  come before \<open>/v1/\<close>.  A path that only lacks the slash of a subtree is redirected to it.
\<close>

datatype v1_target = To_Receiver receiver | To_Visitor handler | To_Operator | To_Sandbox_Root

definition v1_target_of :: "api_routes \<Rightarrow> string list \<Rightarrow> v1_target" where
  "v1_target_of a path =
     (case path of
        p # q # rest \<Rightarrow>
          if q = ''demo-receiver'' \<and> rest = []
          then (case ar_receiver a of Some h \<Rightarrow> To_Receiver h | None \<Rightarrow> To_Operator)
          else if q = ''sandbox''
          then (case ar_visitor a of
                  None \<Rightarrow> To_Operator
                | Some visitor \<Rightarrow> if rest = [] then To_Sandbox_Root else To_Visitor visitor)
          else To_Operator
      | _ \<Rightarrow> To_Operator)"

text \<open>The patterns of \<open>new_handler\<close>, with \<open>/\<close> where there is a dashboard.\<close>

datatype target = To_Health | To_V1 | To_V1_Root | To_Site root | To_Nothing nat

definition target_of :: "root option \<Rightarrow> request \<Rightarrow> target" where
  "target_of site r =
     (if hr_path r = [''health''] \<and> match_method ''GET'' (hr_method r) then To_Health
      else case hr_path r of
        [p] \<Rightarrow>
          if p = ''v1'' then To_V1_Root
          else (case site of Some files \<Rightarrow> To_Site files | None \<Rightarrow> To_Nothing (if p = ''health'' then 405 else 404))
      | p # q # rest \<Rightarrow>
          if p = ''v1'' then To_V1
          else (case site of Some files \<Rightarrow> To_Site files | None \<Rightarrow> To_Nothing 404)
      | [] \<Rightarrow> (case site of Some files \<Rightarrow> To_Site files | None \<Rightarrow> To_Nothing 404))"

section \<open>One request\<close>

record serving_env =
  se_now :: time
  se_random :: "bytes option"
  se_nets :: "nat \<Rightarrow> net"
  se_clock :: "nat \<Rightarrow> time"
  se_publish :: "string \<Rightarrow> bool"
  se_query_state :: "string \<Rightarrow> string"
  se_in_use :: nat
  se_visitor :: surroundings

datatype api_answer =
    Healthy nat "(string \<times> string) list" string
  | Moved string
  | Unmatched nat
  | Operator_Answer response
  | Receiver_Answer nat "(string \<times> string) list"
  | Visitor_Answer "nat \<times> sandbox_reply"
  | Dashboard_Answer site_reply "(string \<times> string) list"

definition health_get :: api_answer where
  "health_get = Healthy 200 [(''Content-Type'', ''application/json'')]
     ([CHR ''{'', CHR 0x22] @ ''status'' @ [CHR 0x22, CHR '':'', CHR 0x22] @ ''ok'' @ [CHR 0x22, CHR ''}'', CHR 0x0A])"

text \<open>The publisher of both stores: the queue, where there is one.\<close>

definition publisher_of :: "api_routes \<Rightarrow> serving_env \<Rightarrow> (string \<Rightarrow> bool) option" where
  "publisher_of a env = map_option (\<lambda>_. se_publish env) (ar_queue a)"

definition serve_v1 :: "(string \<Rightarrow> url option) \<Rightarrow> api_routes \<Rightarrow> serving_env \<Rightarrow> request \<Rightarrow> db \<Rightarrow> api_answer \<times> db" where
  "serve_v1 parse_url a env r d =
     (case v1_target_of a (hr_path r) of
        To_Receiver h \<Rightarrow>
          (let (status, headers) = Demo_Receiver.ServeHTTP h (se_now env) (se_in_use env) r
           in (Receiver_Answer status headers, d))
      | To_Visitor visitor \<Rightarrow>
          (let (answer, d', hints) = Sandbox_Http.ServeHTTP parse_url visitor
                 ((se_visitor env)\<lparr>sr_publisher := publisher_of a env\<rparr>) r d
           in (Visitor_Answer answer, d'))
      | To_Operator \<Rightarrow>
          (let (response, d') = Handler (pg_event_store (se_nets env) (se_clock env) (publisher_of a env))
                 (se_query_state env) (ar_api a) (se_now env) (se_random env) r d
           in (Operator_Answer response, d'))
      | To_Sandbox_Root \<Rightarrow> (Moved ''/v1/sandbox/'', d))"

definition serve :: "(string \<Rightarrow> url option) \<Rightarrow> api_process \<Rightarrow> serving_env \<Rightarrow> request \<Rightarrow> db \<Rightarrow> api_answer \<times> db" where
  "serve parse_url p env r d =
     (case target_of (aq_site p) r of
        To_Health \<Rightarrow> (health_get, d)
      | To_V1 \<Rightarrow> serve_v1 parse_url (aq_routes p) env r d
      | To_V1_Root \<Rightarrow> (Moved ''/v1/'', d)
      | To_Site files \<Rightarrow> (let (reply, headers) = Site.ServeHTTP files r in (Dashboard_Answer reply headers, d))
      | To_Nothing status \<Rightarrow> (Unmatched status, d))"

section \<open>What a start guarantees\<close>

lemma load_configuration_Inr:
  assumes "load_configuration getenv = Inr c"
  shows "cf_source_key c \<noteq> [] \<and> \<not> has_prefix (cf_source_key c) ''sandbox:'' \<and>
    16 \<le> length (cf_ingress_secret c) \<and> 16 \<le> length (cf_operator_token c) \<and> cf_address c \<noteq> [] \<and> cf_database_url c \<noteq> []"
  using assms by (auto simp: load_configuration_def Let_def split: if_splits)

lemma main_routes_total:
  "main_routes w c queue = None \<Longrightarrow> load_configuration getenv = Inr c \<Longrightarrow> False"
  by (drule load_configuration_Inr) (simp add: main_routes_def Event_Api.New_def)

lemma demo_route_Inr: "demo_route w = Inr (Some h) \<Longrightarrow> 16 \<le> length (dr_secret h) \<and> length (dr_secret h) \<le> 256"
  by (auto simp: demo_route_def Let_def Demo_Receiver.New_def split: if_splits option.splits)

lemma sandbox_route_Inr: "sandbox_route w = Inr (Some v) \<Longrightarrow> Valid_handler (en_parse_url w) v"
  by (auto simp: sandbox_route_def Let_def split: if_splits option.splits)

lemma dashboard_Inr: "dashboard open_root w = Inr (Some files) \<Longrightarrow> \<exists>info. files ''index.html'' = Some info \<and> sf_regular info = Some True"
  by (auto simp: dashboard_def Let_def Site.Open_def split: if_splits option.splits)

lemma main_routes_Inr:
  assumes "main_routes w c queue = Some (Inr a)"
  shows "ap_source (ar_api a) = cf_source_key c \<and> ap_ingress (ar_api a) = bytes_of (cf_ingress_secret c) \<and>
    ap_token (ar_api a) = bytes_of (cf_operator_token c) \<and> ar_queue a = queue \<and>
    demo_route w = Inr (ar_receiver a) \<and> sandbox_route w = Inr (ar_visitor a)"
  using assms by (auto simp: main_routes_def Event_Api.New_def split: if_splits sum.splits)

lemma api_start_cases:
  assumes "api_start open_root w = Started p"
  obtains c conn result where "load_configuration (en_getenv w) = Inr c" and "database_connection w = Some (Inr conn)"
    and "notification_queue w = Some result" and "result \<noteq> Refused_Queue"
    and "main_routes w c (queue_of result) = Some (Inr (aq_routes p))" and "dashboard open_root w = Inr (aq_site p)"
    and "aq_address p = cf_address c" and "po_conn (aq_pool p) = conn"
  using assms by (auto simp: api_start_def split: sum.splits option.splits if_splits opened.splits)

text \<open>
  C32: The start of the API never panics, and what it starts is well formed: a source key outside the visitors'
  namespace, secrets of at least sixteen bytes, a receiver and a visitor handler that passed their
  own checks, a dashboard with a page to show, a publisher exactly when a queue is configured, and a
  database connection that is verified as far as the environment asks for it.
\<close>

theorem api_start_sound:
  assumes "\<forall>u. en_parse_url w [] = Some u \<longrightarrow> ul_scheme u = []"
  shows "api_start open_root w \<noteq> Panicked \<and>
    (\<forall>p. api_start open_root w = Started p \<longrightarrow>
       ap_source (ar_api (aq_routes p)) \<noteq> [] \<and> \<not> has_prefix (ap_source (ar_api (aq_routes p))) ''sandbox:'' \<and>
       16 \<le> length (ap_ingress (ar_api (aq_routes p))) \<and> 16 \<le> length (ap_token (ar_api (aq_routes p))) \<and>
       aq_address p \<noteq> [] \<and>
       (\<forall>h. ar_receiver (aq_routes p) = Some h \<longrightarrow> 16 \<le> length (dr_secret h) \<and> length (dr_secret h) \<le> 256) \<and>
       (\<forall>v. ar_visitor (aq_routes p) = Some v \<longrightarrow> Valid_handler (en_parse_url w) v) \<and>
       (\<forall>files. aq_site p = Some files \<longrightarrow> (\<exists>info. files ''index.html'' = Some info \<and> sf_regular info = Some True)) \<and>
       (ar_queue (aq_routes p) = None \<longleftrightarrow>
          en_getenv w ''RELAY_SQS_QUEUE_URL'' = [] \<and> en_getenv w ''RELAY_SQS_REGION'' = []) \<and>
       (en_getenv w ''RELAY_DATABASE_CA'' \<noteq> [] \<or> en_getenv w ''RELAY_DATABASE_CA_REQUIRED'' = ''true'' \<longrightarrow>
          verified_connection (en_now w) (po_conn (aq_pool p))))"
proof (rule conjI)
  obtain x y where "database_connection w = Some x" "notification_queue w = Some y"
    using notification_queue_total [OF assms] database_connection_total [of w] by blast
  then show "api_start open_root w \<noteq> Panicked"
    by (auto simp: api_start_def split: sum.split option.split opened.split dest: main_routes_total)
next
  show "\<forall>p. api_start open_root w = Started p \<longrightarrow>
       ap_source (ar_api (aq_routes p)) \<noteq> [] \<and> \<not> has_prefix (ap_source (ar_api (aq_routes p))) ''sandbox:'' \<and>
       16 \<le> length (ap_ingress (ar_api (aq_routes p))) \<and> 16 \<le> length (ap_token (ar_api (aq_routes p))) \<and>
       aq_address p \<noteq> [] \<and>
       (\<forall>h. ar_receiver (aq_routes p) = Some h \<longrightarrow> 16 \<le> length (dr_secret h) \<and> length (dr_secret h) \<le> 256) \<and>
       (\<forall>v. ar_visitor (aq_routes p) = Some v \<longrightarrow> Valid_handler (en_parse_url w) v) \<and>
       (\<forall>files. aq_site p = Some files \<longrightarrow> (\<exists>info. files ''index.html'' = Some info \<and> sf_regular info = Some True)) \<and>
       (ar_queue (aq_routes p) = None \<longleftrightarrow>
          en_getenv w ''RELAY_SQS_QUEUE_URL'' = [] \<and> en_getenv w ''RELAY_SQS_REGION'' = []) \<and>
       (en_getenv w ''RELAY_DATABASE_CA'' \<noteq> [] \<or> en_getenv w ''RELAY_DATABASE_CA_REQUIRED'' = ''true'' \<longrightarrow>
          verified_connection (en_now w) (po_conn (aq_pool p)))" (is "\<forall>p. _ \<longrightarrow> ?sound p")
  proof (intro allI impI)
    fix p
    assume "api_start open_root w = Started p"
    then obtain c conn result where p: "load_configuration (en_getenv w) = Inr c" "database_connection w = Some (Inr conn)"
      "notification_queue w = Some result" "result \<noteq> Refused_Queue"
      "main_routes w c (queue_of result) = Some (Inr (aq_routes p))" "dashboard open_root w = Inr (aq_site p)"
      "aq_address p = cf_address c" "po_conn (aq_pool p) = conn" by (rule api_start_cases)
    note routes = main_routes_Inr [OF p(5)]
    show "?sound p"
      using load_configuration_Inr [OF p(1)] routes demo_route_Inr [of w] sandbox_route_Inr [of w]
        dashboard_Inr [of open_root w] p(6-8) notification_queue_polling [OF assms p(3,4)]
        database_connection_verified [OF p(2)]
      by auto
  qed
qed

section \<open>What a request may change\<close>

lemma api_start_source:
  assumes "api_start open_root w = Started p"
  shows "\<not> has_prefix (ap_source (ar_api (aq_routes p))) ''sandbox:''"
  using assms by (rule api_start_cases) (simp add: load_configuration_Inr main_routes_Inr)

text \<open>
  The contract between the handlers and the store: a property of databases that the store operations of the
  API keep, receipts and operator replays outside the visitors' namespace only.
\<close>

locale request_closed =
  fixes P :: "db \<Rightarrow> bool"
  assumes accept_closed: "P d \<Longrightarrow> Accept nets clock later publisher receipt d = (r1, d', hints) \<Longrightarrow>
      \<not> has_prefix (rc_source receipt) ''sandbox:'' \<Longrightarrow> P d'"
    and replay_closed: "P d \<Longrightarrow> Replay nets now later publisher i k d = (r2, d', hints) \<Longrightarrow>
      \<not> has_prefix k ''sandbox:'' \<Longrightarrow> P d'"
    and create_closed: "P d \<Longrightarrow> Sandbox_Store.Create nets clock sid expiry d = (r3, d') \<Longrightarrow> P d'"
    and submit_closed: "P d \<Longrightarrow> Submit random nets clock publisher sid sc d = (r4, d', hints) \<Longrightarrow> P d'"
    and visitor_replay_closed: "P d \<Longrightarrow> Sandbox_Replay nets clock publisher sid i d = (r3, d', hints) \<Longrightarrow> P d'"
    and cleanup_closed: "P d \<Longrightarrow> Cleanup nets clock locked d = (r3, d') \<Longrightarrow> P d'"
begin

lemma handler_closed:
  assumes "P d" and "Handler (pg_event_store nets clock publisher) query_state a now random r d = (response, d')"
    and "\<not> has_prefix (ap_source a) ''sandbox:''"
  shows "P d'"
  using assms(2)
proof (cases rule: Handler_state)
  case (receipt rc)
  obtain res d1 pubs where run: "Accept nets clock d publisher rc d = (res, d1, pubs)" by (metis prod_cases3)
  then have "d' = d1" using receipt(2) by (simp add: pg_event_store_def pg_accept_def)
  with accept_closed [OF assms(1) run] assms(3) receipt(1) show ?thesis by simp
next
  case (replay i)
  obtain res d1 pubs where run: "Replay nets (clock 0) d publisher i (ap_source a) d = (res, d1, pubs)" by (metis prod_cases3)
  then have "d' = d1" using replay by (simp add: pg_event_store_def pg_replay_def)
  with replay_closed [OF assms(1) run assms(3)] show ?thesis by simp
qed (use assms(1) in simp)

lemma create_session_closed:
  assumes "P d" and "create_session h env d = (answer, d', hints)" and others: "\<And>k d. P d \<Longrightarrow> P (sr_others env k d)"
  shows "P d'"
proof -
  obtain r1 d1 where clean: "Cleanup (sr_nets env 1) (sr_clock env 1) (sr_locked env) (sr_others env 1 d) = (r1, d1)" by fastforce
  have d1: "P d1" using clean by (rule cleanup_closed [OF others [OF assms(1)]])
  show ?thesis
  proof (cases r1)
    case (Inr u)
    show ?thesis
    proof (cases "Issue (sr_random env) (sh_key h) (sr_now env 1)")
      case issued: (Inr p)
      obtain ck sid where p: "p = (ck, sid)" by fastforce
      obtain r2 d2 where made: "Create (sr_nets env 2) (sr_clock env 2) sid (ck_expires ck) (sr_others env 2 d1) = (r2, d2)" by fastforce
      have "P d2" using made by (rule create_closed [OF others [OF d1]])
      moreover have "d' = d2"
        using assms(2) clean Inr issued p made by (auto simp: create_session_def split: sum.splits)
      ultimately show ?thesis by simp
    qed (use clean assms(2) d1 Inr in \<open>simp add: create_session_def\<close>)
  qed (use clean assms(2) d1 in \<open>simp add: create_session_def\<close>)
qed

lemma create_request_closed:
  assumes "P d" and "create h env r d = (answer, d', hints)" and "\<And>k d. P d \<Longrightarrow> P (sr_others env k d)"
  shows "P d'"
proof (cases "d' = d")
  case False
  with assms(2) have "create_session h env d = (answer, d', hints)"
    by (auto simp: create_def Let_def split: option.splits if_splits sum.splits)
  from create_session_closed [OF assms(1) this] assms(3) show ?thesis by blast
qed (use assms(1) in simp)

lemma serve_visitor_closed:
  assumes "P d" and "serve_visitor env r sid d = (answer, d', hints)"
  shows "P d'"
proof (cases "serve_mux visitor_routes r")
  case (Inr x)
  obtain route vs where x: "x = (route, vs)" by fastforce
  have "P d'" if "submit env r sid d = (answer, d', hints)"
    using that submit_closed [OF assms(1)] assms(1)
    by (auto simp: submit_def split: option.splits if_splits prod.splits sum.splits)
  moreover have "P d'" if "replay env r i sid d = (answer, d', hints)" for i
    using that visitor_replay_closed [OF assms(1)] assms(1)
    by (auto simp: replay_def split: option.splits if_splits prod.splits sum.splits)
  ultimately show ?thesis
    using assms Inr x
    by (cases route) (auto simp: serve_visitor_def list_events_def detail_event_def split: sum.splits if_splits)
qed (use assms in \<open>simp add: serve_visitor_def\<close>)

lemma visitor_closed:
  assumes "P d" and "Sandbox_Http.ServeHTTP parse_url h env r d = (answer, d', hints)"
    and "\<And>k d. P d \<Longrightarrow> P (sr_others env k d)"
  shows "P d'"
  using assms(1,2) create_request_closed [OF assms(1) _ assms(3)] serve_visitor_closed [OF assms(3) [OF assms(1), of 1]]
  by (auto simp: Sandbox_Http.ServeHTTP_def Let_def split: if_splits sum.splits)

lemma serve_closed:
  assumes "P d" and "serve parse_url p env r d = (answer, d')" and "\<not> has_prefix (ap_source (ar_api (aq_routes p))) ''sandbox:''"
    and "\<And>k d. P d \<Longrightarrow> P (sr_others (se_visitor env) k d)"
  shows "P d'"
proof -
  let ?a = "aq_routes p" and ?sr = "(se_visitor env)\<lparr>sr_publisher := publisher_of (aq_routes p) env\<rparr>"
  have others: "P x \<Longrightarrow> P (sr_others ?sr k x)" for k x using assms(4) by simp
  have "P d'" if v1: "serve_v1 parse_url ?a env r d = (answer, d')"
  proof (cases "v1_target_of ?a (hr_path r)")
    case (To_Visitor h)
    with v1 obtain x hints where "Sandbox_Http.ServeHTTP parse_url h ?sr r d = (x, d', hints)"
      by (auto simp: serve_v1_def split: prod.splits)
    from visitor_closed [OF assms(1) this] others show ?thesis by blast
  next
    case To_Operator
    with v1 obtain x where "Handler (pg_event_store (se_nets env) (se_clock env) (publisher_of ?a env))
        (se_query_state env) (ar_api ?a) (se_now env) (se_random env) r d = (x, d')"
      by (auto simp: serve_v1_def split: prod.splits)
    from handler_closed [OF assms(1) this assms(3)] show ?thesis .
  qed (use v1 assms(1) in \<open>auto simp: serve_v1_def split: prod.splits\<close>)
  then show ?thesis
    using assms(1,2) by (cases "target_of (aq_site p) r") (auto simp: serve_def split: prod.splits)
qed

end

definition sound :: "db \<Rightarrow> bool" where
  "sound d \<longleftrightarrow> store_ok d \<and> tenancy_ok d"

interpretation sound_requests: request_closed sound
  by unfold_locales
    (auto simp: sound_def dest: Accept_inv Replay_inv Accept_tenancy Replay_tenancy Create_inv Submit_inv
      Sandbox_Replay_inv Cleanup_inv)

text \<open>
  The relay's invariants survive every request.  Whichever handler a request reaches in a started process,
  and whatever fails on the way, the constraints, the life cycles, the histories and the separation
  of the visitors from the operator hold afterwards if they held before, as long as the transactions
  of other processes in between keep them.
\<close>

theorem serve_sound:
  assumes "api_start open_root w = Started p" and "store_ok d" and "tenancy_ok d"
    and "\<And>k d. store_ok d \<Longrightarrow> tenancy_ok d \<Longrightarrow> store_ok (sr_others (se_visitor env) k d) \<and> tenancy_ok (sr_others (se_visitor env) k d)"
    and "serve parse_url p env r d = (answer, d')"
  shows "store_ok d' \<and> tenancy_ok d'"
  using sound_requests.serve_closed [OF _ assms(5) api_start_source [OF assms(1)]] assms(2-4) by (simp add: sound_def)

lemma serve_visitor_post:
  assumes "serve_visitor env r sid d = (answer, d', hints)" and "d' \<noteq> d"
  shows "hr_method r = ''POST''"
proof (cases "serve_mux visitor_routes r")
  case (Inr p)
  obtain h vs where p: "p = (h, vs)" by fastforce
  from serve_mux_Inr [OF Inr [unfolded p]] obtain m ps where
    mp: "(m, ps, h) \<in> set visitor_routes" "match_method m (hr_method r)" by blast
  have "h = Submit_Route \<or> h = Replay_Route"
    using assms Inr p
    by (cases h) (auto simp: serve_visitor_def list_events_def detail_event_def split: sum.splits if_splits)
  with mp show ?thesis by (auto simp: visitor_routes_def match_method_def)
qed (use assms in \<open>simp add: serve_visitor_def\<close>)

lemma visitor_changes:
  assumes "Sandbox_Http.ServeHTTP parse_url h env r d = (answer, d', hints)" and "d' \<noteq> d" and "d' \<noteq> sr_others env 1 d"
  shows "hr_method r = ''POST'' \<and> Valid_handler parse_url h \<and> header_get ''Authorization'' r = [] \<and>
    header_get ''Origin'' r = sh_origin h \<and> header_get ''Content-Type'' r = ''application/json''"
proof -
  have post: "hr_method r = ''POST''" if "serve_visitor env r sid (sr_others env 1 d) = (answer, d', hints)" for sid
    using serve_visitor_post [OF that assms(3)] .
  have "hr_method r = ''POST''"
    using assms(1,2) by (auto simp: Sandbox_Http.ServeHTTP_def Let_def split: if_splits sum.splits intro: post)
  with assms(1,2) show ?thesis by (auto simp: Sandbox_Http.ServeHTTP_def split: if_splits)
qed

lemma v1_target_visitor:
  "v1_target_of a path = To_Visitor h \<longleftrightarrow> ar_visitor a = Some h \<and> (\<exists>p x rest. path = p # ''sandbox'' # x # rest)"
  by (auto simp: v1_target_of_def neq_Nil_conv split: list.split option.split)

lemma v1_target_operator:
  "v1_target_of a path = To_Operator \<Longrightarrow> ar_visitor a \<noteq> None \<Longrightarrow> \<nexists>p rest. path = p # ''sandbox'' # rest"
  by (auto simp: v1_target_of_def split: if_splits option.splits)

text \<open>
  C7: Every change has an authority.  Apart from what other processes commit meanwhile, a request changes the
  database only as a \<open>POST\<close>: on a visitors' path, where a visitor handler is configured, as JSON from its
  configured origin and without operator credentials; as an operator's replay, with the bearer token;
  or as a receipt on the path of the configured source, with a fresh signature over its body.  The
  operator's handlers answer only below \<open>/v1\<close> and never under the visitors' prefix while a visitor
  handler is configured, and they answer 200 or 202 only to the token or to such a signature.
\<close>

theorem serve_authority:
  assumes "serve parse_url p env r d = (answer, d')"
  shows "(d' \<noteq> d \<and> d' \<noteq> sr_others (se_visitor env) 1 d \<longrightarrow> hr_method r = ''POST'' \<and>
      ((\<exists>h x rest reply. ar_visitor (aq_routes p) = Some h \<and> hr_path r = ''v1'' # ''sandbox'' # x # rest \<and>
          answer = Visitor_Answer reply \<and> Valid_handler parse_url h \<and> header_get ''Authorization'' r = [] \<and>
          header_get ''Origin'' r = sh_origin h \<and> header_get ''Content-Type'' r = ''application/json'') \<or>
       (\<exists>i token. hr_path r = [''v1'', ''events'', i, ''replay''] \<and> header_get ''Authorization'' r = ''Bearer '' @ token \<and> token \<noteq> [] \<and>
          sha256 (bytes_of token) = sha256 (ap_token (ar_api (aq_routes p)))) \<or>
       (hr_path r = [''v1'', ''sources'', ap_source (ar_api (aq_routes p)), ''events''] \<and>
          Event_Api.authentic (ar_api (aq_routes p)) (se_now env) r [(''source_key'', ap_source (ar_api (aq_routes p)))]))) \<and>
    (\<forall>status reply. answer = Operator_Answer (status, reply) \<longrightarrow>
       (\<exists>x rest. hr_path r = ''v1'' # x # rest \<and> (ar_visitor (aq_routes p) = None \<or> x \<noteq> ''sandbox'')) \<and>
       (status = 200 \<or> status = 202 \<longrightarrow>
          (\<exists>token. header_get ''Authorization'' r = ''Bearer '' @ token \<and> token \<noteq> [] \<and>
             sha256 (bytes_of token) = sha256 (ap_token (ar_api (aq_routes p)))) \<or>
          (hr_method r = ''POST'' \<and> hr_path r = [''v1'', ''sources'', ap_source (ar_api (aq_routes p)), ''events''] \<and>
             Event_Api.authentic (ar_api (aq_routes p)) (se_now env) r [(''source_key'', ap_source (ar_api (aq_routes p)))])))"
proof (cases "target_of (aq_site p) r = To_V1")
  case False
  with assms show ?thesis by (cases "target_of (aq_site p) r") (auto simp: serve_def health_get_def split: prod.splits)
next
  case True
  let ?a = "aq_routes p" and ?sr = "(se_visitor env)\<lparr>sr_publisher := publisher_of (aq_routes p) env\<rparr>"
  from True obtain x rest where path: "hr_path r = ''v1'' # x # rest"
    by (auto simp: target_of_def split: if_splits list.splits option.splits)
  from assms True have v1: "serve_v1 parse_url ?a env r d = (answer, d')" by (simp add: serve_def)
  show ?thesis
  proof (cases "v1_target_of ?a (hr_path r)")
    case (To_Visitor h)
    with v1 obtain y hints where run: "Sandbox_Http.ServeHTTP parse_url h ?sr r d = (y, d', hints)"
      and "answer = Visitor_Answer y" by (auto simp: serve_v1_def split: prod.splits)
    with visitor_changes [OF run] To_Visitor path show ?thesis by (simp add: v1_target_visitor)
  next
    case To_Operator
    with v1 obtain status reply where run: "Handler (pg_event_store (se_nets env) (se_clock env) (publisher_of ?a env))
        (se_query_state env) (ar_api ?a) (se_now env) (se_random env) r d = ((status, reply), d')"
      and answer: "answer = Operator_Answer (status, reply)" by (auto simp: serve_v1_def split: prod.splits)
    have "ar_visitor ?a = None \<or> x \<noteq> ''sandbox''" using v1_target_operator [OF To_Operator] path by auto
    with Handler_credentials [OF run] Handler_changes [OF run] path answer show ?thesis by simp
  qed (use v1 in \<open>auto simp: serve_v1_def split: prod.splits\<close>)
qed

section \<open>The properties on a concrete process\<close>

definition api_environment :: environment where
  "api_environment = sample_environment_of (\<lambda>name.
     if name = ''RELAY_DATABASE_URL'' then ''postgres:'' else if name = ''RELAY_SOURCE_KEY'' then ''shop''
     else if name = ''RELAY_INGRESS_SECRET'' then replicate 16 CHR ''i''
     else if name = ''RELAY_OPERATOR_TOKEN'' then replicate 16 CHR ''o''
     else if name = ''RELAY_DESTINATION_URL'' then ''https://example.com/'' else [])"

definition api_sample :: api_process where
  "api_sample = \<lparr> aq_address = '':8080'', aq_pool = \<lparr> po_conn = sample_connection, po_max = 8, po_min = 1 \<rparr>,
     aq_routes = \<lparr> ar_api = \<lparr> ap_source = ''shop'', ap_ingress = bytes_of (replicate 16 CHR ''i''),
         ap_dest = ''https://example.com/'', ap_token = bytes_of (replicate 16 CHR ''o'') \<rparr>,
       ar_queue = None, ar_receiver = None, ar_visitor = None \<rparr>, aq_site = None \<rparr>"

lemma api_sample_started: "api_start (\<lambda>_. None) api_environment = Started api_sample"
proof -
  have "load_configuration (en_getenv api_environment) = Inr \<lparr> cf_address = '':8080'', cf_database_url = ''postgres:'',
      cf_source_key = ''shop'', cf_ingress_secret = replicate 16 CHR ''i'', cf_destination_url = ''https://example.com/'',
      cf_operator_token = replicate 16 CHR ''o'' \<rparr>"
    by (simp add: load_configuration_def api_environment_def)
  moreover have "database_connection api_environment = Some (Inr sample_connection)" "en_pool api_environment"
    "notification_queue api_environment = Some Local_Polling"
    by (simp_all add: api_environment_def sample_environment_of_connection sample_environment_of_queue)
  moreover have "demo_route api_environment = Inr None" "sandbox_route api_environment = Inr None"
    "dashboard (\<lambda>_. None) api_environment = Inr None"
    by (simp_all add: demo_route_def sandbox_route_def dashboard_def api_environment_def)
  ultimately show ?thesis
    by (simp add: api_start_def main_routes_def Event_Api.New_def queue_of_def) (simp add: api_sample_def)
qed

theorem api_start_sound_witness:
  "api_start (\<lambda>_. None) api_environment = Started api_sample \<and>
   \<not> has_prefix (ap_source (ar_api (aq_routes api_sample))) ''sandbox:''"
proof -
  have "\<forall>u. en_parse_url api_environment [] = Some u \<longrightarrow> ul_scheme u = []"
    by (simp add: api_environment_def)
  from api_start_sound [OF this, of "\<lambda>_. None"] api_sample_started show ?thesis by blast
qed

definition api_serving :: serving_env where
  "api_serving = \<lparr> se_now = 0, se_random = Some (replicate 16 0), se_nets = (\<lambda>_. Done), se_clock = (\<lambda>_. 0),
     se_publish = (\<lambda>_. True), se_query_state = (\<lambda>_. []), se_in_use = 0, se_visitor = sample_surroundings \<rparr>"

theorem serve_sound_witness:
  "\<exists>answer d'. serve (\<lambda>_. None) api_sample api_serving sample_post (empty_db 0) = (answer, d') \<and> store_ok d' \<and> tenancy_ok d'"
proof -
  obtain answer d' where run: "serve (\<lambda>_. None) api_sample api_serving sample_post (empty_db 0) = (answer, d')" by fastforce
  have others: "store_ok x \<Longrightarrow> tenancy_ok x \<Longrightarrow>
      store_ok (sr_others (se_visitor api_serving) k x) \<and> tenancy_ok (sr_others (se_visitor api_serving) k x)" for k x
    by (simp add: api_serving_def sample_surroundings_def)
  have "tenancy_ok (empty_db 0)" by (simp add: tenancy_ok_def empty_db_def)
  from serve_sound [OF api_sample_started store_ok_empty this others run] run show ?thesis by blast
qed

definition operator_get :: request where
  "operator_get = \<lparr> hr_method = ''GET'', hr_path = [''v1'', ''endpoint''], hr_query = [],
     hr_headers = [(''Authorization'', ''Bearer '' @ replicate 16 CHR ''o'')], hr_body = [], hr_broken = False \<rparr>"

theorem serve_authority_witness:
  "fst (serve (\<lambda>_. None) api_sample api_serving operator_get (empty_db 0)) =
     Operator_Answer (200, Endpoint_Reply ''shop'' ''https://example.com/'' True) \<and>
   (\<exists>token. header_get ''Authorization'' operator_get = ''Bearer '' @ token \<and>
     sha256 (bytes_of token) = sha256 (bytes_of (replicate 16 CHR ''o'')))"
proof -
  have header: "header_get ''Authorization'' operator_get = ''Bearer '' @ replicate 16 CHR ''o''"
    by (simp add: operator_get_def header_get_def header_values_def)
  have "authorized (ar_api (aq_routes api_sample)) (''Bearer '' @ replicate 16 CHR ''o'')"
    by (simp add: authorized_def api_sample_def)
  moreover have "serve_mux routes operator_get = Inr (Endpoint_Get, [])"
    by (simp add: routes_def operator_get_def match_method_def)
  moreover have "target_of (aq_site api_sample) operator_get = To_V1"
    "v1_target_of (aq_routes api_sample) (hr_path operator_get) = To_Operator"
    by (simp_all add: target_of_def v1_target_of_def operator_get_def)
  ultimately have run: "serve (\<lambda>_. None) api_sample api_serving operator_get (empty_db 0) =
      (Operator_Answer (200, Endpoint_Reply ''shop'' ''https://example.com/'' True), empty_db 0)"
    by (simp add: serve_def serve_v1_def Handler_def endpoint_get_def require_authorization_def header)
      (simp add: api_sample_def)
  note authority = serve_authority [OF run]
  have "hr_method operator_get \<noteq> ''POST''" "ar_visitor (aq_routes api_sample) = None"
    "ap_token (ar_api (aq_routes api_sample)) = bytes_of (replicate 16 CHR ''o'')"
    by (simp_all add: operator_get_def api_sample_def)
  with authority have "\<exists>token. header_get ''Authorization'' operator_get = ''Bearer '' @ token \<and>
     sha256 (bytes_of token) = sha256 (bytes_of (replicate 16 CHR ''o''))" by auto
  with run show ?thesis by simp
qed

end
