(* ===== verification/Worker_Process.thy ===== *)
theory Worker_Process
  imports Worker_Cycle Sandbox_Cleanup Netguard Process_Start
begin

text \<open>
  The worker process, \<open>src/cmd/worker/main.go\<close>: its start and its loop.  A tick of the loop carries the
  environment of one iteration; no tick means that the \<open>select\<close> took the branch of the context, which
  it may do later than the context is done as long as the ticker is ready as well.  The loop is a
  partial function whose value \<open>None\<close> is a worker that runs on forever.
\<close>

section \<open>The start\<close>

definition lease_length :: duration where "lease_length = 30 * second"

record http_client =
  hc_dialer :: dialer
  hc_timeout :: duration
  hc_follows_redirects :: bool

record worker_process =
  wp_pool :: pool
  wp_queue :: "string option"
  wp_client :: http_client
  wp_sender :: http_sender
  wp_worker :: worker

definition new_http_client :: "bool \<Rightarrow> http_client option" where
  "new_http_client allow_private =
     map_option (\<lambda>dialer. \<lparr> hc_dialer = dialer, hc_timeout = 10 * second, hc_follows_redirects = False \<rparr>)
       (NewDialer allow_private (3 * second))"

text \<open>The destinations' settings: the client, the sender that uses it, and the worker that uses the sender.\<close>

definition new_worker :: "bool \<Rightarrow> string \<Rightarrow> (http_client \<times> http_sender \<times> worker) option" where
  "new_worker allow_private delivery_secret =
     (case new_http_client allow_private of
        None \<Rightarrow> None
      | Some client \<Rightarrow>
          (case NewHTTPSender (bytes_of delivery_secret) allow_private of
             None \<Rightarrow> None
           | Some sender \<Rightarrow>
               (case NewWorker True True lease_length of
                  None \<Rightarrow> None
                | Some worker \<Rightarrow> Some (client, sender, worker))))"

definition worker_start :: "environment \<Rightarrow> worker_process started" where
  "worker_start w =
     (let delivery_secret = en_getenv w ''RELAY_DELIVERY_SECRET''
      in if en_getenv w ''RELAY_DATABASE_URL'' = [] \<or> length delivery_secret < 16 then Exited Missing_Settings
         else case database_connection w of
           None \<Rightarrow> Panicked
         | Some (Inl e) \<Rightarrow> Exited e
         | Some (Inr conn) \<Rightarrow>
             if \<not> en_pool w then Exited Create_Pool
             else case notification_queue w of
               None \<Rightarrow> Panicked
             | Some Refused_Queue \<Rightarrow> Exited Queue_Validation
             | Some result \<Rightarrow>
                 (case new_worker (en_getenv w ''RELAY_ALLOW_PRIVATE_DESTINATIONS'' = ''true'') delivery_secret of
                    None \<Rightarrow> Panicked
                  | Some (client, sender, worker) \<Rightarrow>
                      Started \<lparr> wp_pool = \<lparr> po_conn = conn, po_max = 4, po_min = 1 \<rparr>, wp_queue = queue_of result,
                        wp_client = client, wp_sender = sender, wp_worker = worker \<rparr>))"

lemma new_worker_eq:
  "16 \<le> length delivery_secret \<Longrightarrow> new_worker allow_private delivery_secret =
     Some (\<lparr> hc_dialer = \<lparr> di_allow_private = allow_private \<rparr>, hc_timeout = 10 * second, hc_follows_redirects = False \<rparr>,
       \<lparr> sn_secret = bytes_of delivery_secret, sn_allow_insecure = allow_private \<rparr>, \<lparr> wk_lease = 30 * second \<rparr>)"
  by (simp add: new_worker_def new_http_client_def NewDialer_def NewHTTPSender_def NewWorker_def lease_length_def duration_defs)

lemma worker_start_cases:
  assumes "worker_start w = Started p"
  obtains conn result where "database_connection w = Some (Inr conn)" and "16 \<le> length (en_getenv w ''RELAY_DELIVERY_SECRET'')"
    and "notification_queue w = Some result" and "result \<noteq> Refused_Queue" and
    "p = (let allow = en_getenv w ''RELAY_ALLOW_PRIVATE_DESTINATIONS'' = ''true''
      in \<lparr> wp_pool = \<lparr> po_conn = conn, po_max = 4, po_min = 1 \<rparr>, wp_queue = queue_of result,
          wp_client = \<lparr> hc_dialer = \<lparr> di_allow_private = allow \<rparr>, hc_timeout = 10 * second, hc_follows_redirects = False \<rparr>,
          wp_sender = \<lparr> sn_secret = bytes_of (en_getenv w ''RELAY_DELIVERY_SECRET''), sn_allow_insecure = allow \<rparr>,
          wp_worker = \<lparr> wk_lease = 30 * second \<rparr> \<rparr>)"
  using assms
  by (auto simp: worker_start_def Let_def new_worker_eq split: if_splits option.splits sum.splits opened.splits)

lemma Send_request_allowed:
  assumes "rq \<in> set (snd (Send sender env claimed))"
  shows "sn_allow_insecure sender \<or> sv_scheme env (ce_dest claimed) = Some ''https''"
  using assms by (auto simp: Send_def Let_def split: if_splits option.splits)


section \<open>The loop\<close>

text \<open>
  The environment of one iteration: the clock after the tick, what the cleanup and the cycle meet, and
  what the queue service answers.
\<close>

record tick =
  tk_now :: time
  tk_cleanup_nets :: "nat \<Rightarrow> net"
  tk_cleanup_clock :: "nat \<Rightarrow> time"
  tk_cleanup_locked :: "string \<Rightarrow> bool"
  tk_ctx_err :: "nat \<Rightarrow> bool"
  tk_clock :: "nat \<Rightarrow> time"
  tk_runs :: "nat \<Rightarrow> run_env"
  tk_receive :: "string \<Rightarrow> sqs_item list option"
  tk_delete :: "string \<Rightarrow> (string \<times> string) list \<Rightarrow> (nat \<times> nat) option"

text \<open>
  The state of the loop, with its effects so far: the requests that were sent, the entries that were handed
  to the queue service for deletion, and the times of the cleanups.
\<close>

record loop =
  lp_db :: db
  lp_sent :: "http_request list"
  lp_deleted :: "(string \<times> string) list"
  lp_cleanups :: "time list"
  lp_next :: time

text \<open>
  The queue as the cycle's consumer.  \<open>Acknowledge\<close> panics for a batch of more than ten; \<open>Receive\<close> hands
  out none.
\<close>

definition queue_consumer :: "tick \<Rightarrow> string \<Rightarrow> (string \<times> string) list consumer" where
  "queue_consumer t url =
     \<lparr> cn_receive = (\<lambda>deleted. (Receive (tk_receive t) url, deleted)),
       cn_acknowledge = (\<lambda>b deleted.
         case Acknowledge (tk_delete t) url b of
           None \<Rightarrow> (False, deleted)
         | Some (ok, entries) \<Rightarrow> (ok, deleted @ entries)) \<rparr>"

definition housekeeping :: "tick \<Rightarrow> loop \<Rightarrow> loop" where
  "housekeeping t lp =
     (if tk_now t < lp_next lp then lp
      else lp\<lparr>lp_db := snd (Cleanup (tk_cleanup_nets t) (tk_cleanup_clock t) (tk_cleanup_locked t) (lp_db lp)),
              lp_cleanups := lp_cleanups lp @ [tk_now t],
              lp_next := tk_now t + minute\<rparr>)"

definition run_cycle ::
  "worker_process \<Rightarrow> tick \<Rightarrow> loop \<Rightarrow> (store_error worker_error cycle_error + unit) \<times> (db \<times> http_request list) \<times> (string \<times> string) list" where
  "run_cycle p t lp =
     Cycle (tk_ctx_err t) (tk_clock t) (worker_run (wp_sender p) (wp_worker p) (tk_runs t))
       (map_option (queue_consumer t) (wp_queue p)) (lp_db lp, lp_sent lp) (lp_deleted lp)"

definition iteration :: "worker_process \<Rightarrow> tick \<Rightarrow> loop \<Rightarrow> loop" where
  "iteration p t lp =
     (let lp1 = housekeeping t lp;
          (run_error, (d, sent), deleted) = run_cycle p t lp1
      in lp1\<lparr>lp_db := d, lp_sent := sent, lp_deleted := deleted\<rparr>)"

partial_function (option) main_loop :: "worker_process \<Rightarrow> (nat \<Rightarrow> tick option) \<Rightarrow> nat \<Rightarrow> loop \<Rightarrow> loop option" where
  "main_loop p ticks k lp =
     (case ticks k of
        None \<Rightarrow> Some lp
      | Some t \<Rightarrow> main_loop p ticks (Suc k) (iteration p t lp))"

definition main_cycles :: "worker_process \<Rightarrow> (nat \<Rightarrow> tick option) \<Rightarrow> time \<Rightarrow> db \<Rightarrow> loop option" where
  "main_cycles p ticks now d =
     main_loop p ticks 0 \<lparr> lp_db = d, lp_sent = [], lp_deleted = [], lp_cleanups = [], lp_next = now \<rparr>"

section \<open>When the loop ends\<close>

lemma main_loop_ends:
  assumes "ticks (k + n) = None" and "\<forall>j < n. ticks (k + j) \<noteq> None"
  shows "main_loop p ticks k lp = Some (fold (\<lambda>j. iteration p (the (ticks j))) [k..<k + n] lp)"
  using assms
proof (induction n arbitrary: k lp)
  case (Suc n)
  from Suc.prems(2) obtain t where t: "ticks k = Some t" by fastforce
  have "main_loop p ticks (Suc k) (iteration p t lp) =
      Some (fold (\<lambda>j. iteration p (the (ticks j))) [Suc k..<Suc k + n] (iteration p t lp))"
    using Suc.prems by (intro Suc.IH) (simp, metis Suc_less_eq add_Suc_shift)
  moreover have "[k..<k + Suc n] = k # [Suc k..<Suc k + n]" by (simp add: upt_conv_Cons del: upt_Suc)
  ultimately show ?case using t by (simp add: main_loop.simps [of p ticks k] del: upt_Suc)
qed (simp add: main_loop.simps)

lemma main_loop_returns:
  assumes "main_loop p ticks k lp = Some r"
  shows "\<exists>n \<ge> k. ticks n = None"
proof (rule main_loop.raw_induct [where P = "\<lambda>p ticks k lp r. \<exists>n \<ge> k. ticks n = None", OF _ assms])
  fix f p ticks k lp r
  assume IH: "\<And>p ticks k lp r. f p ticks k lp = Some r \<Longrightarrow> \<exists>n \<ge> k. ticks n = None"
    and step: "(case ticks k of None \<Rightarrow> Some lp | Some t \<Rightarrow> f p ticks (Suc k) (iteration p t lp)) = Some r"
  show "\<exists>n \<ge> k. ticks n = None"
  proof (cases "ticks k")
    case (Some t)
    with step have "\<exists>n \<ge> Suc k. ticks n = None" by (intro IH [of p ticks "Suc k" "iteration p t lp" r]) simp
    then show ?thesis using Suc_leD by blast
  qed auto
qed

text \<open>
  The loop ends when it is asked to: it returns if and only if its context is done at some tick,
  and then after exactly the iterations before the first such tick.
\<close>

lemma main_cycles_stops:
  "main_cycles p ticks now d =
     (if \<exists>n. ticks n = None
      then Some (fold (\<lambda>j. iteration p (the (ticks j))) [0..<LEAST n. ticks n = None]
             \<lparr> lp_db = d, lp_sent = [], lp_deleted = [], lp_cleanups = [], lp_next = now \<rparr>)
      else None)"
proof (cases "\<exists>n. ticks n = None")
  case True
  define n where "n = (LEAST n. ticks n = None)"
  have "ticks (0 + n) = None" using LeastI_ex [OF True] by (simp add: n_def)
  moreover have "\<forall>j < n. ticks (0 + j) \<noteq> None" using not_less_Least by (auto simp: n_def)
  ultimately show ?thesis
    using True by (simp add: main_cycles_def main_loop_ends [where n = n] flip: n_def)
next
  case False
  then show ?thesis
    using main_loop_returns [of p ticks 0] unfolding main_cycles_def by (metis not_None_eq)
qed

lemma main_cycles_iterations:
  assumes "main_cycles p ticks now d = Some lp"
  shows "\<exists>n. ticks n = None \<and> (\<forall>j < n. ticks j \<noteq> None) \<and> lp = fold (\<lambda>j. iteration p (the (ticks j))) [0..<n]
    \<lparr> lp_db = d, lp_sent = [], lp_deleted = [], lp_cleanups = [], lp_next = now \<rparr>"
proof -
  have "\<exists>n. ticks n = None"
    using main_loop_returns [OF assms [unfolded main_cycles_def]] by blast
  then obtain n where n: "ticks n = None" "\<forall>j < n. ticks j \<noteq> None"
    unfolding exists_least_iff [where P = "\<lambda>n. ticks n = None"] by blast
  with main_loop_ends [of ticks 0 n p] assms show ?thesis by (intro exI [of _ n]) (simp add: main_cycles_def)
qed

section \<open>What the loop does\<close>

text \<open>At most one cleanup in any minute, and ten requests and ten attempts in each of \<open>n\<close> iterations.\<close>

definition spaced :: "time list \<Rightarrow> time \<Rightarrow> bool" where
  "spaced ts next_one \<longleftrightarrow> (\<forall>i. Suc i < length ts \<longrightarrow> ts ! i + minute \<le> ts ! Suc i) \<and>
     (ts \<noteq> [] \<longrightarrow> next_one = last ts + minute)"

definition loop_ok :: "db \<Rightarrow> nat \<Rightarrow> loop \<Rightarrow> bool" where
  "loop_ok d n lp \<longleftrightarrow> schema_ok (lp_db lp) \<and> length (lp_sent lp) \<le> 10 * n \<and>
     length (attempts (lp_db lp)) \<le> length (attempts d) + 10 * n \<and> length (lp_cleanups lp) \<le> n \<and>
     spaced (lp_cleanups lp) (lp_next lp)"

lemma spaced_append:
  "spaced ts next_one \<Longrightarrow> next_one \<le> t \<Longrightarrow> spaced (ts @ [t]) (t + minute)"
  by (cases ts rule: rev_cases) (auto simp: spaced_def nth_append less_Suc_eq not_less le_Suc_eq)

lemma Cleanup_fewer_attempts:
  assumes "Cleanup nets clock locked d = (r, d')"
  shows "length (attempts d') \<le> length (attempts d)"
  using assms by (cases rule: Cleanup_cases) (simp_all add: swept_defs)

lemma housekeeping_ok:
  assumes "loop_ok d n lp"
  shows "loop_ok d (Suc n) (housekeeping t lp)" "lp_sent (housekeeping t lp) = lp_sent lp"
    "schema_ok (lp_db (housekeeping t lp))"
    "length (attempts (lp_db (housekeeping t lp))) \<le> length (attempts (lp_db lp))"
proof -
  obtain r d' where c: "Cleanup (tk_cleanup_nets t) (tk_cleanup_clock t) (tk_cleanup_locked t) (lp_db lp) = (r, d')" by fastforce
  have "schema_ok d'" using assms by (intro Cleanup_schema [OF _ c]) (simp add: loop_ok_def)
  then show "schema_ok (lp_db (housekeeping t lp))" "lp_sent (housekeeping t lp) = lp_sent lp"
    "length (attempts (lp_db (housekeeping t lp))) \<le> length (attempts (lp_db lp))"
    using assms Cleanup_fewer_attempts [OF c] by (simp_all add: housekeeping_def c loop_ok_def)
  then show "loop_ok d (Suc n) (housekeeping t lp)"
    using assms spaced_append by (auto simp: loop_ok_def housekeeping_def c)
qed

lemma iteration_ok:
  assumes "loop_ok d n lp"
  shows "loop_ok d (Suc n) (iteration p t lp)"
proof -
  let ?lp1 = "housekeeping t lp" and ?run = "worker_run (wp_sender p) (wp_worker p) (tk_runs t)"
    and ?queue = "map_option (queue_consumer t) (wp_queue p)"
  obtain r d' sent deleted where run: "Cycle (tk_ctx_err t) (tk_clock t) ?run ?queue
      (lp_db ?lp1, lp_sent ?lp1) (lp_deleted ?lp1) = (r, (d', sent), deleted)" by (metis prod_cases3 surj_pair)
  note house = housekeeping_ok [OF assms, of t]
  have ok: "schema_ok (fst (lp_db ?lp1, lp_sent ?lp1))" using house(3) by simp
  have "schema_ok d'" using requests.cycle_inv [OF ok run] by simp
  moreover have "length sent \<le> length (lp_sent lp) + 10"
    using requests.cycle_work [OF ok run] house(2) by (simp add: BatchSize_def)
  moreover have "length (attempts d') \<le> length (attempts (lp_db lp)) + 10"
    using recorded.cycle_work [OF ok run] house(4) by (simp add: BatchSize_def)
  ultimately show ?thesis
    using assms house(1) by (simp add: iteration_def run_cycle_def Let_def run loop_ok_def)
qed

lemma fold_iteration_ok:
  "loop_ok d m lp \<Longrightarrow> loop_ok d (m + n) (fold (\<lambda>j. iteration p (the (ticks j))) [k..<k + n] lp)"
  by (induction n) (simp_all add: iteration_ok)

text \<open>
  C27: The worker is bounded in what it does to its surroundings.  A run of the process that ends after \<open>n\<close>
  iterations has sent at most \<open>10 * n\<close> requests and added at most \<open>10 * n\<close> attempts, has cleaned up
  at most once in any minute, and has kept every constraint of the schema, whatever failed.
\<close>

theorem main_cycles_bounded:
  assumes "schema_ok d" and "main_cycles p ticks now d = Some lp"
  shows "\<exists>n. ticks n = None \<and> (\<forall>j < n. ticks j \<noteq> None) \<and> schema_ok (lp_db lp) \<and> length (lp_sent lp) \<le> 10 * n \<and>
    length (attempts (lp_db lp)) \<le> length (attempts d) + 10 * n \<and> length (lp_cleanups lp) \<le> n \<and>
    (\<forall>i. Suc i < length (lp_cleanups lp) \<longrightarrow> lp_cleanups lp ! i + minute \<le> lp_cleanups lp ! Suc i)"
proof -
  let ?start = "\<lparr> lp_db = d, lp_sent = [], lp_deleted = [], lp_cleanups = [], lp_next = now \<rparr>"
  obtain n where n: "ticks n = None" "\<forall>j < n. ticks j \<noteq> None"
    and lp: "lp = fold (\<lambda>j. iteration p (the (ticks j))) [0..<n] ?start"
    using main_cycles_iterations [OF assms(2)] by blast
  have "loop_ok d 0 ?start" using assms(1) by (simp add: loop_ok_def spaced_def)
  from fold_iteration_ok [OF this, of n p ticks 0] have "loop_ok d n lp" by (simp add: lp)
  with n show ?thesis by (auto simp: loop_ok_def spaced_def)
qed

section \<open>Outages\<close>

text \<open>An iteration in which the database does not answer at all.\<close>

definition outage :: "tick \<Rightarrow> bool" where
  "outage t \<longleftrightarrow> (\<forall>k. tk_cleanup_nets t k = Failed) \<and> (\<forall>j. re_claim_net (tk_runs t j) = Failed)"

lemma Claim_Failed: "\<exists>e. Claim random Failed locked now l d = (Inl e, d)"
  by (auto simp: Claim_def autocommit_alt split: option.splits)

lemma Cleanup_Failed:
  assumes "\<forall>k. nets k = Failed"
  shows "snd (Cleanup nets clock locked d) = d"
proof -
  obtain r d' where run: "Cleanup nets clock locked d = (r, d')" by fastforce
  then have "d' = d"
    using assms by (auto simp: Cleanup_def transaction_def admission_def query_row_def query_def and_then_def exec_def
        split: sum.splits option.splits)
  with run show ?thesis by simp
qed

lemma outage_run:
  assumes "outage t"
  shows "\<exists>e. worker_run sender worker (tk_runs t) k now s = (Inl e, s)"
proof -
  have "re_claim_net (tk_runs t k) = Failed" using assms by (simp add: outage_def)
  with Claim_Failed [of "re_random (tk_runs t k)" "re_locked (tk_runs t k)" now "wk_lease worker" "fst s"] show ?thesis
    by (auto simp: worker_run_def RunOnce_def)
qed

lemma outage_iteration:
  assumes "outage t"
  shows "lp_db (iteration p t lp) = lp_db lp \<and> lp_sent (iteration p t lp) = lp_sent lp \<and>
    lp_deleted (iteration p t lp) = lp_deleted lp \<and> (\<exists>e. fst (run_cycle p t (housekeeping t lp)) = Inl e)"
proof -
  let ?lp1 = "housekeeping t lp" and ?run = "worker_run (wp_sender p) (wp_worker p) (tk_runs t)"
  have same: "lp_db ?lp1 = lp_db lp" "lp_sent ?lp1 = lp_sent lp" "lp_deleted ?lp1 = lp_deleted lp"
    using Cleanup_Failed assms by (simp_all add: housekeeping_def outage_def)
  have "\<exists>e. cycle_runs (tk_ctx_err t) (tk_clock t) ?run 0 BatchSize (lp_db lp, lp_sent lp) = (Inl e, (lp_db lp, lp_sent lp))"
    using outage_run [OF assms, of "wp_sender p" "wp_worker p" 0 "tk_clock t 0" "(lp_db lp, lp_sent lp)"]
    by (auto simp: BatchSize_def eval_nat_numeral split: prod.splits)
  then obtain e where "cycle_runs (tk_ctx_err t) (tk_clock t) ?run 0 BatchSize (lp_db lp, lp_sent lp) = (Inl e, (lp_db lp, lp_sent lp))"
    by blast
  then have "run_cycle p t ?lp1 = (Inl e, (lp_db lp, lp_sent lp), lp_deleted lp)"
    by (simp add: run_cycle_def Cycle_def same queue_consumer_def split: option.split)
  then show ?thesis by (simp add: iteration_def Let_def)
qed


section \<open>The properties on concrete runs\<close>

definition sample_environment :: environment where
  "sample_environment = sample_environment_of (\<lambda>name. if name = ''RELAY_DATABASE_URL'' then ''postgres:'' else
     if name = ''RELAY_DELIVERY_SECRET'' then replicate 16 CHR ''s'' else [])"


definition sample_tick :: tick where
  "sample_tick = \<lparr> tk_now = 0, tk_cleanup_nets = (\<lambda>_. Failed), tk_cleanup_clock = (\<lambda>_. 0), tk_cleanup_locked = (\<lambda>_. False),
     tk_ctx_err = (\<lambda>_. False), tk_clock = (\<lambda>_. 0), tk_runs = (\<lambda>_. sample_run_env), tk_receive = (\<lambda>_. None),
     tk_delete = (\<lambda>_ _. None) \<rparr>"

definition sample_process :: worker_process where
  "sample_process =
     \<lparr> wp_pool = \<lparr> po_conn = sample_connection, po_max = 4, po_min = 1 \<rparr>, wp_queue = None,
       wp_client = \<lparr> hc_dialer = \<lparr> di_allow_private = False \<rparr>, hc_timeout = 10 * second, hc_follows_redirects = False \<rparr>,
       wp_sender = sample_sender, wp_worker = \<lparr> wk_lease = 30 * second \<rparr> \<rparr>"

theorem main_cycles_bounded_witness:
  "\<exists>lp. main_cycles sample_process (\<lambda>k. if k < 3 then Some sample_tick else None) 0 sample_db = Some lp \<and>
     schema_ok (lp_db lp)"
proof -
  let ?ticks = "\<lambda>k :: nat. if k < 3 then Some sample_tick else None"
  have "?ticks (0 + 3) = None" "\<forall>j < 3. ?ticks (0 + j) \<noteq> None" by simp_all
  note ends = main_loop_ends [of ?ticks 0 3, OF this]
  then obtain lp where lp: "main_cycles sample_process ?ticks 0 sample_db = Some lp"
    unfolding main_cycles_def by blast
  have "schema_ok sample_db" using sample_db_ok by (simp add: store_ok_def)
  from main_cycles_bounded [OF this lp] lp show ?thesis by blast
qed


end
