(* ===== verification/Migration.thy ===== *)
theory Migration
  imports Process_Start Relay_System
begin

text \<open>
  The migration job, \<open>src/cmd/migrate/main.go\<close>, with the two scripts of \<open>src/migrations/\<close> statement by
  statement.  The catalog holds what the scripts create, by name, and the rows; a table that does
  not exist has no rows.  The constraints of the tables are those of \<open>Relay_Schema\<close>.
\<close>

section \<open>The catalog and its statements\<close>

record catalog =
  ct_namespace :: bool
  ct_tables :: "(string \<times> string list) list"
  ct_indexes :: "string list"
  ct_versions :: "int list"
  ct_data :: db

definition relation_exists :: "string \<Rightarrow> catalog \<Rightarrow> bool" where
  "relation_exists name c \<longleftrightarrow> name \<in> fst ` set (ct_tables c) \<or> name \<in> set (ct_indexes c)"

definition create_namespace :: "catalog \<Rightarrow> catalog option" where
  "create_namespace c = Some (if \<not> ct_namespace c then c\<lparr>ct_namespace := True\<rparr> else c)"

definition create_table :: "string \<Rightarrow> string list \<Rightarrow> catalog \<Rightarrow> catalog option" where
  "create_table name columns c =
     (if \<not> ct_namespace c \<or> relation_exists name c then None
      else Some (c\<lparr>ct_tables := ct_tables c @ [(name, columns)]\<rparr>))"

definition create_index :: "string \<Rightarrow> string \<Rightarrow> catalog \<Rightarrow> catalog option" where
  "create_index name table_name c =
     (if table_name \<notin> fst ` set (ct_tables c) \<or> relation_exists name c then None
      else Some (c\<lparr>ct_indexes := ct_indexes c @ [name]\<rparr>))"

definition add_column :: "string \<Rightarrow> string \<Rightarrow> catalog \<Rightarrow> catalog option" where
  "add_column table_name column c =
     (case map_of (ct_tables c) table_name of
        None \<Rightarrow> None
      | Some columns \<Rightarrow>
          if column \<in> set columns then None
          else Some (c\<lparr>ct_tables := map (\<lambda>(n, cs). if n = table_name then (n, cs @ [column]) else (n, cs)) (ct_tables c)\<rparr>))"

definition insert_version :: "int \<Rightarrow> catalog \<Rightarrow> catalog option" where
  "insert_version v c =
     (if ''schema_migrations'' \<notin> fst ` set (ct_tables c) \<or> v \<in> set (ct_versions c) then None
      else Some (c\<lparr>ct_versions := ct_versions c @ [v]\<rparr>))"

definition insert_budget :: "time \<Rightarrow> catalog \<Rightarrow> catalog option" where
  "insert_budget now c =
     (if ''sandbox_budget'' \<notin> fst ` set (ct_tables c) \<or> budget (ct_data c) \<noteq> None then None
      else Some (c\<lparr>ct_data := (ct_data c)\<lparr>budget :=
             Some \<lparr> bg_window = now - now mod hour, bg_sessions = 0, bg_admissions = 0 \<rparr>\<rparr>\<rparr>))"

definition initial_script :: "(catalog \<Rightarrow> catalog option) list" where
  "initial_script =
     [create_namespace,
      create_table ''schema_migrations'' [''version'', ''applied_at''],
      create_table ''events''
        [''id'', ''source_key'', ''external_event_id'', ''body'', ''body_sha256'', ''destination_url'', ''state'',
         ''attempt_count'', ''replay_count'', ''next_attempt_at'', ''lease_expires_at'', ''claim_id'', ''created_at'',
         ''delivered_at''],
      create_index ''events_delivery_claim_idx'' ''events'',
      create_table ''delivery_attempts''
        [''id'', ''event_id'', ''replay_number'', ''attempt_number'', ''started_at'', ''finished_at'', ''outcome'',
         ''status_code'', ''response_excerpt'', ''error_code''],
      create_index ''delivery_attempts_event_idx'' ''delivery_attempts'',
      insert_version 1]"

definition sandbox_script :: "time \<Rightarrow> (catalog \<Rightarrow> catalog option) list" where
  "sandbox_script now =
     [create_table ''sandbox_sessions'' [''id'', ''expires_at'', ''event_count''],
      create_index ''sandbox_sessions_expiry_idx'' ''sandbox_sessions'',
      add_column ''events'' ''sandbox_id'',
      create_index ''events_sandbox_idx'' ''events'',
      create_table ''sandbox_budget'' [''singleton'', ''window_start'', ''sessions'', ''admissions''],
      insert_budget now,
      insert_version 2]"

fun run_script :: "(catalog \<Rightarrow> catalog option) list \<Rightarrow> catalog \<Rightarrow> catalog option" where
  "run_script [] c = Some c"
| "run_script (stmt # rest) c = Option.bind (stmt c) (run_script rest)"

section \<open>The job\<close>

datatype migration_error =
    URL_Required
  | Connection start_failure
  | Connect_Failed
  | Database_Error
  | Unsupported_Version
  | Script_Unreadable
  | Script_Failed

definition migrated_version :: "catalog \<Rightarrow> int" where
  "migrated_version c = (if ct_versions c = [] then 0 else Max (set (ct_versions c)))"

definition openMigrationConnection :: "environment \<Rightarrow> bool \<Rightarrow> (migration_error + conn_config) option" where
  "openMigrationConnection w connected =
     (case database_connection w of
        None \<Rightarrow> None
      | Some (Inl e) \<Rightarrow> Some (Inl (Connection e))
      | Some (Inr conn) \<Rightarrow> Some (if connected then Inr conn else Inl Connect_Failed))"

text \<open>The loop over the scripts from \<open>index\<close> on.\<close>

fun apply_scripts ::
  "(nat \<Rightarrow> net) \<Rightarrow> (nat \<Rightarrow> bool) \<Rightarrow> int \<Rightarrow> nat \<Rightarrow> (catalog \<Rightarrow> catalog option) list list \<Rightarrow> catalog \<Rightarrow>
   migration_error + catalog" where
  "apply_scripts nets readable version index [] c = Inr c"
| "apply_scripts nets readable version index (script # rest) c =
     (if int index < version then apply_scripts nets readable version (Suc index) rest c
      else if \<not> readable index then Inl Script_Unreadable
      else if nets index \<noteq> Done then Inl Database_Error
      else case run_script script c of
        None \<Rightarrow> Inl Script_Failed
      | Some c1 \<Rightarrow> apply_scripts nets readable version (Suc index) rest c1)"

text \<open>What the job meets: the connection, the files, and one answer per call of the database.\<close>

record job =
  jb_connected :: bool
  jb_begin :: net
  jb_lock :: net
  jb_exists :: net
  jb_version :: net
  jb_scripts :: "nat \<Rightarrow> net"
  jb_commit :: net
  jb_readable :: "nat \<Rightarrow> bool"
  jb_now :: time

text \<open>The transaction up to its commit.\<close>

definition migration :: "job \<Rightarrow> catalog \<Rightarrow> migration_error + catalog" where
  "migration j c =
     (if jb_begin j \<noteq> Done \<or> jb_lock j \<noteq> Done \<or> jb_exists j \<noteq> Done then Inl Database_Error
      else
        let exists = (ct_namespace c \<and> relation_exists ''schema_migrations'' c)
        in if exists \<and> jb_version j \<noteq> Done then Inl Database_Error
           else
             let version = (if exists then migrated_version c else 0);
                 paths = [initial_script, sandbox_script (jb_now j)]
             in if version > int (length paths) then Inl Unsupported_Version
                else apply_scripts (jb_scripts j) (jb_readable j) version 0 paths c)"

definition migrate :: "environment \<Rightarrow> job \<Rightarrow> catalog \<Rightarrow> ((migration_error + unit) \<times> catalog) option" where
  "migrate w j c =
     (if en_getenv w ''RELAY_DATABASE_URL'' = [] then Some (Inl URL_Required, c)
      else case openMigrationConnection w (jb_connected j) of
        None \<Rightarrow> None
      | Some (Inl e) \<Rightarrow> Some (Inl e, c)
      | Some (Inr conn) \<Rightarrow>
          (case migration j c of
             Inl e \<Rightarrow> Some (Inl e, c)
           | Inr tx \<Rightarrow>
               (case jb_commit j of
                  Done \<Rightarrow> Some (Inr (), tx)
                | Failed \<Rightarrow> Some (Inl Database_Error, c)
                | Lost \<Rightarrow> Some (Inl Database_Error, tx))))"

section \<open>Stages\<close>

text \<open>
  What a database holds after none, one or both scripts: the tables with their columns, in any earlier
  stage no visitor, and the counter of the visitors' quota in the last.
\<close>

definition event_columns :: "string list" where
  "event_columns =
     [''id'', ''source_key'', ''external_event_id'', ''body'', ''body_sha256'', ''destination_url'', ''state'',
      ''attempt_count'', ''replay_count'', ''next_attempt_at'', ''lease_expires_at'', ''claim_id'', ''created_at'',
      ''delivered_at'']"

definition attempt_columns :: "string list" where
  "attempt_columns =
     [''id'', ''event_id'', ''replay_number'', ''attempt_number'', ''started_at'', ''finished_at'', ''outcome'',
      ''status_code'', ''response_excerpt'', ''error_code'']"

definition before_sandbox :: "db \<Rightarrow> bool" where
  "before_sandbox d \<longleftrightarrow> sessions d = [] \<and> budget d = None \<and> (\<forall>e \<in> set (events d). ev_sandbox e = None)"

definition unmigrated :: "catalog \<Rightarrow> bool" where
  "unmigrated c \<longleftrightarrow> ct_tables c = [] \<and> ct_indexes c = [] \<and> ct_versions c = [] \<and>
     events (ct_data c) = [] \<and> attempts (ct_data c) = [] \<and> before_sandbox (ct_data c)"

definition first_stage :: "catalog \<Rightarrow> bool" where
  "first_stage c \<longleftrightarrow> ct_namespace c \<and> ct_versions c = [1] \<and> before_sandbox (ct_data c) \<and>
     ct_tables c = [(''schema_migrations'', [''version'', ''applied_at'']), (''events'', event_columns),
       (''delivery_attempts'', attempt_columns)] \<and>
     ct_indexes c = [''events_delivery_claim_idx'', ''delivery_attempts_event_idx'']"

definition current_stage :: "catalog \<Rightarrow> bool" where
  "current_stage c \<longleftrightarrow> ct_namespace c \<and> ct_versions c = [1, 2] \<and> budget (ct_data c) \<noteq> None \<and>
     ct_tables c = [(''schema_migrations'', [''version'', ''applied_at'']), (''events'', event_columns @ [''sandbox_id'']),
       (''delivery_attempts'', attempt_columns), (''sandbox_sessions'', [''id'', ''expires_at'', ''event_count'']),
       (''sandbox_budget'', [''singleton'', ''window_start'', ''sessions'', ''admissions''])] \<and>
     ct_indexes c = [''events_delivery_claim_idx'', ''delivery_attempts_event_idx'', ''sandbox_sessions_expiry_idx'',
       ''events_sandbox_idx'']"

definition migratable :: "catalog \<Rightarrow> bool" where
  "migratable c \<longleftrightarrow> unmigrated c \<or> first_stage c \<or> current_stage c"

lemmas statement_defs = create_namespace_def create_table_def create_index_def add_column_def insert_version_def
  insert_budget_def relation_exists_def

definition with_budget :: "time \<Rightarrow> db \<Rightarrow> db" where
  "with_budget now d = d\<lparr>budget := Some \<lparr> bg_window = now - now mod hour, bg_sessions = 0, bg_admissions = 0 \<rparr>\<rparr>"

lemma initial_script_stage:
  assumes "unmigrated c"
  shows "\<exists>c'. run_script initial_script c = Some c' \<and> first_stage c' \<and> ct_data c' = ct_data c"
  using assms
  by (simp add: initial_script_def statement_defs unmigrated_def first_stage_def event_columns_def attempt_columns_def)

lemma sandbox_script_stage:
  assumes "first_stage c"
  shows "\<exists>c'. run_script (sandbox_script now) c = Some c' \<and> current_stage c' \<and> ct_data c' = with_budget now (ct_data c)"
  using assms
  by (simp add: sandbox_script_def statement_defs first_stage_def before_sandbox_def current_stage_def with_budget_def
      event_columns_def attempt_columns_def)

section \<open>What the job does\<close>

text \<open>The scripts that a stage still needs.\<close>

lemma migration_current:
  assumes "current_stage c" and "migration j c = Inr c'"
  shows "c' = c"
  using assms by (auto simp: migration_def Let_def current_stage_def relation_exists_def migrated_version_def split: if_splits)

lemma migration_first:
  assumes "first_stage c" and "migration j c = Inr c'"
  shows "current_stage c' \<and> ct_data c' = with_budget (jb_now j) (ct_data c)"
proof -
  obtain c2 where c2: "run_script (sandbox_script (jb_now j)) c = Some c2" "current_stage c2"
    "ct_data c2 = with_budget (jb_now j) (ct_data c)" using sandbox_script_stage [OF assms(1)] by blast
  have "ct_namespace c \<and> relation_exists ''schema_migrations'' c" "migrated_version c = 1"
    using assms(1) by (simp_all add: first_stage_def relation_exists_def migrated_version_def)
  with assms(2) c2(1) have "c' = c2" by (auto simp: migration_def Let_def split: if_splits)
  with c2 show ?thesis by simp
qed

lemma migration_fresh:
  assumes "unmigrated c" and "migration j c = Inr c'"
  shows "current_stage c' \<and> ct_data c' = with_budget (jb_now j) (ct_data c)"
proof -
  obtain c1 where c1: "run_script initial_script c = Some c1" "first_stage c1" "ct_data c1 = ct_data c"
    using initial_script_stage [OF assms(1)] by blast
  obtain c2 where c2: "run_script (sandbox_script (jb_now j)) c1 = Some c2" "current_stage c2"
    "ct_data c2 = with_budget (jb_now j) (ct_data c1)" using sandbox_script_stage [OF c1(2)] by blast
  have "\<not> relation_exists ''schema_migrations'' c" using assms(1) by (simp add: unmigrated_def relation_exists_def)
  with assms(2) c1(1) c2(1) have "c' = c2" by (auto simp: migration_def Let_def split: if_splits)
  with c1 c2 show ?thesis by simp
qed

lemma migration_Done:
  assumes "migratable c" and "jb_begin j = Done" and "jb_lock j = Done" and "jb_exists j = Done" and "jb_version j = Done"
    and "\<forall>k. jb_scripts j k = Done" and "\<forall>k. jb_readable j k"
  shows "\<exists>c'. migration j c = Inr c'"
  using assms(1) unfolding migratable_def
proof (elim disjE)
  assume c: "unmigrated c"
  then obtain c1 where c1: "run_script initial_script c = Some c1" "first_stage c1" using initial_script_stage by blast
  moreover from this(2) obtain c2 where "run_script (sandbox_script (jb_now j)) c1 = Some c2" using sandbox_script_stage by blast
  moreover have "\<not> relation_exists ''schema_migrations'' c" using c by (simp add: unmigrated_def relation_exists_def)
  ultimately show ?thesis using assms by (simp add: migration_def)
next
  assume c: "first_stage c"
  then obtain c2 where "run_script (sandbox_script (jb_now j)) c = Some c2" using sandbox_script_stage by blast
  moreover have "migrated_version c = 1" using c by (simp add: first_stage_def migrated_version_def)
  ultimately show ?thesis
    using assms c by (simp add: migration_def first_stage_def relation_exists_def)
next
  assume "current_stage c"
  then have "migrated_version c = 2" "ct_namespace c" "relation_exists ''schema_migrations'' c"
    by (simp_all add: current_stage_def migrated_version_def relation_exists_def)
  with assms show ?thesis by (simp add: migration_def)
qed

lemma migrate_cases:
  assumes "migrate w j c = Some (r, c')"
  obtains (failed) e where "r = Inl e" and "c' = c"
  | (applied) "migration j c = Inr c'" and "r = Inr () \<or> r = Inl Database_Error"
  using assms by (auto simp: migrate_def split: if_splits option.splits sum.splits net.splits)

text \<open>
  C29: A migration is all or nothing.  From any stage, whatever fails on the way, the job leaves the database
  as it was or at the current stage, and success means the current stage; in that stage it changes
  nothing, so it may be run again at any time, also after an answer was lost.  No event and no
  attempt is touched.
\<close>

theorem migrate_all_or_nothing:
  assumes "migratable c" and "migrate w j c = Some (r, c')"
  shows "(c' = c \<or> current_stage c' \<and> \<not> current_stage c) \<and> (r = Inr () \<longrightarrow> current_stage c') \<and>
    events (ct_data c') = events (ct_data c) \<and> attempts (ct_data c') = attempts (ct_data c) \<and>
    (\<forall>w' j' r'' c''. migrate w' j' c' = Some (r'', c'') \<and> current_stage c' \<longrightarrow> c'' = c')"
proof -
  have current: "c'' = c1" if "current_stage c1" "migrate w' j' c1 = Some (r'', c'')" for c1 c'' w' j' r''
    using that(2) by (cases rule: migrate_cases) (use migration_current [OF that(1)] in auto)
  from assms(2) show ?thesis
  proof (cases rule: migrate_cases)
    case (applied)
    have "c' = c \<and> current_stage c \<or> current_stage c' \<and> \<not> current_stage c \<and> ct_data c' = with_budget (jb_now j) (ct_data c)"
    proof (cases "current_stage c")
      case True
      with migration_current [OF True applied(1)] show ?thesis by simp
    next
      case False
      then show ?thesis
        using assms(1) migration_first [OF _ applied(1)] migration_fresh [OF _ applied(1)] by (auto simp: migratable_def)
    qed
    then show ?thesis using current by (auto simp: with_budget_def)
  qed (use current in auto)
qed

lemma migrate_Done:
  assumes "migratable c" and "en_getenv w ''RELAY_DATABASE_URL'' \<noteq> []"
    and "database_connection w = Some (Inr conn)" and "jb_connected j"
    and "jb_begin j = Done" and "jb_lock j = Done" and "jb_exists j = Done" and "jb_version j = Done"
    and "\<forall>k. jb_scripts j k = Done" and "\<forall>k. jb_readable j k" and "jb_commit j = Done"
  shows "\<exists>c'. migration j c = Inr c' \<and> migrate w j c = Some (Inr (), c')"
proof -
  obtain c' where "migration j c = Inr c'" using migration_Done [OF assms(1,5-10)] by blast
  with assms(2-4,11) show ?thesis by (simp add: migrate_def openMigrationConnection_def)
qed

text \<open>
  C30: The relay starts on sound tables.  On a fresh database a successful migration leaves exactly the tables
  the relay starts from; on one of the first stage, whose events are the operator's, it keeps every
  invariant of the store and adds the counter without which no visitor is admitted.  And it does
  succeed when every call is answered and the scripts can be read.
\<close>

theorem migrate_starts_relay:
  assumes "migratable c" and "en_getenv w ''RELAY_DATABASE_URL'' \<noteq> []"
    and "database_connection w = Some (Inr conn)" and "jb_connected j"
    and "jb_begin j = Done" and "jb_lock j = Done" and "jb_exists j = Done" and "jb_version j = Done"
    and "\<forall>k. jb_scripts j k = Done" and "\<forall>k. jb_readable j k" and "jb_commit j = Done"
  shows "\<exists>c'. migrate w j c = Some (Inr (), c') \<and> current_stage c' \<and>
    (unmigrated c \<longrightarrow> ct_data c' = sy_db (initial (jb_now j))) \<and>
    (store_ok (ct_data c) \<and> tenancy_ok (ct_data c) \<longrightarrow>
       store_ok (ct_data c') \<and> tenancy_ok (ct_data c') \<and> budget (ct_data c') \<noteq> None)"
proof -
  obtain c' where c': "migration j c = Inr c'" and run: "migrate w j c = Some (Inr (), c')"
    using migrate_Done [OF assms] by blast
  have data: "current_stage c' \<and> (c' = c \<and> current_stage c \<or> ct_data c' = with_budget (jb_now j) (ct_data c))"
    using assms(1) migration_current [OF _ c'] migration_first [OF _ c'] migration_fresh [OF _ c']
    by (auto simp: migratable_def)
  moreover have "ct_data c' = empty_db (jb_now j)" if "unmigrated c"
  proof -
    have "ct_data c' = with_budget (jb_now j) (ct_data c)" using migration_fresh [OF that c'] by blast
    with that show ?thesis by (simp add: unmigrated_def before_sandbox_def with_budget_def empty_db_def)
  qed
  moreover have "store_ok (ct_data c')" "tenancy_ok (ct_data c')" if "store_ok (ct_data c)" "tenancy_ok (ct_data c)"
    using data that store_ok_budget [OF that(1)]
    by (auto simp: with_budget_def budget_check_def tenancy_ok_def)
  moreover have "budget (ct_data c') \<noteq> None" using data by (auto simp: current_stage_def)
  ultimately show ?thesis using run by (auto simp: initial_def)
qed

section \<open>The properties on a fresh database\<close>

definition migration_environment :: environment where
  "migration_environment = sample_environment_of (\<lambda>name. if name = ''RELAY_DATABASE_URL'' then ''postgres:'' else [])"

definition sample_job :: job where
  "sample_job = \<lparr> jb_connected = True, jb_begin = Done, jb_lock = Done, jb_exists = Done, jb_version = Done,
     jb_scripts = (\<lambda>_. Done), jb_commit = Done, jb_readable = (\<lambda>_. True), jb_now = 0 \<rparr>"

definition fresh_catalog :: catalog where
  "fresh_catalog = \<lparr> ct_namespace = False, ct_tables = [], ct_indexes = [], ct_versions = [],
     ct_data = \<lparr> events = [], attempts = [], sessions = [], budget = None \<rparr> \<rparr>"

lemma fresh_catalog_unmigrated: "unmigrated fresh_catalog" "migratable fresh_catalog"
  by (simp_all add: unmigrated_def migratable_def fresh_catalog_def before_sandbox_def)

lemma migration_environment_connection: "database_connection migration_environment = Some (Inr sample_connection)"
  by (simp add: migration_environment_def sample_environment_of_connection)

theorem migrate_all_or_nothing_witness:
  "\<exists>r c'. migrate migration_environment (sample_job\<lparr>jb_scripts := (\<lambda>k. if k = 1 then Failed else Done)\<rparr>) fresh_catalog = Some (r, c') \<and>
     r = Inl Database_Error \<and> c' = fresh_catalog"
proof -
  let ?job = "sample_job\<lparr>jb_scripts := (\<lambda>k. if k = 1 then Failed else Done)\<rparr>"
  obtain c1 where c1: "run_script initial_script fresh_catalog = Some c1"
    using initial_script_stage [OF fresh_catalog_unmigrated(1)] by blast
  have "\<not> relation_exists ''schema_migrations'' fresh_catalog" by (simp add: relation_exists_def fresh_catalog_def)
  with c1 have failed: "migration ?job fresh_catalog = Inl Database_Error" by (simp add: migration_def sample_job_def)
  have "en_getenv migration_environment ''RELAY_DATABASE_URL'' \<noteq> []" "jb_connected ?job"
    by (simp_all add: migration_environment_def sample_job_def)
  with failed obtain c' where run: "migrate migration_environment ?job fresh_catalog = Some (Inl Database_Error, c')"
    by (simp add: migrate_def openMigrationConnection_def migration_environment_connection)
  have "current_stage c' \<or> c' = fresh_catalog"
    using migrate_all_or_nothing [OF fresh_catalog_unmigrated(2) run] by blast
  moreover have "c' = fresh_catalog"
    using run failed
    by (auto simp: migrate_def split: option.splits sum.splits if_splits)
  ultimately show ?thesis using run by simp
qed

theorem migrate_starts_relay_witness:
  "\<exists>c'. migrate migration_environment sample_job fresh_catalog = Some (Inr (), c') \<and> ct_data c' = empty_db 0"
proof -
  have "en_getenv migration_environment ''RELAY_DATABASE_URL'' \<noteq> []" by (simp add: migration_environment_def)
  from migrate_starts_relay [OF fresh_catalog_unmigrated(2) this migration_environment_connection, of sample_job]
  show ?thesis using fresh_catalog_unmigrated(1) by (auto simp: sample_job_def initial_def)
qed

end
