(* ===== verification/Process_System.thy ===== *)
theory Process_System
  imports Api_Process Worker_Process Migration
begin

text \<open>
  The processes of \<open>src/cmd/\<close> as parts of the relay of \<open>Relay_System\<close>: what a request of the API, a run of
  the worker and the migration job do to the database are steps of the system, so whatever holds of its
  reachable states holds of the processes, however their operations interleave.
\<close>

text \<open>The databases that steps of the relay lead to.\<close>

definition leads_to :: "system \<Rightarrow> db \<Rightarrow> bool" where
  "leads_to s d \<longleftrightarrow> (\<exists>s'. relay_step\<^sup>*\<^sup>* s s' \<and> sy_db s' = d)"

lemma leads_to_refl: "leads_to s (sy_db s)"
  by (auto simp: leads_to_def)

lemma leads_to_step:
  assumes "leads_to s d" and "\<And>s'. sy_db s' = d \<Longrightarrow> relay_step s' (s'\<lparr>sy_db := d'\<rparr>)"
  shows "leads_to s d'"
proof -
  obtain s' where s': "relay_step\<^sup>*\<^sup>* s s'" "sy_db s' = d" using assms(1) by (auto simp: leads_to_def)
  from s'(1) assms(2) [OF s'(2)] have "relay_step\<^sup>*\<^sup>* s (s'\<lparr>sy_db := d'\<rparr>)" by (rule rtranclp.rtrancl_into_rtrancl)
  then show ?thesis by (auto simp: leads_to_def)
qed

section \<open>Requests\<close>

interpretation request_steps: request_closed "leads_to s" for s
  by unfold_locales
    (blast intro: leads_to_step relay_step.accept relay_step.replay relay_step.create relay_step.submit
      relay_step.sandbox_replay relay_step.cleanup)+

text \<open>
  C8: Every request is a run of the relay.  Whatever a started API answers, and whatever other processes commit
  while it does, the database it leaves is one that steps of the relay lead to; from a reachable
  state it is the database of a reachable state again.
\<close>

theorem serve_refines:
  assumes "api_start open_root w = Started p" and "serve parse_url p env r (sy_db s) = (answer, d')" and "reachable s"
    and "\<And>k d. leads_to s d \<Longrightarrow> leads_to s (sr_others (se_visitor env) k d)"
  shows "\<exists>s'. relay_step\<^sup>*\<^sup>* s s' \<and> reachable s' \<and> sy_db s' = d'"
proof -
  have "leads_to s d'"
    by (rule request_steps.serve_closed [OF leads_to_refl assms(2) api_start_source [OF assms(1)]]) (rule assms(4))
  then show ?thesis using reachable_steps assms(3) by (auto simp: leads_to_def)
qed

section \<open>The worker\<close>

text \<open>The identifiers that the first runs of an iteration, and the first iterations, draw.\<close>

definition drawn_by :: "(nat \<Rightarrow> run_env) \<Rightarrow> nat \<Rightarrow> string set" where
  "drawn_by ws j = set_option (NewUUID (re_random (ws j)))"

text \<open>No claim identifier is drawn twice, in any run of any iteration.\<close>

definition never_twice :: "(nat \<Rightarrow> tick option) \<Rightarrow> bool" where
  "never_twice ticks \<longleftrightarrow>
     (\<forall>k j k' j' t t' cid. ticks k = Some t \<and> ticks k' = Some t' \<and> cid \<in> drawn_by (tk_runs t) j \<inter> drawn_by (tk_runs t') j' \<longrightarrow>
        k = k' \<and> j = j')"

lemma RunOnce_refines:
  assumes "RunOnce (Claim random n locked) send (Record nets) worker now (sy_db s) = (r, d', requests)"
    and "\<forall>cid. NewUUID random = Some cid \<longrightarrow> cid \<notin> set (sy_drawn s)"
  shows "\<exists>s'. relay_step\<^sup>*\<^sup>* s s' \<and> sy_db s' = d' \<and> set (sy_drawn s') = set (sy_drawn s) \<union> set_option (NewUUID random)"
proof -
  define after where "after res d1 = s\<lparr>sy_db := d1,
       sy_claims := (case res of Inr (Some c) \<Rightarrow> c # sy_claims s | _ \<Rightarrow> sy_claims s),
       sy_drawn := (case NewUUID random of None \<Rightarrow> sy_drawn s | Some cid \<Rightarrow> cid # sy_drawn s)\<rparr>"
    for res :: "store_error + claimed_event option" and d1
  have claim: "relay_step s (after res d1)" if "Claim random n locked now (wk_lease worker) (sy_db s) = (res, d1)" for res d1
    unfolding after_def using that assms(2) by (rule relay_step.claim)
  have after: "sy_db (after res d1) = d1" "set (sy_drawn (after res d1)) = set (sy_drawn s) \<union> set_option (NewUUID random)" for res d1
    by (auto simp: after_def split: option.splits)
  have both: ?thesis if "Claim random n locked now (wk_lease worker) (sy_db s) = (Inr (Some c), d1)" "Record nets c att d1 = (res, d')"
    for c att d1 res
  proof -
    have "relay_step (after (Inr (Some c)) d1) ((after (Inr (Some c)) d1)\<lparr>sy_db := d'\<rparr>)"
      by (rule relay_step.record_attempt) (use that(2) in \<open>simp_all add: after_def\<close>)
    with claim [OF that(1)] have "relay_step\<^sup>*\<^sup>* s ((after (Inr (Some c)) d1)\<lparr>sy_db := d'\<rparr>)"
      by (blast intro: converse_rtranclp_into_rtranclp)
    with after(2) [of "Inr (Some c)" d1] show ?thesis
      by (intro exI [of _ "(after (Inr (Some c)) d1)\<lparr>sy_db := d'\<rparr>"]) simp
  qed
  from assms(1) show ?thesis
  proof (cases rule: RunOnce_cases)
    case (record_failed c att s1 e)
    then show ?thesis by (intro both)
  next
    case (recorded c att s1)
    then show ?thesis by (intro both)
  qed (use claim after in \<open>blast\<close>)+
qed

lemma runs_refine:
  assumes "cycle_runs ctx_err now (worker_run sender worker ws) k n (sy_db s, sent) = (r, d', sent')"
    and "\<forall>j. drawn_by ws (k + j) \<inter> set (sy_drawn s) = {}" and "\<forall>j j'. j \<noteq> j' \<longrightarrow> drawn_by ws j \<inter> drawn_by ws j' = {}"
  shows "\<exists>s'. relay_step\<^sup>*\<^sup>* s s' \<and> sy_db s' = d' \<and> set (sy_drawn s') \<subseteq> set (sy_drawn s) \<union> (\<Union>j. drawn_by ws j)"
  using assms(1,2)
proof (induction n arbitrary: k s sent)
  case 0
  then show ?case by (intro exI [of _ s]) simp
next
  case (Suc n)
  show ?case
  proof (cases "ctx_err k")
    case True
    with Suc.prems(1) show ?thesis by (intro exI [of _ s]) simp
  next
    case False
    obtain r1 d1 sent1 where run: "worker_run sender worker ws k (now k) (sy_db s, sent) = (r1, d1, sent1)"
      by (metis prod_cases3)
    then obtain requests where one: "RunOnce (Claim (re_random (ws k)) (re_claim_net (ws k)) (re_locked (ws k)))
        (worker_send sender (re_send (ws k))) (Record (re_record_nets (ws k))) worker (now k) (sy_db s) = (r1, d1, requests)"
      by (rule worker_run_RunOnce) (simp_all)
    have "\<forall>cid. NewUUID (re_random (ws k)) = Some cid \<longrightarrow> cid \<notin> set (sy_drawn s)"
      using Suc.prems(2) [rule_format, of 0] by (auto simp: drawn_by_def)
    from RunOnce_refines [OF one this] obtain s1 where
      s1: "relay_step\<^sup>*\<^sup>* s s1" "sy_db s1 = d1" "set (sy_drawn s1) = set (sy_drawn s) \<union> drawn_by ws k"
      by (auto simp: drawn_by_def)
    show ?thesis
    proof (cases "r1 = Inr True")
      case True
      with Suc.prems(1) run False s1(2)
      have rest: "cycle_runs ctx_err now (worker_run sender worker ws) (Suc k) n (sy_db s1, sent1) = (r, d', sent')" by simp
      have "\<forall>j. drawn_by ws (Suc k + j) \<inter> set (sy_drawn s1) = {}"
      proof
        fix j
        have "drawn_by ws (k + Suc j) \<inter> set (sy_drawn s) = {}" "drawn_by ws (Suc k + j) \<inter> drawn_by ws k = {}"
          using Suc.prems(2) assms(3) by (blast, simp)
        then show "drawn_by ws (Suc k + j) \<inter> set (sy_drawn s1) = {}" unfolding s1(3) by (simp add: Int_Un_distrib)
      qed
      from Suc.IH [OF rest this] s1 show ?thesis by (blast intro: rtranclp_trans)
    next
      case stop: False
      with Suc.prems(1) run False have "d' = d1" by (auto split: sum.splits bool.splits)
      with s1 show ?thesis by blast
    qed
  qed
qed

lemma iteration_refines:
  assumes "lp_db lp = sy_db s"
    and "\<forall>j. drawn_by (tk_runs t) j \<inter> set (sy_drawn s) = {}"
    and "\<forall>j j'. j \<noteq> j' \<longrightarrow> drawn_by (tk_runs t) j \<inter> drawn_by (tk_runs t) j' = {}"
  shows "\<exists>s'. relay_step\<^sup>*\<^sup>* s s' \<and> sy_db s' = lp_db (iteration p t lp) \<and>
    set (sy_drawn s') \<subseteq> set (sy_drawn s) \<union> (\<Union>j. drawn_by (tk_runs t) j)"
proof -
  obtain s1 where s1: "relay_step\<^sup>*\<^sup>* s s1" "sy_db s1 = lp_db (housekeeping t lp)" "sy_drawn s1 = sy_drawn s"
  proof (cases "tk_now t < lp_next lp")
    case True
    with assms(1) show ?thesis by (intro that [of s]) (simp_all add: housekeeping_def)
  next
    case False
    obtain r d1 where clean: "Cleanup (tk_cleanup_nets t) (tk_cleanup_clock t) (tk_cleanup_locked t) (sy_db s) = (r, d1)" by fastforce
    with False assms(1) relay_step.cleanup [OF clean] show ?thesis
      by (intro that [of "s\<lparr>sy_db := d1\<rparr>"]) (simp_all add: housekeeping_def)
  qed
  let ?run = "cycle_runs (tk_ctx_err t) (tk_clock t) (worker_run (wp_sender p) (wp_worker p) (tk_runs t)) 0 BatchSize
      (sy_db s1, lp_sent (housekeeping t lp))"
  obtain r d' sent' where run: "?run = (r, d', sent')" by (metis prod_cases3)
  have "lp_db (iteration p t lp) = d'"
    using run cycle_state [of "tk_ctx_err t" "tk_clock t" "worker_run (wp_sender p) (wp_worker p) (tk_runs t)"
        "map_option (queue_consumer t) (wp_queue p)" "(sy_db s1, lp_sent (housekeeping t lp))" "lp_deleted (housekeeping t lp)"]
    by (auto simp: iteration_def run_cycle_def Let_def s1(2) split: prod.splits)
  moreover have "\<forall>j. drawn_by (tk_runs t) (0 + j) \<inter> set (sy_drawn s1) = {}" using assms(2) s1(3) by simp
  ultimately show ?thesis
    using runs_refine [OF run _ assms(3)] s1 by (metis rtranclp_trans)
qed

text \<open>The claim identifiers drawn before iteration \<open>k\<close>.\<close>

definition drawn_before :: "(nat \<Rightarrow> tick option) \<Rightarrow> nat \<Rightarrow> string set" where
  "drawn_before ticks k = (\<Union>i\<in>{..<k}. \<Union>j. drawn_by (tk_runs (the (ticks i))) j)"

lemma fold_iteration_refines:
  assumes "never_twice ticks" and "\<forall>i < k. ticks i \<noteq> None"
    and "\<forall>i t j. ticks i = Some t \<longrightarrow> drawn_by (tk_runs t) j \<inter> set (sy_drawn s) = {}" and "lp_db lp = sy_db s"
  shows "\<exists>s'. relay_step\<^sup>*\<^sup>* s s' \<and> sy_db s' = lp_db (fold (\<lambda>i. iteration p (the (ticks i))) [0..<k] lp) \<and>
    set (sy_drawn s') \<subseteq> set (sy_drawn s) \<union> drawn_before ticks k"
  using assms(2)
proof (induction k)
  case 0
  with assms(4) show ?case by (intro exI [of _ s]) simp
next
  case (Suc k)
  then obtain t where t: "ticks k = Some t" by blast
  from Suc obtain s1 where s1: "relay_step\<^sup>*\<^sup>* s s1"
    "lp_db (fold (\<lambda>i. iteration p (the (ticks i))) [0..<k] lp) = sy_db s1"
    "set (sy_drawn s1) \<subseteq> set (sy_drawn s) \<union> drawn_before ticks k" by (metis less_SucI)
  have "drawn_by (tk_runs t) j \<inter> drawn_before ticks k = {}" for j
  proof -
    have "cid \<notin> drawn_by (tk_runs (the (ticks i))) j'" if "cid \<in> drawn_by (tk_runs t) j" "i < k" for cid i j'
    proof -
      obtain t' where "ticks i = Some t'" using Suc.prems \<open>i < k\<close> by (metis less_SucI not_None_eq)
      with assms(1) t that show ?thesis by (fastforce simp: never_twice_def)
    qed
    then show ?thesis by (auto simp: drawn_before_def)
  qed
  then have "\<forall>j. drawn_by (tk_runs t) j \<inter> set (sy_drawn s1) = {}" using assms(3) t s1(3) by blast
  moreover have "\<forall>j j'. j \<noteq> j' \<longrightarrow> drawn_by (tk_runs t) j \<inter> drawn_by (tk_runs t) j' = {}"
    using assms(1) t unfolding never_twice_def by blast
  ultimately obtain s2 where s2: "relay_step\<^sup>*\<^sup>* s1 s2"
    "sy_db s2 = lp_db (iteration p t (fold (\<lambda>i. iteration p (the (ticks i))) [0..<k] lp))"
    "set (sy_drawn s2) \<subseteq> set (sy_drawn s1) \<union> (\<Union>j. drawn_by (tk_runs t) j)"
    using iteration_refines [OF s1(2)] by blast
  have "drawn_before ticks (Suc k) = drawn_before ticks k \<union> (\<Union>j. drawn_by (tk_runs t) j)"
    by (auto simp: drawn_before_def lessThan_Suc t)
  with s1 s2 t show ?case by (intro exI [of _ s2]) (auto intro: rtranclp_trans)
qed

text \<open>
  C9: The worker process is a run of the relay.  As long as no claim identifier is drawn twice, the database that
  the loop leaves when it ends, after any number of iterations and whatever failed in them, is one that
  steps of the relay lead to; from a reachable state it is the database of a reachable state again.
\<close>

theorem main_cycles_refines:
  assumes "main_cycles p ticks now (sy_db s) = Some lp" and "reachable s" and "never_twice ticks"
    and "\<forall>i t j. ticks i = Some t \<longrightarrow> drawn_by (tk_runs t) j \<inter> set (sy_drawn s) = {}"
  shows "\<exists>s'. relay_step\<^sup>*\<^sup>* s s' \<and> reachable s' \<and> sy_db s' = lp_db lp"
proof -
  let ?start = "\<lparr> lp_db = sy_db s, lp_sent = [], lp_deleted = [], lp_cleanups = [], lp_next = now \<rparr>"
  obtain n where n: "\<forall>j < n. ticks j \<noteq> None" and "lp = fold (\<lambda>i. iteration p (the (ticks i))) [0..<n] ?start"
    using main_cycles_iterations [OF assms(1)] by blast
  with fold_iteration_refines [OF assms(3) n assms(4), of ?start p] obtain s' where "relay_step\<^sup>*\<^sup>* s s'" "sy_db s' = lp_db lp"
    by auto
  with reachable_steps [OF _ assms(2)] show ?thesis by blast
qed

section \<open>A deployment\<close>

text \<open>
  The whole deployment on its database: the migration job on a fresh database, and then requests of API
  processes, iterations of workers and further runs of the job in any order, each on what the others
  left; every process is one that a start has produced.  Only the first run of the job has to succeed.
  The second argument collects the claim identifiers that were drawn.  Processes whose transactions
  interleave are the subject of \<open>serve_refines\<close> and \<open>reachable\<close>.
\<close>

inductive deployed :: "db \<Rightarrow> string set \<Rightarrow> bool" where
  migrated: "unmigrated c \<Longrightarrow> migrate w j c = Some (Inr (), c') \<Longrightarrow> deployed (ct_data c') {}"
| migrated_again: "deployed (ct_data c) ids \<Longrightarrow> current_stage c \<Longrightarrow> migrate w j c = Some (r, c') \<Longrightarrow> deployed (ct_data c') ids"
| request: "deployed d ids \<Longrightarrow> api_start open_root w = Started p \<Longrightarrow> serve parse_url p env r d = (answer, d') \<Longrightarrow>
     (\<forall>k x. sr_others (se_visitor env) k x = x) \<Longrightarrow> deployed d' ids"
| worker_iteration: "deployed (lp_db lp) ids \<Longrightarrow> worker_start w = Started p \<Longrightarrow>
     (\<forall>j. drawn_by (tk_runs t) j \<inter> ids = {}) \<Longrightarrow>
     (\<forall>j j'. j \<noteq> j' \<longrightarrow> drawn_by (tk_runs t) j \<inter> drawn_by (tk_runs t) j' = {}) \<Longrightarrow>
     deployed (lp_db (iteration p t lp)) (ids \<union> (\<Union>j. drawn_by (tk_runs t) j))"

text \<open>The databases of reachable states in which no identifier beyond the given ones was drawn.\<close>

definition reached :: "string set \<Rightarrow> db \<Rightarrow> bool" where
  "reached ids d \<longleftrightarrow> (\<exists>s. reachable s \<and> sy_db s = d \<and> set (sy_drawn s) \<subseteq> ids)"

lemma reached_step:
  assumes "reached ids d" and "\<And>s. sy_db s = d \<Longrightarrow> relay_step s (s\<lparr>sy_db := d'\<rparr>)"
  shows "reached ids d'"
proof -
  obtain s where s: "reachable s" "sy_db s = d" "set (sy_drawn s) \<subseteq> ids" using assms(1) by (auto simp: reached_def)
  from s(1) assms(2) [OF s(2)] have "reachable (s\<lparr>sy_db := d'\<rparr>)" by (rule reachable.step)
  with s(3) show ?thesis unfolding reached_def by (intro exI [of _ "s\<lparr>sy_db := d'\<rparr>"]) simp
qed

interpretation quiet_steps: request_closed "reached ids" for ids
  by unfold_locales
    (blast intro: reached_step relay_step.accept relay_step.replay relay_step.create relay_step.submit
      relay_step.sandbox_replay relay_step.cleanup)+

lemma migrated_initial:
  assumes "unmigrated c" and "migrate w j c = Some (Inr (), c')"
  shows "ct_data c' = sy_db (initial (jb_now j))"
  using assms(2)
proof (cases rule: migrate_cases)
  case applied
  have "ct_data c' = with_budget (jb_now j) (ct_data c)" using migration_fresh [OF assms(1) applied(1)] by blast
  with assms(1) show ?thesis by (simp add: unmigrated_def before_sandbox_def with_budget_def initial_def empty_db_def)
qed simp

lemma migrated_unchanged:
  assumes "current_stage c" and "migrate w j c = Some (r, c')"
  shows "c' = c"
  using assms(2)
proof (cases rule: migrate_cases)
  case applied
  with migration_current [OF assms(1)] show ?thesis by blast
qed simp_all

lemma deployed_reached: "deployed d ids \<Longrightarrow> reached ids d"
proof (induction rule: deployed.induct)
  case (migrated c w j c')
  then show ?case unfolding reached_def
    using reachable.start [of "jb_now j"]
    by (intro exI [of _ "initial (jb_now j)"]) (simp add: migrated_initial, simp add: initial_def)
next
  case (migrated_again c ids w j r c')
  have "c' = c" by (rule migrated_unchanged [OF migrated_again.hyps(2,3)])
  with migrated_again.IH show ?case by simp
next
  case (request d ids open_root w p parse_url env r answer d')
  show ?case
    by (rule quiet_steps.serve_closed [OF request.IH request.hyps(3) api_start_source [OF request.hyps(2)]])
      (simp add: request.hyps(4))
next
  case (worker_iteration lp ids w p t)
  then obtain s where s: "reachable s" "sy_db s = lp_db lp" "set (sy_drawn s) \<subseteq> ids" by (auto simp: reached_def)
  with worker_iteration.hyps(3) have "\<forall>j. drawn_by (tk_runs t) j \<inter> set (sy_drawn s) = {}" by blast
  from iteration_refines [OF s(2) [symmetric] this worker_iteration.hyps(4), of p] s show ?case
    unfolding reached_def by (blast intro: reachable_steps)
qed

text \<open>
  C10: The deployment is sound from end to end.  Whatever happens to the calls of the processes, in whatever order
  requests, iterations of the worker and runs of the migration job follow each other on a database that
  the job created, and as long as no two claims draw the same identifier: the database satisfies the
  schema, the lifecycle and the history invariant, operator and visitor events keep apart, an event has
  at most eight attempts in a generation and 136 in all, and the database is one that the relay reaches.
\<close>

theorem deployed_sound:
  assumes "deployed d ids"
  shows "store_ok d \<and> tenancy_ok d \<and> (\<exists>s. reachable s \<and> sy_db s = d) \<and>
    (\<forall>i g. length (filter (\<lambda>a. at_event a = i \<and> at_replay a = g) (attempts d)) \<le> 8 \<and> length (event_attempts d i) \<le> 136)"
proof -
  obtain s where s: "reachable s" "sy_db s = d" using deployed_reached [OF assms] by (auto simp: reached_def)
  have "store_ok d \<and> tenancy_ok d" using reachable_ok [OF s(1)] s(2) by (simp add: system_ok_def)
  then show ?thesis using schema_attempt_bounds [of d] s by (auto simp: store_ok_def)
qed

section \<open>The properties on concrete runs\<close>

theorem serve_refines_witness:
  "\<exists>answer s'. serve (\<lambda>_. None) api_sample api_serving sample_post (sy_db (initial 0)) = (answer, sy_db s') \<and> reachable s'"
proof -
  obtain answer d' where run: "serve (\<lambda>_. None) api_sample api_serving sample_post (sy_db (initial 0)) = (answer, d')" by fastforce
  have others: "leads_to s d \<Longrightarrow> leads_to s (sr_others (se_visitor api_serving) k d)" for s d k
    by (simp add: api_serving_def sample_surroundings_def)
  from serve_refines [OF api_sample_started run reachable.start others] run show ?thesis by auto
qed

definition one_claim :: "nat \<Rightarrow> run_env" where
  "one_claim j = (if j = 0 then sample_run_env else sample_run_env\<lparr>re_random := None\<rparr>)"

definition one_tick :: "nat \<Rightarrow> tick option" where
  "one_tick k = (if k = 0 then Some (sample_tick\<lparr>tk_runs := one_claim\<rparr>) else None)"

lemma one_tick_never_twice: "never_twice one_tick"
  by (auto simp: never_twice_def one_tick_def drawn_by_def one_claim_def NewUUID_def split: if_splits)

theorem main_cycles_refines_witness:
  "\<exists>lp s'. main_cycles sample_process one_tick 0 sample_db = Some lp \<and> reachable s' \<and> sy_db s' = lp_db lp"
proof -
  let ?s = "(initial 0)\<lparr>sy_db := sample_db\<rparr>"
  have "one_tick (0 + 1) = None" "\<forall>j < 1. one_tick (0 + j) \<noteq> None" by (simp_all add: one_tick_def)
  note ends = main_loop_ends [of one_tick 0 1, OF this]
  then obtain lp where lp: "main_cycles sample_process one_tick 0 (sy_db ?s) = Some lp"
    unfolding main_cycles_def by blast
  have "reachable ?s" by (rule reachable.step [OF reachable.start sample_step])
  from main_cycles_refines [OF lp this one_tick_never_twice] lp show ?thesis by (auto simp: initial_def)
qed

lemma fresh_deployed: "deployed (empty_db 0) {}"
proof -
  have "en_getenv migration_environment ''RELAY_DATABASE_URL'' \<noteq> []" by (simp add: migration_environment_def)
  from migrate_Done [OF fresh_catalog_unmigrated(2) this migration_environment_connection, of sample_job]
  obtain c' where run: "migrate migration_environment sample_job fresh_catalog = Some (Inr (), c')"
    by (auto simp: sample_job_def)
  have "ct_data c' = empty_db 0"
    using migrated_initial [OF fresh_catalog_unmigrated(1) run] by (simp add: initial_def sample_job_def)
  with deployed.migrated [OF fresh_catalog_unmigrated(1) run] show ?thesis by simp
qed

theorem deployed_sound_witness:
  "\<exists>answer d p. serve (\<lambda>_. None) api_sample api_serving sample_post (empty_db 0) = (answer, d) \<and>
     worker_start sample_environment = Started p \<and>
     store_ok (lp_db (iteration p (sample_tick\<lparr>tk_runs := one_claim\<rparr>)
       \<lparr> lp_db = d, lp_sent = [], lp_deleted = [], lp_cleanups = [], lp_next = 0 \<rparr>))"
proof -
  let ?t = "sample_tick\<lparr>tk_runs := one_claim\<rparr>"
  obtain answer d where run: "serve (\<lambda>_. None) api_sample api_serving sample_post (empty_db 0) = (answer, d)" by fastforce
  let ?lp = "\<lparr> lp_db = d, lp_sent = [], lp_deleted = [], lp_cleanups = [], lp_next = 0 \<rparr>"
  have posted: "deployed (lp_db ?lp) {}"
    using deployed.request [OF fresh_deployed api_sample_started run] by (simp add: api_serving_def sample_surroundings_def)
  obtain p where p: "worker_start sample_environment = Started p"
    by (simp add: worker_start_def sample_environment_def sample_environment_of_connection sample_environment_of_queue
        new_worker_eq)
  have "deployed (lp_db (iteration p ?t ?lp)) ({} \<union> (\<Union>j. drawn_by (tk_runs ?t) j))"
    by (rule deployed.worker_iteration [OF posted p])
      (auto simp: drawn_by_def one_claim_def NewUUID_def split: if_splits)
  from deployed_sound [OF this] run p show ?thesis by blast
qed

end
