(* ===== verification/Worker_Progress.thy ===== *)
theory Worker_Progress
  imports Worker_Process Relay_System
begin

text \<open>
  Progress of the worker process: each successful iteration of its loop either finds nothing left to do or
  uses up ten of the attempts that the constraints of the tables leave room for.
\<close>

section \<open>Room for attempts\<close>

definition room :: "db \<Rightarrow> int" where
  "room d = 136 * int (length (events d)) - int (length (attempts d))"

lemma length_by_key:
  assumes "finite K" and "\<forall>x \<in> set xs. f x \<in> K"
  shows "length xs = (\<Sum>k\<in>K. length (filter (\<lambda>x. f x = k) xs))"
  using assms(2)
proof (induction xs)
  case (Cons x xs)
  have "(\<Sum>k\<in>K. length (filter (\<lambda>x. f x = k) (x # xs))) =
      (\<Sum>k\<in>K. (if f x = k then 1 else 0) + length (filter (\<lambda>x. f x = k) xs))"
    by (intro sum.cong) auto
  with Cons assms(1) show ?case by (simp add: sum.distrib)
qed simp

lemma attempts_of_events:
  assumes "schema_ok d"
  shows "length (filter (\<lambda>a. at_event a \<in> A) (attempts d)) \<le> 136 * length (filter (\<lambda>e. ev_id e \<in> A) (events d))"
proof -
  let ?xs = "filter (\<lambda>a. at_event a \<in> A) (attempts d)" and ?es = "filter (\<lambda>e. ev_id e \<in> A) (events d)"
  let ?K = "ev_id ` set ?es"
  have "\<forall>a \<in> set ?xs. at_event a \<in> ?K" using assms by (auto simp: schema_defs list_all_iff)
  then have "length ?xs = (\<Sum>k\<in>?K. length (filter (\<lambda>a. at_event a = k) ?xs))" by (intro length_by_key) simp_all
  also have "\<dots> \<le> (\<Sum>k\<in>?K. 136)"
  proof (intro sum_mono)
    fix k
    have "filter (\<lambda>a. at_event a = k) ?xs = filter (\<lambda>a. at_event a \<in> A) (event_attempts d k)"
      by (simp add: event_attempts_def conj_commute)
    then have "length (filter (\<lambda>a. at_event a = k) ?xs) \<le> length (event_attempts d k)" by (simp only: length_filter_le)
    with schema_attempt_bounds(2) [OF assms, of k] show "length (filter (\<lambda>a. at_event a = k) ?xs) \<le> 136" by simp
  qed
  also have "\<dots> = 136 * card ?K" by simp
  also have "card ?K \<le> length ?es" using card_image_le [of "set ?es" ev_id] card_length [of ?es] by simp
  finally show ?thesis by simp
qed

lemma room_nonneg: "schema_ok d \<Longrightarrow> 0 \<le> room d"
  using attempts_of_events [of d UNIV] by (simp add: room_def)

text \<open>An event takes its history with it, so a cleanup leaves no more room than there was.\<close>

lemma Cleanup_room:
  assumes "schema_ok d" and "Cleanup nets clock locked d = (r, d')"
  shows "room d' \<le> room d"
  using assms(2)
proof (cases rule: Cleanup_cases)
  case (committed b)
  define ids where "ids = set (cleanup_ids locked (clock 1) d)"
  have d': "events d' = filter (\<lambda>e. ev_id e \<notin> ids) (events d)" "attempts d' = filter (\<lambda>a. at_event a \<notin> ids) (attempts d)"
    unfolding ids_def using committed(2) by (simp_all add: swept_defs)
  have "length (filter P xs) + length (filter (\<lambda>x. \<not> P x) xs) = length xs" for P and xs :: "'x list"
    by (rule sum_length_filter_compl)
  from this [of "\<lambda>e. ev_id e \<in> ids" "events d"] this [of "\<lambda>a. at_event a \<in> ids" "attempts d"]
    attempts_of_events [OF assms(1), of ids] show ?thesis by (simp add: room_def d')
qed simp

text \<open>A run of the worker leaves the set of events as large as it was.\<close>

interpretation kept: bounded_runner "worker_run sender worker ws" "\<lambda>s. schema_ok (fst s) \<and> length (events (fst s)) = n" "\<lambda>_. 0"
  for sender worker ws n
proof unfold_locales
  fix s k t r s'
  assume s: "schema_ok (fst s) \<and> length (events (fst s)) = n" "worker_run sender worker ws k t s = (r, s')"
  from s(2) obtain rq where run: "RunOnce (Claim (re_random (ws k)) (re_claim_net (ws k)) (re_locked (ws k)))
      (worker_send sender (re_send (ws k))) (Record (re_record_nets (ws k))) worker t (fst s) = (r, fst s', rq)"
    by (rule worker_run_RunOnce)
  have claim: "length (events d1) = n" if "Claim random m locked now lease (fst s) = (r1, d1)" for random m locked now lease r1 d1
    using conjunct1 [OF s(1)] that by (cases rule: Claim_cases) (use s(1) in auto)
  have rec: "length (events d2) = length (events d1)" if "schema_ok d1" "Record nets c att d1 = (r1, d2)" for nets c att d1 r1 d2
    using that by (cases rule: Record_cases) (auto simp: recorded_def)
  have ok: "schema_ok d1" if "Claim random m locked now lease (fst s) = (r1, d1)" for random m locked now lease r1 d1
    using conjunct1 [OF s(1)] that by (rule pg_queue.claim_inv)
  have "length (events (fst s')) = n"
    using run
  proof (cases rule: RunOnce_cases)
    case (record_failed c att s1 e)
    with rec [OF ok [OF record_failed(1)] record_failed(3)] claim [OF record_failed(1)] show ?thesis by simp
  next
    case (recorded c att s1)
    with rec [OF ok [OF recorded(1)] recorded(3)] claim [OF recorded(1)] show ?thesis by simp
  qed (use claim in auto)
  with pg_queue.run_once_inv [OF conjunct1 [OF s(1)] run] show "schema_ok (fst s') \<and> length (events (fst s')) = n" by simp
qed simp

section \<open>The queue empties\<close>

text \<open>The state of the loop after its first \<open>k\<close> iterations, and the error its cycle then reports.\<close>

definition loop_after :: "worker_process \<Rightarrow> (nat \<Rightarrow> tick option) \<Rightarrow> time \<Rightarrow> db \<Rightarrow> nat \<Rightarrow> loop" where
  "loop_after p ticks now d k = fold (\<lambda>j. iteration p (the (ticks j))) [0..<k]
     \<lparr> lp_db = d, lp_sent = [], lp_deleted = [], lp_cleanups = [], lp_next = now \<rparr>"

definition succeeds :: "worker_process \<Rightarrow> tick \<Rightarrow> loop \<Rightarrow> bool" where
  "succeeds p t lp \<longleftrightarrow> fst (run_cycle p t (housekeeping t lp)) = Inr ()"

definition idle_after :: "tick \<Rightarrow> db \<Rightarrow> bool" where
  "idle_after t d \<longleftrightarrow> (\<exists>j < 10. \<forall>e \<in> set (events d). due_event d (pg_time (tk_clock t j)) e \<longrightarrow> re_locked (tk_runs t j) (ev_id e))"

lemma iteration_room:
  assumes "schema_ok (lp_db lp)" and "succeeds p t lp" and "\<not> idle_after t (lp_db (iteration p t lp))"
  shows "room (lp_db (iteration p t lp)) \<le> room (lp_db lp) - 10"
proof -
  let ?lp1 = "housekeeping t lp" and ?run = "worker_run (wp_sender p) (wp_worker p) (tk_runs t)"
  obtain r0 d0 where clean: "Cleanup (tk_cleanup_nets t) (tk_cleanup_clock t) (tk_cleanup_locked t) (lp_db lp) = (r0, d0)" by fastforce
  have house: "schema_ok (lp_db ?lp1)" "room (lp_db ?lp1) \<le> room (lp_db lp)"
    using Cleanup_schema [OF assms(1) clean] Cleanup_room [OF assms(1) clean] assms(1) by (simp_all add: housekeeping_def clean)
  obtain r d' sent deleted where run: "run_cycle p t ?lp1 = (r, (d', sent), deleted)" by (metis prod_cases3 surj_pair)
  with assms(2) have cyc: "Cycle (tk_ctx_err t) (tk_clock t) ?run (map_option (queue_consumer t) (wp_queue p))
      (lp_db ?lp1, lp_sent ?lp1) (lp_deleted ?lp1) = (Inr (), (d', sent), deleted)"
    by (simp add: succeeds_def run_cycle_def)
  have d': "lp_db (iteration p t lp) = d'" using run by (simp add: iteration_def Let_def)
  have same: "length (events d') = length (events (lp_db ?lp1))"
    using kept.cycle_inv [OF _ cyc, of "length (events (lp_db ?lp1))"] house(1) by simp
  have "length (attempts d') = length (attempts (lp_db ?lp1)) + 10"
    using recorded.cycle_complete [OF _ cyc] house(1) assms(3) d'
    by (auto simp: BatchSize_def idle_after_def nothing_due_def due_event_iff)
  with same house(2) show ?thesis by (simp add: d' room_def)
qed

lemma iteration_schema:
  assumes "schema_ok (lp_db lp)"
  shows "schema_ok (lp_db (iteration p t lp))"
proof -
  let ?lp1 = "housekeeping t lp" and ?run = "worker_run (wp_sender p) (wp_worker p) (tk_runs t)"
  obtain r0 d0 where clean: "Cleanup (tk_cleanup_nets t) (tk_cleanup_clock t) (tk_cleanup_locked t) (lp_db lp) = (r0, d0)" by fastforce
  have house: "schema_ok (fst (lp_db ?lp1, lp_sent ?lp1))"
    using Cleanup_schema [OF assms clean] assms by (simp add: housekeeping_def clean)
  obtain r d' sent deleted where cyc: "Cycle (tk_ctx_err t) (tk_clock t) ?run (map_option (queue_consumer t) (wp_queue p))
      (lp_db ?lp1, lp_sent ?lp1) (lp_deleted ?lp1) = (r, (d', sent), deleted)" by (metis prod_cases3 surj_pair)
  from requests.cycle_inv [OF house this] cyc show ?thesis by (simp add: iteration_def run_cycle_def Let_def)
qed

text \<open>
  C26: The worker empties the queue.  If the iterations report no error, and there are more than 13.6 of them for
  every event in the database, then after one of them no unlocked event was due at the time of its
  last look, whatever the destinations answered: no event can keep the worker busy forever.
\<close>

theorem worker_drains:
  assumes "schema_ok d" and "\<forall>k < n. ticks k \<noteq> None"
    and "\<forall>k < n. succeeds p (the (ticks k)) (loop_after p ticks now d k)"
    and "136 * length (events d) < 10 * n"
  shows "\<exists>k < n. idle_after (the (ticks k)) (lp_db (loop_after p ticks now d (Suc k)))"
proof (rule ccontr)
  assume busy: "\<not> ?thesis"
  have step: "loop_after p ticks now d (Suc k) = iteration p (the (ticks k)) (loop_after p ticks now d k)" for k
    by (simp add: loop_after_def)
  have "schema_ok (lp_db (loop_after p ticks now d k)) \<and> room (lp_db (loop_after p ticks now d k)) \<le> room d - 10 * int k"
    if "k \<le> n" for k
    using that
  proof (induction k)
    case 0
    then show ?case using assms(1) by (simp add: loop_after_def)
  next
    case (Suc k)
    then have IH: "schema_ok (lp_db (loop_after p ticks now d k))"
      "room (lp_db (loop_after p ticks now d k)) \<le> room d - 10 * int k" by simp_all
    have "\<not> idle_after (the (ticks k)) (lp_db (iteration p (the (ticks k)) (loop_after p ticks now d k)))"
      using busy Suc.prems by (auto simp: step)
    from iteration_room [OF IH(1) _ this] assms(3) Suc.prems IH iteration_schema [OF IH(1)]
    show ?case by (simp add: step)
  qed
  then have "0 \<le> room (lp_db (loop_after p ticks now d n))" "room (lp_db (loop_after p ticks now d n)) \<le> room d - 10 * int n"
    using room_nonneg by auto
  moreover have "room d \<le> 136 * int (length (events d))" by (simp add: room_def)
  ultimately show False using assms(4) by linarith
qed

section \<open>The property on a concrete database\<close>

text \<open>A database whose only event is dead-lettered: every iteration succeeds and changes nothing in it.\<close>

definition settled_db :: db where
  "settled_db = sample_db\<lparr>events := [sample_event\<lparr>ev_state := Dead_Lettered\<rparr>]\<rparr>"

lemma settled_db_ok: "schema_ok settled_db"
  by (auto simp: schema_defs settled_db_def sample_db_def sample_event_def empty_db_def event_check_def text_length_def
      budget_check_def)

lemma settled_claim: "Claim (Some (replicate 16 0)) Done (\<lambda>_. False) now lease settled_db = (Inr None, settled_db)"
proof -
  have none: "candidate (\<lambda>_. False) t settled_db = None" for t
    by (simp add: candidate_None_iff) (simp add: settled_db_def candidate_where_def waiting_def)
  have "expired_rows (\<lambda>_. False) t settled_db = []" for t
    by (simp add: expired_rows_def settled_db_def expired_where_def waiting_def)
  with none have "claim_row (\<lambda>_. False) t l cid settled_db = (\<lambda>e. e)" for t l cid by (simp add: claim_row_def fun_eq_iff)
  then have "claim_statement (\<lambda>_. False) t l cid settled_db = (None, settled_db)" for t l cid
    by (simp add: claim_statement_eq [OF settled_db_ok] none)
  with settled_db_ok show ?thesis by (simp add: Claim_def sample_uuid autocommit_alt)
qed

lemma settled_iteration:
  assumes "lp_db lp = settled_db"
  shows "lp_db (iteration sample_process sample_tick lp) = settled_db" "succeeds sample_process sample_tick lp"
proof -
  let ?lp1 = "housekeeping sample_tick lp"
  have house: "lp_db ?lp1 = settled_db"
    using assms by (simp add: housekeeping_def sample_tick_def Cleanup_def admission_def and_then_def transaction_def)
  have run: "worker_run sample_sender \<lparr> wk_lease = 30 * second \<rparr> (\<lambda>_. sample_run_env) k now (settled_db, sent) =
      (Inr False, settled_db, sent)" for k now sent
    by (simp add: worker_run_def sample_run_env_def RunOnce_def settled_claim)
  have "fst (run_cycle sample_process sample_tick x) = Inr () \<and>
      fst (snd (run_cycle sample_process sample_tick x)) = (settled_db, lp_sent x)" if "lp_db x = settled_db" for x
    by (simp add: run_cycle_def that sample_process_def sample_tick_def Cycle_def BatchSize_def Let_def run eval_nat_numeral)
  from this [OF house] show "lp_db (iteration sample_process sample_tick lp) = settled_db" "succeeds sample_process sample_tick lp"
    by (auto simp: iteration_def succeeds_def Let_def split: prod.splits)
qed

lemma settled_loop: "lp_db (loop_after sample_process (\<lambda>_. Some sample_tick) now settled_db k) = settled_db"
  by (induction k) (simp_all add: loop_after_def settled_iteration)

theorem worker_drains_witness:
  "\<exists>k < 14. idle_after sample_tick (lp_db (loop_after sample_process (\<lambda>_. Some sample_tick) 0 settled_db (Suc k)))"
proof -
  have "136 * length (events settled_db) < 10 * 14" by (simp add: settled_db_def)
  moreover have "\<forall>k < 14. succeeds sample_process sample_tick (loop_after sample_process (\<lambda>_. Some sample_tick) 0 settled_db k)"
    by (simp add: settled_iteration(2) settled_loop)
  ultimately show ?thesis
    using worker_drains [OF settled_db_ok, of 14 "\<lambda>_. Some sample_tick" sample_process 0] by simp
qed

end
