(* ===== verification/Spec2Isabelle.thy ===== *)
theory Spec2Isabelle
  imports Worker_Cycle Relay_System Netguard Notification_Queue Event_Retry Demo_Receiver Sandbox_Http
    Gateway Process_System Worker_Progress
begin

text \<open>
  A verification development for the event relay \<open>p3-relay\<close> (Go, under \<open>src/\<close>).

  The program.  The API process accepts signed events from one operator source and simulated events
  from visitors, stores each in PostgreSQL exactly once, and tells a worker process about it with a
  best-effort hint on a queue.  The worker claims one due event at a time under a lease, sends it to
  its destination with a signature, and records the attempt together with the event's next state:
  delivered, scheduled for a retry, or dead-lettered.  The operator and the visitors look at events
  and replay dead-lettered ones.  A cleanup deletes what expired visitor sessions leave behind.  All
  processes run concurrently and meet only in the database, so what makes the relay correct is what
  each transaction does to the tables, whatever the others did in between.

  Theories, in the order they build on each other, with the code they model.

  \<^item> \<open>Relay_Prelude\<close>: byte slices, strings, instants and durations; \<open>Go_Text\<close> and \<open>Go_Utf8\<close>: the
    routines of \<open>encoding/hex\<close>, \<open>strconv\<close>, \<open>strings\<close> and \<open>unicode/utf8\<close> that the code calls;
    \<open>Sha256\<close>: \<open>crypto/sha256\<close> and \<open>crypto/hmac\<close>, executable.
  \<^item> \<open>Identifier\<close> (\<open>internal/identifier\<close>) and \<open>Signature\<close> (\<open>internal/signature\<close>).
  \<^item> \<open>Relay_Schema\<close> (\<open>migrations/\<close>): the tables as lists of records, one field per column, and every
    constraint as a predicate; what a statement and a transaction do when a constraint is violated,
    the connection fails, or the answer to a commit is lost.
  \<^item> \<open>Delivery\<close> (\<open>internal/delivery/policy.go\<close>, \<open>sandbox.go\<close>, \<open>sender.go\<close>): outcomes, the retry schedule
    in 64-bit arithmetic, the simulator, and \<open>Send\<close>.
  \<^item> \<open>Worker\<close> (\<open>internal/delivery/worker.go\<close>): \<open>RunOnce\<close> over the two interfaces of the code; the
    locale \<open>queue_store\<close> is what the worker relies on.
  \<^item> \<open>Pg_Queue\<close> (\<open>internal/postgres/queue.go\<close>): \<open>Claim\<close> and \<open>Record\<close>, and the interpretation of
    \<open>queue_store\<close> on them; \<open>Delivery_Run\<close>: a run of the worker on this store.
  \<^item> \<open>Notification\<close> (\<open>internal/notification/publish.go\<close>, \<open>queue.go\<close>, \<open>cycle.go\<close>): hints and the
    worker's cycle, with the locales \<open>bounded_runner\<close> and \<open>draining_runner\<close>; \<open>Worker_Cycle\<close>
    interprets both on the runs of the worker process.
  \<^item> \<open>Pg_Store\<close> (\<open>internal/postgres/store.go\<close>, \<open>replay.go\<close>, \<open>read.go\<close>, the types of
    \<open>internal/event\<close>): receipt, operator replay and the three views.
  \<^item> \<open>Sandbox_Session\<close>, \<open>Sandbox_Store\<close>, \<open>Sandbox_Cleanup\<close> (\<open>internal/sandbox/session.go\<close>,
    \<open>store.go\<close>, \<open>cleanup.go\<close>): visitor credentials, quotas, submissions, replays and cleanup.
  \<^item> \<open>Relay_System\<close>: all store operations as the steps of one system, its invariant, and its
    refinement of the delivery contract's life cycle.
  \<^item> \<open>Go_Json\<close>, \<open>Go_Http\<close>: \<open>encoding/json\<close> as far as the code decodes with it, and the request, the
    bounded readers and the patterns of \<open>net/http\<close>.
  \<^item> \<open>Notification_Queue\<close> (\<open>internal/notification/queue.go\<close>): what a worker receives from the queue.
  \<^item> \<open>Event_Api\<close> (\<open>internal/httpapi/api.go\<close>): the operator's API over the interface \<open>event.Store\<close>,
    with the locale \<open>accepting_store\<close> for what it needs of a receipt; \<open>Event_Retry\<close> extends it to the
    answers of the store for retries.  Both locales are interpreted on \<open>Pg_Store\<close>.
  \<^item> \<open>Sandbox_Http\<close> (\<open>internal/sandbox/http.go\<close>): the visitors' API on the sandbox store.
  \<^item> \<open>Demo_Receiver\<close> (\<open>internal/demoreceiver\<close>, \<open>cmd/receiver\<close>): the synthetic destination, one
    request at a time and under concurrent requests.
  \<^item> \<open>Go_Strings\<close>: splitting, trimming and character classes; \<open>Site\<close> (\<open>internal/webui/site.go\<close>): which
    files the compiled dashboard exposes.
  \<^item> \<open>Notification_Config\<close> (\<open>internal/notification/config.go\<close>), \<open>Database_Tls\<close>
    (\<open>internal/postgres/tls.go\<close>) and \<open>Gateway\<close> (\<open>gateway/\<close>): what is checked at the start of the queue, of
    the database connection and of the database gateway, and the gateway's private files.
  \<^item> \<open>Netguard\<close> (\<open>internal/netguard\<close>): which addresses the worker's HTTP client may connect to.
  \<^item> \<open>Process_Start\<close>, \<open>Worker_Process\<close>, \<open>Api_Process\<close>, \<open>Migration\<close> (\<open>cmd/worker\<close>, \<open>cmd/api\<close>,
    \<open>cmd/migrate\<close>, \<open>migrations/\<close>): what the processes check before they start and what they then
    consist of; the worker's loop as a partial function over the ticks it sees; the routing of one
    request through both multiplexers to the handlers above, with the locale \<open>request_closed\<close> for what
    the store operations keep; the job that creates the tables.
  \<^item> \<open>Process_System\<close>: requests and runs of the worker as steps of \<open>Relay_System\<close>, where
    \<open>request_closed\<close> is interpreted again, and the inductive \<open>deployed\<close>: a database that the migration
    job created and that any sequence of requests, iterations of workers and further runs of the job
    changed; \<open>Worker_Progress\<close>: the worker empties the queue.

  Conventions.  A method is a function from its arguments and the database to its result and the
  database afterwards; hints that are published, requests that are sent and addresses that are
  dialled are further results.  Errors are values of a sum type, one constructor per error of the
  code; a panic is \<open>None\<close>.  What the environment decides is an argument: clock readings, random
  bytes, the answer of the HTTP client or the queue service, for each database call one of
  \<open>Done\<close>, \<open>Failed\<close> (no effect, an error) and \<open>Lost\<close> (effect, but an error), and for \<open>SKIP LOCKED\<close>
  the rows that other transactions hold.  Where a method uses two statements outside a transaction
  the second one sees another, arbitrary database, \<open>later\<close>.  Numbers are kept at the width of the
  code where it can matter: attempt numbers are bytes, durations are reduced modulo \<open>2 ^ 64\<close>, and
  database columns are integers under their constraints.

  What is shown.  For each operation its outcome in every case, errors included; that it keeps the
  constraints of the schema and the invariants of \<open>Relay_Schema\<close>; that a database in which the
  invariants hold never makes a claim or a cleanup fail on a constraint; and for the composition
  safety (at most one request and one attempt per claim, no effect of a stale claim, no visitor
  request leaves the process) and progress (a due event is claimed, sent and recorded).  The system
  theorems hold for every interleaving of the operations.  For the HTTP boundaries: without the
  right credentials nothing changes and nothing is shown, an acknowledged receipt is in the
  database, a visitor reaches only the visitor's own session, and the receiver accepts what the
  sender signs.  For the processes: no start panics, a start that succeeds is well formed, every
  request of a started API keeps the invariants and needs an authority for what it changes, what the
  API and the worker do are runs of the system, the worker's loop is bounded in its effects and
  empties the queue, and a migration is all or nothing and ends in the tables
  that the relay's invariant starts from.

  Bounds.  The cycle is bounded by ten runs as in the code.  The worker's loop may run forever: there
  \<open>main_cycles\<close> is \<open>None\<close>, and it is proved to return exactly when its context is done at some tick.
  Every other recursion is structural or terminates by a measure.  The JSON reader alone has fuel, twice the length of the
  text and one: every call consumes a character or enters a value, and \<open>Go_Json\<close> proves that more
  fuel never changes a reading.

  Not modelled.  The servers of \<open>net/http\<close> with their timeouts and limits, and signals.  Deadlines and cancellation appear
  only as failures of the call they interrupt.  Row locks appear through \<open>locked\<close> and through the
  atomicity of single statements and of transactions that lock the rows they use.  Indexes have no
  effect on results.  Logging is left out.
\<close>

end
